(* ===== verification/Prelude.thy ===== *)
theory Prelude
  imports Main "HOL-Library.Word" "HOL-Library.Char_ord" "HOL-Library.List_Lexorder"
begin

text \<open>
  The vocabulary every component of the development shares: the types that stand for Python's
  values, the exceptions the code raises, the string primitives of the standard library the
  code calls (\<open>join\<close>, \<open>split\<close>, \<open>hex\<close>, \<open>bytes.fromhex\<close>, \<open>int(s, 16)\<close>, \<open>str(n)\<close>) and
  the lemmas about them that the component proofs use.

  Conventions. An identifier, a hash, a hex string or a field name is a \<open>string\<close>; document
  content is a \<open>ustr\<close>, a list of Unicode code points; \<open>bytes\<close> are lists of 8-bit words. An
  instant (\<open>datetime\<close>, \<open>time.time()\<close>) is an \<open>int\<close>, a number of microseconds since the
  epoch; every operation that reads the clock takes the reading as an argument, and every
  operation that draws randomness (\<open>secrets\<close>, \<open>uuid4\<close>, \<open>os.urandom\<close>) takes the value drawn
  as an argument. An operation that may raise returns a sum: \<open>Inl\<close> the exception, \<open>Inr\<close>
  the value.
\<close>

section \<open>Types\<close>

type_synonym bytes = "8 word list"
type_synonym ustr = "nat list"
type_synonym datetime = int

datatype pyexn =
    ValueError
  | TypeError
  | KeyError
  | IndexError
  | AttributeError
  | OverflowError
  | PermissionError
  | RuntimeError
  | UnicodeDecodeError
  | JSONDecodeError
  | InvalidTag
  | ReplayAttackError
  | TokenExpiredError
  | ShareIntegrityError
  | CryptoUnavailableError
  | SignatureVerificationError
  | MessageTimestampError
  | ValidationError
  | FileNotFoundError

type_synonym 'a result = "pyexn + 'a"

definition seconds :: "int \<Rightarrow> datetime" where
  "seconds n = n * 1000000"

lemma seconds_mono [simp]: "seconds a \<le> seconds b \<longleftrightarrow> a \<le> b"
  by (simp add: seconds_def)

lemma seconds_add: "seconds (a + b) = seconds a + seconds b"
  by (simp add: seconds_def algebra_simps)

named_theorems node_simps
named_theorems store_simps
named_theorems cache_simps
named_theorems lock_simps
named_theorems db_simps

section \<open>Python dictionaries\<close>

text \<open>
  A dictionary whose iteration order matters is an association list with distinct keys:
  assignment replaces the value in place or appends, as Python does.
\<close>

fun dict_set :: "'k \<Rightarrow> 'v \<Rightarrow> ('k \<times> 'v) list \<Rightarrow> ('k \<times> 'v) list" where
  "dict_set k v [] = [(k, v)]"
| "dict_set k v ((k', v') # d) = (if k = k' then (k, v) # d else (k', v') # dict_set k v d)"

definition dict_del :: "'k \<Rightarrow> ('k \<times> 'v) list \<Rightarrow> ('k \<times> 'v) list" where
  "dict_del k d = filter (\<lambda>(k', v). k' \<noteq> k) d"

lemma map_of_dict_set [simp]: "map_of (dict_set k v d) = (map_of d)(k \<mapsto> v)"
  by (induction k v d rule: dict_set.induct) auto

lemma map_of_dict_del [simp]: "map_of (dict_del k d) = (map_of d)(k := None)"
  by (induction d) (auto simp: dict_del_def)

lemma fst_set_dict_set [simp]: "fst ` set (dict_set k v d) = insert k (fst ` set d)"
  by (induction k v d rule: dict_set.induct) auto

lemma set_dict_set: "x \<in> set (dict_set k v d) \<Longrightarrow> x = (k, v) \<or> x \<in> set d"
  by (induction k v d rule: dict_set.induct) (auto split: if_splits)

lemma distinct_dict_set: "distinct (map fst d) \<Longrightarrow> distinct (map fst (dict_set k v d))"
  by (induction k v d rule: dict_set.induct) auto

lemma distinct_dict_del: "distinct (map fst d) \<Longrightarrow> distinct (map fst (dict_del k d))"
  by (induction d) (auto simp: dict_del_def)

section \<open>Positional numerals\<close>

text \<open>Digits of a natural number, most significant first, and their value.\<close>

fun to_digits :: "nat \<Rightarrow> nat \<Rightarrow> nat list" where
  "to_digits b n = (if n < b \<or> b < 2 then [n] else to_digits b (n div b) @ [n mod b])"

declare to_digits.simps [simp del]

definition from_digits :: "nat \<Rightarrow> nat list \<Rightarrow> nat" where
  "from_digits b ds = foldl (\<lambda>a d. a * b + d) 0 ds"

lemma from_digits_snoc [simp]: "from_digits b (ds @ [d]) = from_digits b ds * b + d"
  by (simp add: from_digits_def)

lemma from_digits_Nil [simp]: "from_digits b [] = 0"
  by (simp add: from_digits_def)

lemma from_to_digits [simp]: "2 \<le> b \<Longrightarrow> from_digits b (to_digits b n) = n"
proof (induction b n rule: to_digits.induct)
  case (1 b n)
  then show ?case
    by (subst to_digits.simps) (auto simp: from_digits_def)
qed

lemma to_digits_bound: "2 \<le> b \<Longrightarrow> d \<in> set (to_digits b n) \<Longrightarrow> d < b"
proof (induction b n rule: to_digits.induct)
  case (1 b n)
  show ?case
  proof (cases "n < b")
    case True
    with "1.prems" show ?thesis by (subst (asm) to_digits.simps) simp
  next
    case False
    with "1.prems" have "d \<in> set (to_digits b (n div b)) \<or> d = n mod b"
      by (subst (asm) to_digits.simps) (auto split: if_splits)
    with "1.IH" "1.prems" False show ?thesis by auto
  qed
qed

lemma to_digits_nonempty [simp]: "to_digits b n \<noteq> []"
  by (subst to_digits.simps) simp

section \<open>Results\<close>

definition bindr :: "'a result \<Rightarrow> ('a \<Rightarrow> 'b result) \<Rightarrow> 'b result" where
  "bindr r f = (case r of Inl e \<Rightarrow> Inl e | Inr x \<Rightarrow> f x)"

lemma bindr_simps [simp]: "bindr (Inl e) f = Inl e" "bindr (Inr x) f = f x"
  by (simp_all add: bindr_def)

lemma bindr_eq_Inr: "bindr r f = Inr y \<longleftrightarrow> (\<exists>x. r = Inr x \<and> f x = Inr y)"
  by (cases r) simp_all

fun mapr :: "('a \<Rightarrow> 'b result) \<Rightarrow> 'a list \<Rightarrow> 'b list result" where
  "mapr f [] = Inr []"
| "mapr f (x # xs) = bindr (f x) (\<lambda>y. bindr (mapr f xs) (\<lambda>ys. Inr (y # ys)))"

lemma mapr_Inr: "\<forall>x \<in> set xs. f (g x) = Inr x \<Longrightarrow> mapr f (map g xs) = Inr xs"
  by (induction xs) simp_all

end
