(* ===== verification/Strings.thy ===== *)
theory Strings
  imports Prelude
begin

text \<open>
  The string and bytes primitives of the Python standard library that the code calls: decimal
  and hexadecimal numerals, \<open>bytes.hex\<close> / \<open>bytes.fromhex\<close>, \<open>join\<close> / \<open>split\<close> / \<open>strip\<close>, the
  big-endian integer conversions, and the UTF-8 codec. Each printer comes with the lemma that
  its reader inverts it.
\<close>

section \<open>Hexadecimal\<close>

definition hexd :: "nat \<Rightarrow> char" where
  "hexd n = (if n < 10 then char_of (48 + n) else char_of (87 + n))"

definition unhexd :: "char \<Rightarrow> nat option" where
  "unhexd c =
     (let n = of_char c :: nat
      in if 48 \<le> n \<and> n \<le> 57 then Some (n - 48)
         else if 97 \<le> n \<and> n \<le> 102 then Some (n - 87)
         else if 65 \<le> n \<and> n \<le> 70 then Some (n - 55)
         else None)"

lemma of_char_hexd: "n < 16 \<Longrightarrow> of_char (hexd n) = (if n < 10 then 48 + n else 87 + n)"
  by (simp add: hexd_def)

lemma unhexd_hexd [simp]: "n < 16 \<Longrightarrow> unhexd (hexd n) = Some n"
  by (auto simp: unhexd_def of_char_hexd)

text \<open>\<open>str.isspace\<close> on a Latin-1 character, as \<open>strip\<close> and \<open>split\<close> use it.\<close>

definition py_isspace :: "nat \<Rightarrow> bool" where
  "py_isspace n \<longleftrightarrow> 9 \<le> n \<and> n \<le> 13 \<or> 28 \<le> n \<and> n \<le> 32 \<or> n = 133 \<or> n = 160"

abbreviation isspace :: "char \<Rightarrow> bool" where
  "isspace c \<equiv> py_isspace (of_char c)"

lemma isspace_hexd [simp]: "n < 16 \<Longrightarrow> \<not> isspace (hexd n)"
  by (auto simp: py_isspace_def of_char_hexd)

definition strip :: "string \<Rightarrow> string" where
  "strip s = rev (dropWhile isspace (rev (dropWhile isspace s)))"

lemma dropWhile_hd: "s = [] \<or> \<not> P (hd s) \<Longrightarrow> dropWhile P s = s"
  by (cases s) auto

lemma strip_id: "s = [] \<or> \<not> isspace (hd s) \<and> \<not> isspace (last s) \<Longrightarrow> strip s = s"
  by (auto simp: strip_def dropWhile_hd hd_rev)

text \<open>\<open>bytes.hex()\<close> and \<open>bytes.fromhex(s)\<close>; the latter skips white space between bytes.\<close>

definition byte_hex :: "8 word \<Rightarrow> string" where
  "byte_hex b = [hexd (unat b div 16), hexd (unat b mod 16)]"

definition bytes_hex :: "bytes \<Rightarrow> string" where
  "bytes_hex bs = concat (map byte_hex bs)"

fun fromhex :: "string \<Rightarrow> bytes option" where
  "fromhex [] = Some []"
| "fromhex (c # cs) =
     (if isspace c then fromhex cs
      else case cs of
          [] \<Rightarrow> None
        | d # ds \<Rightarrow>
            (case (unhexd c, unhexd d) of
               (Some hi, Some lo) \<Rightarrow> map_option ((#) (word_of_nat (16 * hi + lo))) (fromhex ds)
             | _ \<Rightarrow> None))"

lemma unat_byte_less [simp]: "unat (b :: 8 word) < 256"
  using unsigned_less [of b, where ?'a = nat] by simp

lemma unat_byte_div_less [simp]: "unat (b :: 8 word) div 16 < 16"
  using unat_byte_less [of b] by (simp only: div_less_iff_less_mult)

lemma byte_nibbles [simp]: "word_of_nat (16 * (unat b div 16) + unat b mod 16) = (b :: 8 word)"
  by (simp add: mult_div_mod_eq)

lemma fromhex_bytes_hex [simp]: "fromhex (bytes_hex bs) = Some bs"
  by (induction bs) (simp_all add: bytes_hex_def byte_hex_def)

lemma bytes_hex_inj: "bytes_hex a = bytes_hex b \<Longrightarrow> a = b"
  by (metis fromhex_bytes_hex option.inject)

lemma bytes_hex_Nil_iff [simp]: "bytes_hex bs = [] \<longleftrightarrow> bs = []"
  by (cases bs) (simp_all add: bytes_hex_def byte_hex_def)

lemma hexd_neq:
  assumes "n < 16" "of_char c < (48 :: nat) \<or> 57 < (of_char c :: nat) \<and> of_char c < (97 :: nat) \<or>
    102 < (of_char c :: nat)"
  shows "hexd n \<noteq> c"
  using assms of_char_hexd [of n] by (auto split: if_splits)

lemma bytes_hex_notin:
  assumes "of_char c < (48 :: nat) \<or> 57 < (of_char c :: nat) \<and> of_char c < (97 :: nat) \<or>
    102 < (of_char c :: nat)"
  shows "c \<notin> set (bytes_hex bs)"
proof -
  have "hexd (unat b div 16) \<noteq> c \<and> hexd (unat b mod 16) \<noteq> c" for b :: "8 word"
    using assms by (intro conjI hexd_neq) auto
  then show ?thesis by (fastforce simp: bytes_hex_def byte_hex_def)
qed

section \<open>Numerals\<close>

text \<open>\<open>str(n)\<close>, \<open>hex(n)\<close> for a non-negative \<open>n\<close>, and \<open>int(s, 16)\<close>.\<close>

definition dec :: "nat \<Rightarrow> string" where
  "dec n = map hexd (to_digits 10 n)"

definition str_int :: "int \<Rightarrow> string" where
  "str_int i = (if i < 0 then CHR ''-'' # dec (nat (- i)) else dec (nat i))"

definition hexstr :: "nat \<Rightarrow> string" where
  "hexstr n = ''0x'' @ map hexd (to_digits 16 n)"

fun hexdigs :: "bool \<Rightarrow> nat \<Rightarrow> string \<Rightarrow> nat option" where
  "hexdigs ok acc [] = (if ok then Some acc else None)"
| "hexdigs ok acc (c # cs) =
     (if c = CHR ''_'' then (if ok then hexdigs False acc cs else None)
      else case unhexd c of None \<Rightarrow> None | Some d \<Rightarrow> hexdigs True (acc * 16 + d) cs)"

fun drop_prefix16 :: "string \<Rightarrow> string" where
  "drop_prefix16 (z # x # cs) =
     (if z = CHR ''0'' \<and> (x = CHR ''x'' \<or> x = CHR ''X'')
      then (case cs of c # cs' \<Rightarrow> if c = CHR ''_'' then cs' else cs | [] \<Rightarrow> cs)
      else z # x # cs)"
| "drop_prefix16 cs = cs"

definition int16 :: "string \<Rightarrow> int option" where
  "int16 s =
     (case strip s of
        [] \<Rightarrow> None
      | c # cs \<Rightarrow>
          if c = CHR ''-'' then map_option (\<lambda>n. - int n) (hexdigs False 0 (drop_prefix16 cs))
          else if c = CHR ''+'' then map_option int (hexdigs False 0 (drop_prefix16 cs))
          else map_option int (hexdigs False 0 (drop_prefix16 (c # cs))))"

lemma hexd_not_underscore [simp]: "n < 16 \<Longrightarrow> hexd n \<noteq> CHR ''_''"
  by (rule hexd_neq) simp_all

lemma hexdigs_map:
  "\<forall>d \<in> set ds. d < 16 \<Longrightarrow>
   hexdigs ok acc (map hexd ds) =
     (if ok \<or> ds \<noteq> [] then Some (foldl (\<lambda>a d. a * 16 + d) acc ds) else None)"
  by (induction ds arbitrary: ok acc) auto

lemma hexdigs_to_digits: "hexdigs False 0 (map hexd (to_digits 16 n)) = Some n"
proof -
  have "\<forall>d \<in> set (to_digits 16 n). d < 16"
    using to_digits_bound [of 16] by auto
  then have "hexdigs False 0 (map hexd (to_digits 16 n)) = Some (from_digits 16 (to_digits 16 n))"
    by (simp add: hexdigs_map from_digits_def)
  then show ?thesis by simp
qed

lemma map_hexd_not_space:
  "\<forall>d \<in> set ds. d < 16 \<Longrightarrow> ds \<noteq> [] \<Longrightarrow> \<not> isspace (last (map hexd ds))"
  by (simp add: last_map)

lemma strip_hexstr: "strip (hexstr n) = hexstr n"
proof (rule strip_id, rule disjI2)
  have "\<forall>d \<in> set (to_digits 16 n). d < 16"
    using to_digits_bound [of 16] by auto
  then show "\<not> isspace (hd (hexstr n)) \<and> \<not> isspace (last (hexstr n))"
    using map_hexd_not_space [of "to_digits 16 n"] by (simp add: hexstr_def py_isspace_def last_map)
qed

lemma drop_prefix16_hexstr: "drop_prefix16 (hexstr n) = map hexd (to_digits 16 n)"
proof -
  have "\<forall>d \<in> set (to_digits 16 n). d < 16"
    using to_digits_bound [of 16] by auto
  then show ?thesis
    by (cases "to_digits 16 n") (auto simp: hexstr_def)
qed

lemma int16_hexstr [simp]: "int16 (hexstr n) = Some (int n)"
proof -
  obtain cs where cs: "hexstr n = CHR ''0'' # cs" by (simp add: hexstr_def)
  have "hexdigs False 0 (drop_prefix16 (CHR ''0'' # cs)) = Some n"
    using drop_prefix16_hexstr [of n] cs hexdigs_to_digits by simp
  moreover have "strip (hexstr n) = CHR ''0'' # cs"
    using strip_hexstr [of n] cs by simp
  ultimately show ?thesis
    by (simp add: int16_def)
qed

lemma hexstr_notin_bar: "CHR ''|'' \<notin> set (hexstr n)"
proof -
  have "\<forall>d \<in> set (to_digits 16 n). d < 16"
    using to_digits_bound [of 16] by auto
  then have "hexd d \<noteq> CHR ''|''" if "d \<in> set (to_digits 16 n)" for d
    using that by (intro hexd_neq) auto
  then show ?thesis by (fastforce simp: hexstr_def)
qed

section \<open>Joining and splitting\<close>

fun join :: "'a list \<Rightarrow> 'a list list \<Rightarrow> 'a list" where
  "join sep [] = []"
| "join sep [x] = x"
| "join sep (x # y # zs) = x @ sep @ join sep (y # zs)"

lemma join_notin: "c \<notin> set sep \<Longrightarrow> \<forall>x \<in> set xs. c \<notin> set x \<Longrightarrow> c \<notin> set (join sep xs)"
  by (induction sep xs rule: join.induct) auto

text \<open>\<open>s.split(sep)\<close>; \<open>acc\<close> is the piece read so far, reversed.\<close>

function split_acc :: "'a list \<Rightarrow> 'a list \<Rightarrow> 'a list \<Rightarrow> 'a list list" where
  "split_acc sep acc [] = [rev acc]"
| "split_acc sep acc (c # cs) =
     (if sep \<noteq> [] \<and> take (length sep) (c # cs) = sep
      then rev acc # split_acc sep [] (drop (length sep) (c # cs))
      else split_acc sep (c # acc) cs)"
  by pat_completeness auto
termination
  by (relation "measure (\<lambda>(sep, acc, s). length s)") (auto simp: neq_Nil_conv)

definition split :: "'a list \<Rightarrow> 'a list \<Rightarrow> 'a list list" where
  "split sep s = split_acc sep [] s"

declare split_acc.simps [simp del]

lemma split_acc_Nil [simp]: "split_acc sep acc [] = [rev acc]"
  by (simp add: split_acc.simps)

lemma split_acc_char_end: "c \<notin> set p \<Longrightarrow> split_acc [c] acc p = [rev acc @ p]"
  by (induction p arbitrary: acc) (auto simp: split_acc.simps)

lemma split_acc_char:
  "c \<notin> set p \<Longrightarrow> split_acc [c] acc (p @ c # rest) = (rev acc @ p) # split_acc [c] [] rest"
  by (induction p arbitrary: acc) (auto simp: split_acc.simps)

lemma split_join_char:
  assumes "ps \<noteq> []" "\<forall>p \<in> set ps. c \<notin> set p"
  shows "split [c] (join [c] ps) = ps"
proof -
  have "split_acc [c] [] (join [c] ps) = ps"
    using assms
    by (induction "[c]" ps rule: join.induct) (auto simp: split_acc_char split_acc_char_end)
  then show ?thesis by (simp add: split_def)
qed

text \<open>The audit log's separator, a bar between blanks.\<close>

abbreviation bar :: string where
  "bar \<equiv> '' | ''"

lemma split_acc_bar_end: "CHR ''|'' \<notin> set p \<Longrightarrow> split_acc bar acc p = [rev acc @ p]"
proof (induction p arbitrary: acc)
  case (Cons x p)
  then have "take (length bar) (x # p) \<noteq> bar"
    by (cases p) auto
  with Cons show ?case by (simp add: split_acc.simps)
qed simp

lemma split_acc_bar:
  "CHR ''|'' \<notin> set p \<Longrightarrow> split_acc bar acc (p @ bar @ rest) = (rev acc @ p) # split_acc bar [] rest"
proof (induction p arbitrary: acc)
  case (Cons x p)
  then have "take (length bar) (x # p @ bar @ rest) \<noteq> bar"
    by (cases p) auto
  with Cons show ?case by (simp add: split_acc.simps)
qed (simp add: split_acc.simps)

lemma split_join_bar:
  assumes "ps \<noteq> []" "\<forall>p \<in> set ps. CHR ''|'' \<notin> set p"
  shows "split bar (join bar ps) = ps"
proof -
  have "split_acc bar [] (join bar ps) = ps"
    using assms
    by (induction bar ps rule: join.induct)
      (auto simp: split_acc_bar [simplified] split_acc_bar_end [simplified])
  then show ?thesis by (simp add: split_def)
qed

section \<open>Integers and bytes\<close>

text \<open>\<open>int.from_bytes(b, 'big')\<close> and \<open>n.to_bytes(k, 'big')\<close>, which raises \<open>OverflowError\<close>.\<close>

definition bytes_to_nat :: "bytes \<Rightarrow> nat" where
  "bytes_to_nat bs = foldl (\<lambda>a b. a * 256 + unat b) 0 bs"

fun be_bytes :: "nat \<Rightarrow> nat \<Rightarrow> bytes" where
  "be_bytes 0 n = []"
| "be_bytes (Suc k) n = be_bytes k (n div 256) @ [word_of_nat (n mod 256)]"

definition nat_to_bytes :: "nat \<Rightarrow> nat \<Rightarrow> bytes result" where
  "nat_to_bytes n k = (if n < 256 ^ k then Inr (be_bytes k n) else Inl OverflowError)"

lemma length_be_bytes [simp]: "length (be_bytes k n) = k"
  by (induction k n rule: be_bytes.induct) simp_all

lemma bytes_to_nat_Nil [simp]: "bytes_to_nat [] = 0"
  by (simp add: bytes_to_nat_def)

lemma bytes_to_nat_snoc [simp]: "bytes_to_nat (bs @ [b]) = bytes_to_nat bs * 256 + unat b"
  by (simp add: bytes_to_nat_def)

lemma bytes_to_nat_less: "bytes_to_nat bs < 256 ^ length bs"
proof (induction bs rule: rev_induct)
  case (snoc b bs)
  have "bytes_to_nat bs * 256 + unat b < (bytes_to_nat bs + 1) * 256"
    by simp
  also have "\<dots> \<le> 256 ^ length bs * 256"
    using snoc by (intro mult_le_mono1) simp
  finally show ?case by (simp add: mult.commute)
qed simp

lemma unat_of_byte [simp]: "unat (word_of_nat (n mod 256) :: 8 word) = n mod 256"
  by (simp add: unat_of_nat)

lemma be_bytes_to_nat [simp]: "be_bytes (length bs) (bytes_to_nat bs) = bs"
  by (induction bs rule: rev_induct) simp_all

lemma bytes_to_nat_be_bytes [simp]: "n < 256 ^ k \<Longrightarrow> bytes_to_nat (be_bytes k n) = n"
  by (induction k n rule: be_bytes.induct) (auto simp: less_mult_imp_div_less mult.commute)

lemma nat_to_bytes_of_bytes:
  "nat_to_bytes (bytes_to_nat bs) (length bs) = Inr bs"
  using bytes_to_nat_less [of bs] by (simp add: nat_to_bytes_def)

section \<open>UTF-8\<close>

text \<open>
  \<open>str.encode('utf-8')\<close> on the Unicode scalar values; Python raises on a lone surrogate, which
  \<open>scalar_text\<close> excludes where it matters. \<open>bytes.decode('utf-8')\<close> is strict: it rejects
  overlong forms, surrogates and values above \<open>0x10FFFF\<close>.
\<close>

definition scalar :: "nat \<Rightarrow> bool" where
  "scalar c \<longleftrightarrow> c < 55296 \<or> 57344 \<le> c \<and> c < 1114112"

definition scalar_text :: "ustr \<Rightarrow> bool" where
  "scalar_text s \<longleftrightarrow> (\<forall>c \<in> set s. scalar c)"

definition utf8_cp :: "nat \<Rightarrow> nat list" where
  "utf8_cp c =
     (if c < 128 then [c]
      else if c < 2048 then [192 + c div 64, 128 + c mod 64]
      else if c < 65536 then [224 + c div 4096, 128 + c div 64 mod 64, 128 + c mod 64]
      else [240 + c div 262144, 128 + c div 4096 mod 64, 128 + c div 64 mod 64, 128 + c mod 64])"

definition utf8 :: "ustr \<Rightarrow> bytes" where
  "utf8 s = map word_of_nat (concat (map utf8_cp s))"

definition cont :: "nat \<Rightarrow> bool" where
  "cont b \<longleftrightarrow> 128 \<le> b \<and> b < 192"

fun utf8_dec :: "nat list \<Rightarrow> ustr option" where
  "utf8_dec [] = Some []"
| "utf8_dec (a # bs) =
     (if a < 128 then map_option ((#) a) (utf8_dec bs)
      else if 194 \<le> a \<and> a < 224 then
        (case bs of
           b # bs' \<Rightarrow>
             if cont b then map_option ((#) ((a - 192) * 64 + (b - 128))) (utf8_dec bs') else None
         | _ \<Rightarrow> None)
      else if 224 \<le> a \<and> a < 240 then
        (case bs of
           b # c # bs' \<Rightarrow>
             let n = (a - 224) * 4096 + (b - 128) * 64 + (c - 128)
             in if cont b \<and> cont c \<and> 2048 \<le> n \<and> scalar n
                then map_option ((#) n) (utf8_dec bs') else None
         | _ \<Rightarrow> None)
      else if 240 \<le> a \<and> a < 245 then
        (case bs of
           b # c # d # bs' \<Rightarrow>
             let n = (a - 240) * 262144 + (b - 128) * 4096 + (c - 128) * 64 + (d - 128)
             in if cont b \<and> cont c \<and> cont d \<and> 65536 \<le> n \<and> scalar n
                then map_option ((#) n) (utf8_dec bs') else None
         | _ \<Rightarrow> None)
      else None)"

definition decode_utf8 :: "bytes \<Rightarrow> ustr option" where
  "decode_utf8 bs = utf8_dec (map unat bs)"

lemma utf8_cp_byte: "scalar c \<Longrightarrow> b \<in> set (utf8_cp c) \<Longrightarrow> b < 256"
  by (auto simp: utf8_cp_def scalar_def split: if_splits)

lemma utf8_split3:
  "(c :: nat) div 4096 * 4096 + c div 64 mod 64 * 64 + c mod 64 = c"
proof -
  define x where "x = c div 64"
  have "x * 64 + c mod 64 = c" "x div 64 * 64 + x mod 64 = x" by (simp_all add: x_def)
  moreover have "c div 4096 = x div 64" by (simp add: x_def div_mult2_eq [symmetric])
  ultimately show ?thesis unfolding x_def [symmetric] by linarith
qed

lemma utf8_split4:
  "(c :: nat) div 262144 * 262144 + c div 4096 mod 64 * 4096 + c div 64 mod 64 * 64 + c mod 64 = c"
proof -
  define x where "x = c div 4096"
  have "x div 64 * 64 + x mod 64 = x" by simp
  moreover have "c div 262144 = x div 64" by (simp add: x_def div_mult2_eq [symmetric])
  ultimately show ?thesis using utf8_split3 [of c] unfolding x_def [symmetric] by linarith
qed

lemma cont_add [simp]: "cont (128 + n mod 64)"
  by (simp add: cont_def)

lemma utf8_dec_cp:
  assumes "scalar c"
  shows "utf8_dec (utf8_cp c @ bs) = map_option ((#) c) (utf8_dec bs)"
proof -
  consider "c < 128" | "128 \<le> c" "c < 2048" | "2048 \<le> c" "c < 65536" | "65536 \<le> c" "c < 1114112"
    using assms by (fastforce simp: scalar_def)
  then show ?thesis
  proof cases
    case 2
    then have "2 \<le> c div 64" "c div 64 < 32" by auto
    with 2 show ?thesis by (simp add: utf8_cp_def)
  next
    case 3
    then have "c div 4096 < 16" by auto
    with 3 assms show ?thesis by (simp add: utf8_cp_def Let_def utf8_split3)
  next
    case 4
    then have "c div 262144 < 5" by auto
    with 4 assms show ?thesis by (simp add: utf8_cp_def Let_def utf8_split4)
  qed (simp add: utf8_cp_def)
qed

lemma utf8_dec_concat: "scalar_text s \<Longrightarrow> utf8_dec (concat (map utf8_cp s)) = Some s"
  by (induction s) (simp_all add: scalar_text_def utf8_dec_cp)

lemma decode_utf8_utf8:
  assumes "scalar_text s"
  shows "decode_utf8 (utf8 s) = Some s"
proof -
  have "map (unat \<circ> (word_of_nat :: nat \<Rightarrow> 8 word)) (concat (map utf8_cp s)) = concat (map utf8_cp s)"
    using assms utf8_cp_byte
    by (intro map_idI) (auto simp: scalar_text_def unat_of_nat)
  with assms show ?thesis by (simp add: decode_utf8_def utf8_def utf8_dec_concat)
qed

lemma utf8_inj: "scalar_text s \<Longrightarrow> scalar_text t \<Longrightarrow> utf8 s = utf8 t \<Longrightarrow> s = t"
  by (metis decode_utf8_utf8 option.inject)

text \<open>A \<^typ>\<open>string\<close> of the model as the source's \<open>str\<close>, and its encoding.\<close>

definition ustr_of :: "string \<Rightarrow> ustr" where
  "ustr_of s = map of_char s"

definition encode :: "string \<Rightarrow> bytes" where
  "encode s = utf8 (ustr_of s)"

lemma scalar_ustr_of [simp]: "scalar_text (ustr_of s)"
proof -
  have "scalar (of_char c)" for c :: char
    using nat_of_char_less_256 [of c] unfolding scalar_def by linarith
  then show ?thesis by (auto simp: scalar_text_def ustr_of_def)
qed

lemma encode_inj: "encode s = encode t \<longleftrightarrow> s = t"
proof
  assume "encode s = encode t"
  then have "ustr_of s = ustr_of t" by (simp add: encode_def utf8_inj)
  then show "s = t" unfolding ustr_of_def
    by (rule map_injective) (auto intro: injI simp: of_char_eq_iff)
qed simp

end
