(* ===== verification/Sha256.thy ===== *)
theory Sha256
  imports Strings
begin

text \<open>
  The standard library's \<open>hashlib.sha256(...).hexdigest()\<close> and \<open>hmac.new(key, data,
  hashlib.sha256).hexdigest()\<close>, which the code uses for content addresses, chained log entries
  and the integrity tags of shares. Both are the executable functions of FIPS 180-4 and RFC 2104
  over 32-bit words, so nothing is assumed of them; what the components need is that a digest
  is a string of 64 lower-case hex digits, hence never contains a separator.
\<close>

unbundle bit_operations_syntax

section \<open>SHA-256\<close>

definition sha_k :: "32 word list" where
  "sha_k = [
    1116352408, 1899447441, 3049323471, 3921009573, 961987163, 1508970993, 2453635748,
    2870763221, 3624381080, 310598401, 607225278, 1426881987, 1925078388, 2162078206,
    2614888103, 3248222580, 3835390401, 4022224774, 264347078, 604807628, 770255983, 1249150122,
    1555081692, 1996064986, 2554220882, 2821834349, 2952996808, 3210313671, 3336571891,
    3584528711, 113926993, 338241895, 666307205, 773529912, 1294757372, 1396182291, 1695183700,
    1986661051, 2177026350, 2456956037, 2730485921, 2820302411, 3259730800, 3345764771,
    3516065817, 3600352804, 4094571909, 275423344, 430227734, 506948616, 659060556, 883997877,
    958139571, 1322822218, 1537002063, 1747873779, 1955562222, 2024104815, 2227730452,
    2361852424, 2428436474, 2756734187, 3204031479, 3329325298]"

definition sha_h0 :: "32 word list" where
  "sha_h0 = [
    1779033703, 3144134277, 1013904242, 2773480762, 1359893119, 2600822924, 528734635,
    1541459225]"

definition rotr :: "nat \<Rightarrow> 32 word \<Rightarrow> 32 word" where
  "rotr n x = drop_bit n x OR push_bit (32 - n) x"

definition ssig0 :: "32 word \<Rightarrow> 32 word" where
  "ssig0 x = rotr 7 x XOR rotr 18 x XOR drop_bit 3 x"

definition ssig1 :: "32 word \<Rightarrow> 32 word" where
  "ssig1 x = rotr 17 x XOR rotr 19 x XOR drop_bit 10 x"

definition bsig0 :: "32 word \<Rightarrow> 32 word" where
  "bsig0 x = rotr 2 x XOR rotr 13 x XOR rotr 22 x"

definition bsig1 :: "32 word \<Rightarrow> 32 word" where
  "bsig1 x = rotr 6 x XOR rotr 11 x XOR rotr 25 x"

definition sha_ch :: "32 word \<Rightarrow> 32 word \<Rightarrow> 32 word \<Rightarrow> 32 word" where
  "sha_ch x y z = (x AND y) XOR (NOT x AND z)"

definition sha_maj :: "32 word \<Rightarrow> 32 word \<Rightarrow> 32 word \<Rightarrow> 32 word" where
  "sha_maj x y z = (x AND y) XOR (x AND z) XOR (y AND z)"

text \<open>The message schedule, newest word first: \<open>w ! 1\<close> is the word two steps back.\<close>

fun sha_expand :: "nat \<Rightarrow> 32 word list \<Rightarrow> 32 word list" where
  "sha_expand 0 w = w"
| "sha_expand (Suc n) w =
     sha_expand n ((ssig1 (w ! 1) + w ! 6 + ssig0 (w ! 14) + w ! 15) # w)"

fun sha_rounds :: "32 word list \<Rightarrow> 32 word list \<Rightarrow> 32 word list \<Rightarrow> 32 word list" where
  "sha_rounds (k # ks) (w # ws) [a, b, c, d, e, f, g, h] =
     (let t1 = h + bsig1 e + sha_ch e f g + k + w;
          t2 = bsig0 a + sha_maj a b c
      in sha_rounds ks ws [t1 + t2, a, b, c, d + t1, e, f, g])"
| "sha_rounds ks ws st = st"

definition sha_block :: "32 word list \<Rightarrow> 32 word list \<Rightarrow> 32 word list" where
  "sha_block h w = map2 (+) h (sha_rounds sha_k (rev (sha_expand 48 (rev w))) h)"

definition word32 :: "8 word \<Rightarrow> 8 word \<Rightarrow> 8 word \<Rightarrow> 8 word \<Rightarrow> 32 word" where
  "word32 a b c d =
     push_bit 24 (ucast a) OR push_bit 16 (ucast b) OR push_bit 8 (ucast c) OR ucast d"

definition word32_bytes :: "32 word \<Rightarrow> bytes" where
  "word32_bytes w = map (\<lambda>n. ucast (drop_bit n w)) [24, 16, 8, 0]"

definition word64_bytes :: "64 word \<Rightarrow> bytes" where
  "word64_bytes w = map (\<lambda>n. ucast (drop_bit n w)) [56, 48, 40, 32, 24, 16, 8, 0]"

fun words_of :: "bytes \<Rightarrow> 32 word list" where
  "words_of (a # b # c # d # bs) = word32 a b c d # words_of bs"
| "words_of bs = []"

definition sha_pad :: "bytes \<Rightarrow> bytes" where
  "sha_pad m = m @ [0x80] @ replicate ((119 - length m mod 64) mod 64) 0 @
     word64_bytes (8 * word_of_nat (length m))"

fun sha_loop :: "nat \<Rightarrow> 32 word list \<Rightarrow> 32 word list \<Rightarrow> 32 word list" where
  "sha_loop 0 h ws = h"
| "sha_loop (Suc n) h ws = sha_loop n (sha_block h (take 16 ws)) (drop 16 ws)"

definition sha256_digest :: "bytes \<Rightarrow> bytes" where
  "sha256_digest m =
     (let p = sha_pad m
      in concat (map word32_bytes (sha_loop (length p div 64) sha_h0 (words_of p))))"

text \<open>\<open>hashlib.sha256(m).hexdigest()\<close>\<close>

definition sha256 :: "bytes \<Rightarrow> string" where
  "sha256 m = bytes_hex (sha256_digest m)"

section \<open>HMAC\<close>

definition hmac_block_key :: "bytes \<Rightarrow> bytes" where
  "hmac_block_key k =
     (let k' = (if length k > 64 then sha256_digest k else k)
      in k' @ replicate (64 - length k') 0)"

definition hmac_sha256 :: "bytes \<Rightarrow> bytes \<Rightarrow> string" where
  "hmac_sha256 key msg =
     (let k = hmac_block_key key
      in sha256 (map (\<lambda>b. b XOR 0x5c) k @ sha256_digest (map (\<lambda>b. b XOR 0x36) k @ msg)))"

section \<open>The shape of a digest\<close>

lemma length_sha_rounds [simp]: "length h = 8 \<Longrightarrow> length (sha_rounds ks ws h) = 8"
  by (induction ks ws h rule: sha_rounds.induct) (simp_all add: Let_def)

lemma length_sha_block [simp]: "length h = 8 \<Longrightarrow> length (sha_block h w) = 8"
  by (simp add: sha_block_def)

lemma length_sha_loop [simp]: "length h = 8 \<Longrightarrow> length (sha_loop n h ws) = 8"
  by (induction n h ws rule: sha_loop.induct) simp_all

lemma length_sha256_digest [simp]: "length (sha256_digest m) = 32"
proof -
  have "length (concat (map word32_bytes ws)) = 4 * length ws" for ws
    by (induction ws) (simp_all add: word32_bytes_def)
  then show ?thesis by (simp add: sha256_digest_def Let_def sha_h0_def)
qed

lemma length_bytes_hex [simp]: "length (bytes_hex bs) = 2 * length bs"
  by (induction bs) (simp_all add: bytes_hex_def byte_hex_def)

lemma length_sha256 [simp]: "length (sha256 m) = 64"
  by (simp add: sha256_def)

lemma sha256_nonempty [simp]: "sha256 m \<noteq> []"
  using length_sha256 [of m] by (metis list.size(3) zero_neq_numeral)

lemma length_hmac_sha256 [simp]: "length (hmac_sha256 k m) = 64"
  by (simp add: hmac_sha256_def Let_def)

lemma hmac_nonempty [simp]: "hmac_sha256 k m \<noteq> []"
  using length_hmac_sha256 [of k m] by (metis list.size(3) zero_neq_numeral)

end
