(* ===== verification/Datetime.thy ===== *)
theory Datetime
  imports Strings
begin

text \<open>
  The part of the standard library's \<open>datetime\<close> the code uses. An instant is the number of
  microseconds since the epoch (UTC); \<open>isoformat\<close> prints it with the proleptic Gregorian
  calendar as \<open>datetime.now(timezone.utc).isoformat()\<close> does, and \<open>fromisoformat\<close> reads the
  documented grammar \<open>YYYY-MM-DD[*HH[:MM[:SS[.fff[fff]]]][+HH:MM[:SS[.ffffff]]]]\<close>; a text with
  no offset gives a naive datetime, which Python refuses to compare with an aware one
  (\<open>TypeError\<close>). The main lemma is that reading back what was printed gives the same instant,
  for every instant a \<open>datetime\<close> can hold.
\<close>

section \<open>Calendar\<close>

definition leap :: "nat \<Rightarrow> bool" where
  "leap y \<longleftrightarrow> y mod 4 = 0 \<and> (y mod 100 \<noteq> 0 \<or> y mod 400 = 0)"

definition year_days :: "nat \<Rightarrow> nat" where
  "year_days y = (if leap y then 366 else 365)"

text \<open>Days before 1 January of year \<open>y\<close>, 1 January of year 1 being day 0.\<close>

definition days_before_year :: "nat \<Rightarrow> nat" where
  "days_before_year y =
     (let k = y - 1 in k * 365 + k div 4 + k div 400 - k div 100)"

definition month_lengths :: "nat \<Rightarrow> nat list" where
  "month_lengths y = [31, if leap y then 29 else 28, 31, 30, 31, 30, 31, 31, 30, 31, 30, 31]"

text \<open>The year of a day: the estimate from below, moved up while the next year has begun.\<close>

fun year_up :: "nat \<Rightarrow> nat \<Rightarrow> nat \<Rightarrow> nat" where
  "year_up 0 y d = y"
| "year_up (Suc n) y d =
     (if days_before_year (y + 1) \<le> d then year_up n (y + 1) d else y)"

definition year_of :: "nat \<Rightarrow> nat" where
  "year_of d = year_up (d div 365) (d div 366 + 1) d"

text \<open>Month (from 1) and day of the month (from 1) of the \<open>d\<close>-th day of a year (from 0).\<close>

fun month_day :: "nat list \<Rightarrow> nat \<Rightarrow> nat \<times> nat" where
  "month_day [] d = (0, d + 1)"
| "month_day (l # ls) d =
     (if d < l then (1, d + 1) else (let (m, k) = month_day ls (d - l) in (m + 1, k)))"

definition ymd_of :: "nat \<Rightarrow> nat \<times> nat \<times> nat" where
  "ymd_of d = (let y = year_of d; (m, k) = month_day (month_lengths y) (d - days_before_year y)
               in (y, m, k))"

text \<open>The day of a date, \<open>None\<close> where \<open>date(y, m, d)\<close> raises \<open>ValueError\<close>.\<close>

definition day_of :: "nat \<Rightarrow> nat \<Rightarrow> nat \<Rightarrow> nat option" where
  "day_of y m d =
     (if 1 \<le> y \<and> y \<le> 9999 \<and> 1 \<le> m \<and> m \<le> 12 \<and> 1 \<le> d \<and> d \<le> month_lengths y ! (m - 1)
      then Some (days_before_year y + sum_list (take (m - 1) (month_lengths y)) + (d - 1))
      else None)"

lemma div_Suc_step: "0 < k \<Longrightarrow> Suc n div k = n div k + (if Suc n mod k = 0 then 1 else 0)"
  by (simp add: div_Suc)

lemma days_before_year_step:
  assumes "1 \<le> y"
  shows "days_before_year (Suc y) = days_before_year y + year_days y"
proof -
  obtain k where y: "y = Suc k" using assms by (cases y) auto
  have m: "Suc k mod 400 = 0 \<Longrightarrow> Suc k mod 100 = 0" "Suc k mod 100 = 0 \<Longrightarrow> Suc k mod 4 = 0"
    by presburger+
  have "k div 100 \<le> k * 365" by (rule order_trans [OF div_le_dividend]) simp
  with m show ?thesis
    unfolding days_before_year_def Let_def y year_days_def leap_def
    by (simp add: div_Suc_step add_ac del: div_Suc)
qed

lemma days_before_year_one [simp]: "days_before_year (Suc 0) = 0"
  by (simp add: days_before_year_def)

lemma days_before_year_upper: "days_before_year (Suc n) \<le> 366 * n"
proof (induction n)
  case (Suc n)
  then show ?case using days_before_year_step [of "Suc n"] by (simp add: year_days_def)
qed simp

lemma days_before_year_lower: "365 * n \<le> days_before_year (Suc n)"
proof (induction n)
  case (Suc n)
  then show ?case using days_before_year_step [of "Suc n"] by (simp add: year_days_def)
qed simp

lemma year_up_bounds:
  assumes "days_before_year y \<le> d" "1 \<le> y" "d < 365 * (y + n)"
  shows "1 \<le> year_up n y d \<and> days_before_year (year_up n y d) \<le> d
    \<and> d < days_before_year (Suc (year_up n y d))"
  using assms
proof (induction n y d rule: year_up.induct)
  case (1 y d)
  then show ?case using days_before_year_lower [of y] by simp
qed simp

lemma year_of_bounds:
  "1 \<le> year_of d" "days_before_year (year_of d) \<le> d" "d < days_before_year (Suc (year_of d))"
proof -
  have "366 * (d div 366) \<le> d" by (metis div_times_less_eq_dividend mult.commute)
  then have "days_before_year (d div 366 + 1) \<le> d"
    using days_before_year_upper [of "d div 366"] by simp
  moreover have "d < 365 * (d div 366 + 1 + d div 365)"
    by (simp add: algebra_simps)
  ultimately show "1 \<le> year_of d" "days_before_year (year_of d) \<le> d"
    "d < days_before_year (Suc (year_of d))"
    using year_up_bounds [of "d div 366 + 1" d "d div 365"] by (simp_all add: year_of_def)
qed

lemma month_day_sum:
  assumes "d < sum_list ls" "month_day ls d = (m, k)"
  shows "1 \<le> m \<and> m \<le> length ls \<and> 1 \<le> k \<and> k \<le> ls ! (m - 1)
    \<and> sum_list (take (m - 1) ls) + (k - 1) = d"
  using assms
proof (induction ls d arbitrary: m k rule: month_day.induct)
  case (2 l ls d)
  show ?case
  proof (cases "d < l")
    case False
    obtain m' k' where r: "month_day ls (d - l) = (m', k')" by fastforce
    have "d - l < sum_list ls" using 2(2) False by simp
    note ih = 2(1) [OF False this r]
    have "m = m' + 1" "k = k'" using r False 2 by simp_all
    then show ?thesis using False ih
      by (cases m') (simp_all, arith)
  qed (use 2 in auto)
qed simp

lemma sum_month_lengths: "sum_list (month_lengths y) = year_days y"
  by (simp add: month_lengths_def year_days_def)

lemma day_of_ymd_of:
  assumes "d < days_before_year 10000" "ymd_of d = (y, m, k)"
  shows "day_of y m k = Some d" "y \<le> 9999" "m \<le> 12" "k \<le> 31"
proof -
  have y: "y = year_of d" and mk: "month_day (month_lengths y) (d - days_before_year y) = (m, k)"
    using assms(2) by (auto simp: ymd_of_def Let_def split: prod.splits)
  note b = year_of_bounds [of d, folded y]
  have "d - days_before_year y < sum_list (month_lengths y)"
    using b days_before_year_step [of y] by (simp add: sum_month_lengths)
  note s = month_day_sum [OF this mk]
  have mono: "days_before_year 10000 \<le> days_before_year y" if "9999 < y"
  proof -
    have "days_before_year 10000 \<le> days_before_year (10000 + n)" for n
    proof (induction n)
      case (Suc n)
      then show ?case using days_before_year_step [of "10000 + n"] by simp
    qed simp
    from this [of "y - 10000"] that show ?thesis by simp
  qed
  then show y9: "y \<le> 9999" using assms(1) b by force
  show m12: "m \<le> 12" using s by (simp add: month_lengths_def)
  have "m - 1 < 12" using s m12 by simp
  then have "month_lengths y ! (m - 1) \<le> 31"
    by (auto simp: month_lengths_def less_Suc_eq numeral_eq_Suc nth_Cons')
  with s show "k \<le> 31" by simp
  show "day_of y m k = Some d" using s b y9 m12 by (auto simp: day_of_def)
qed

section \<open>Printing\<close>

definition digit :: "nat \<Rightarrow> char" where
  "digit n = char_of (48 + n)"

fun pad :: "nat \<Rightarrow> nat \<Rightarrow> string" where
  "pad 0 n = []"
| "pad (Suc k) n = pad k (n div 10) @ [digit (n mod 10)]"

definition dt_min :: datetime where
  "dt_min = - 62135596800000000"

definition dt_max :: datetime where
  "dt_max = 253402300799999999"

definition dt_ok :: "datetime \<Rightarrow> bool" where
  "dt_ok t \<longleftrightarrow> dt_min \<le> t \<and> t \<le> dt_max"

text \<open>Microseconds since 1 January of year 1.\<close>

definition abs_us :: "datetime \<Rightarrow> nat" where
  "abs_us t = nat (t - dt_min)"

definition us_day :: nat where
  "us_day = 86400000000"

definition print_time :: "nat \<Rightarrow> string" where
  "print_time r =
     pad 2 (r div 3600000000) @ '':'' @ pad 2 (r div 60000000 mod 60) @ '':'' @
     pad 2 (r div 1000000 mod 60) @
     (if r mod 1000000 = 0 then '''' else ''.'' @ pad 6 (r mod 1000000))"

definition isoformat :: "datetime \<Rightarrow> string" where
  "isoformat t =
     (let n = abs_us t; (y, m, d) = ymd_of (n div us_day)
      in pad 4 y @ ''-'' @ pad 2 m @ ''-'' @ pad 2 d @ ''T'' @
         print_time (n mod us_day) @ ''+00:00'')"

section \<open>Reading\<close>

definition undigit :: "char \<Rightarrow> nat option" where
  "undigit c = (let n = of_char c in if 48 \<le> n \<and> n < 58 then Some (n - 48) else None)"

fun num_acc :: "nat \<Rightarrow> string \<Rightarrow> nat option" where
  "num_acc a [] = Some a"
| "num_acc a (c # cs) =
     (case undigit c of None \<Rightarrow> None | Some d \<Rightarrow> num_acc (10 * a + d) cs)"

definition num :: "string \<Rightarrow> nat option" where
  "num s = (if s = [] then None else num_acc 0 s)"

definition read_date :: "string \<Rightarrow> nat option" where
  "read_date s =
     (if length s = 10 \<and> s ! 4 = CHR ''-'' \<and> s ! 7 = CHR ''-''
      then (case (num (take 4 s), num (take 2 (drop 5 s)), num (drop 8 s)) of
              (Some y, Some m, Some d) \<Rightarrow> day_of y m d
            | _ \<Rightarrow> None)
      else None)"

text \<open>\<open>.fff\<close> or \<open>.ffffff\<close>, in microseconds.\<close>

definition read_frac :: "string \<Rightarrow> nat option" where
  "read_frac s =
     (if s = [] then Some 0
      else if hd s = CHR ''.'' \<and> length s = 4 then map_option (\<lambda>n. n * 1000) (num (tl s))
      else if hd s = CHR ''.'' \<and> length s = 7 then num (tl s)
      else None)"

fun read_hms :: "string \<Rightarrow> (nat \<times> nat \<times> nat \<times> nat) option" where
  "read_hms [a, b] = map_option (\<lambda>h. (h, 0, 0, 0)) (num [a, b])"
| "read_hms [a, b, x, c, d] =
     (if x = CHR '':''
      then (case (num [a, b], num [c, d]) of
              (Some h, Some m) \<Rightarrow> Some (h, m, 0, 0) | _ \<Rightarrow> None)
      else None)"
| "read_hms (a # b # x # c # d # y # e # f # r) =
     (if x = CHR '':'' \<and> y = CHR '':''
      then (case (num [a, b], num [c, d], num [e, f], read_frac r) of
              (Some h, Some m, Some s, Some u) \<Rightarrow> Some (h, m, s, u) | _ \<Rightarrow> None)
      else None)"
| "read_hms _ = None"

definition hms_us :: "nat \<times> nat \<times> nat \<times> nat \<Rightarrow> nat option" where
  "hms_us t = (case t of (h, m, s, u) \<Rightarrow>
     if h < 24 \<and> m < 60 \<and> s < 60 then Some (((h * 60 + m) * 60 + s) * 1000000 + u) else None)"

definition read_time :: "string \<Rightarrow> nat option" where
  "read_time s = Option.bind (read_hms s) hms_us"

definition is_sign :: "char \<Rightarrow> bool" where
  "is_sign c \<longleftrightarrow> c = CHR ''+'' \<or> c = CHR ''-''"

definition read_offset :: "string \<Rightarrow> int option" where
  "read_offset s =
     (case s of
        c # r \<Rightarrow>
          if length r \<in> {5, 8, 15}
          then map_option (\<lambda>n. if c = CHR ''-'' then - int n else int n) (read_time r) else None
      | [] \<Rightarrow> None)"

text \<open>The local time in microseconds since the epoch, and the offset of an aware datetime.\<close>

definition fromisoformat :: "string \<Rightarrow> (int \<times> int option) option" where
  "fromisoformat s =
     (let tm = drop 11 s;
          hms = takeWhile (\<lambda>c. \<not> is_sign c) tm;
          off = dropWhile (\<lambda>c. \<not> is_sign c) tm
      in case read_date (take 10 s) of
           None \<Rightarrow> None
         | Some day \<Rightarrow>
             if length s = 10 then Some (int (day * us_day) + dt_min, None)
             else (case read_time hms of
                     None \<Rightarrow> None
                   | Some us \<Rightarrow>
                       let t = int (day * us_day + us) + dt_min
                       in if off = [] then Some (t, None)
                          else map_option (\<lambda>z. (t, Some z)) (read_offset off)))"

text \<open>
  The instant of a text, as the comparison with an aware datetime sees it: \<open>ValueError\<close> from
  the parser, \<open>TypeError\<close> from comparing a naive datetime with an aware one.
\<close>

definition read_instant :: "string \<Rightarrow> datetime result" where
  "read_instant s =
     (case fromisoformat s of
        None \<Rightarrow> Inl ValueError
      | Some (t, None) \<Rightarrow> Inl TypeError
      | Some (t, Some z) \<Rightarrow> Inr (t - z))"

section \<open>Round trip\<close>

lemma length_pad [simp]: "length (pad k n) = k"
  by (induction k n rule: pad.induct) simp_all

lemma undigit_digit [simp]: "n < 10 \<Longrightarrow> undigit (digit n) = Some n"
  by (simp add: undigit_def digit_def Let_def)

lemma num_acc_append:
  "num_acc a (s @ t) = (case num_acc a s of None \<Rightarrow> None | Some b \<Rightarrow> num_acc b t)"
  by (induction a s rule: num_acc.induct) (auto split: option.splits)

lemma num_acc_pad: "n < 10 ^ k \<Longrightarrow> num_acc a (pad k n) = Some (a * 10 ^ k + n)"
proof (induction k n arbitrary: a rule: pad.induct)
  case (2 k n)
  then have "n div 10 < 10 ^ k" by (simp add: less_mult_imp_div_less mult.commute)
  with 2 show ?case by (simp add: num_acc_append algebra_simps)
qed simp

lemma num_pad [simp]: "n < 10 ^ k \<Longrightarrow> 0 < k \<Longrightarrow> num (pad k n) = Some n"
  using num_acc_pad [of n k 0] length_pad [of k n]
  by (cases "pad k n") (auto simp: num_def simp del: length_pad)

lemma not_sign_digit: "n < 10 \<Longrightarrow> \<not> is_sign (digit n)"
proof -
  assume "n < 10"
  then have "of_char (digit n) = 48 + n" by (simp add: digit_def)
  with \<open>n < 10\<close> show ?thesis by (auto simp: is_sign_def)
qed

lemma not_sign_pad: "c \<in> set (pad k n) \<Longrightarrow> \<not> is_sign c"
  by (induction k n rule: pad.induct) (auto simp: not_sign_digit)

lemma pad_2_eq: "pad 2 n = [digit (n div 10 mod 10), digit (n mod 10)]"
  by (simp add: numeral_2_eq_2)

lemma num_2: "n < 100 \<Longrightarrow> num [digit (n div 10 mod 10), digit (n mod 10)] = Some n"
  using num_pad [of n 2] by (simp add: pad_2_eq)

lemma time_split:
  fixes r :: nat
  shows "((r div 3600000000 * 60 + r div 60000000 mod 60) * 60 + r div 1000000 mod 60) * 1000000
    + r mod 1000000 = r"
proof -
  define a where "a = r div 1000000"
  define b where "b = a div 60"
  have "r div 60000000 = b" "r div 3600000000 = b div 60"
    by (simp_all add: a_def b_def div_mult2_eq [symmetric])
  moreover have "b div 60 * 60 + b mod 60 = b" "b * 60 + a mod 60 = a" "a * 1000000 + r mod 1000000 = r"
    by (simp_all add: a_def b_def)
  ultimately show ?thesis unfolding a_def [symmetric] by simp
qed

lemma read_frac_pad: "n < 1000000 \<Longrightarrow> read_frac (CHR ''.'' # pad 6 n) = Some n"
  by (simp add: read_frac_def)

lemma read_hms_pads:
  assumes "h < 100" "m < 100" "s < 100"
  shows "read_hms (pad 2 h @ CHR '':'' # pad 2 m @ CHR '':'' # pad 2 s @ r) =
    map_option (\<lambda>u. (h, m, s, u)) (read_frac r)"
  unfolding pad_2_eq using assms [THEN num_2] by (simp split: option.split)

lemma read_time_print_time:
  assumes "r < us_day"
  shows "read_time (print_time r) = Some r"
proof -
  have h: "r div 3600000000 < 24" using assms by (simp add: us_day_def less_mult_imp_div_less)
  have b: "m mod 60 < 100" for m :: nat
    using mod_less_divisor [of 60 m] by linarith
  have u: "r mod 1000000 < 1000000" by simp
  have "read_hms (print_time r) =
      Some (r div 3600000000, r div 60000000 mod 60, r div 1000000 mod 60, r mod 1000000)"
    using h b u by (simp add: print_time_def read_hms_pads read_frac_pad read_frac_def [of "[]"])
  then show ?thesis using h time_split [of r] by (simp add: read_time_def hms_us_def)
qed

lemma print_time_no_sign: "c \<in> set (print_time r) \<Longrightarrow> \<not> is_sign c"
  using not_sign_pad by (auto simp: print_time_def is_sign_def split: if_splits)

lemma abs_us_day:
  assumes "dt_ok t"
  shows "abs_us t div us_day < days_before_year 10000"
    "int (abs_us t div us_day * us_day + abs_us t mod us_day) + dt_min = t"
  using assms by (auto simp: dt_ok_def abs_us_def us_day_def dt_min_def dt_max_def
      days_before_year_def less_mult_imp_div_less)

lemma read_date_print:
  assumes "day_of y m d = Some n" "y \<le> 9999" "m \<le> 12" "d \<le> 31"
  shows "read_date (pad 4 y @ CHR ''-'' # pad 2 m @ CHR ''-'' # pad 2 d) = Some n"
  using assms by (simp add: read_date_def nth_append)

lemma read_offset_utc: "read_offset ''+00:00'' = Some 0"
  by (simp add: read_offset_def read_time_def num_def undigit_def Let_def hms_us_def)

theorem fromisoformat_isoformat:
  assumes "dt_ok t"
  shows "fromisoformat (isoformat t) = Some (t, Some 0)"
proof -
  define n where "n = abs_us t"
  obtain y m d where ymd: "ymd_of (n div us_day) = (y, m, d)" by (metis prod_cases3)
  note day = day_of_ymd_of [OF abs_us_day(1) [OF assms, folded n_def] ymd]
  define date where "date = pad 4 y @ CHR ''-'' # pad 2 m @ CHR ''-'' # pad 2 d"
  define tm where "tm = print_time (n mod us_day)"
  have iso: "isoformat t = date @ CHR ''T'' # tm @ ''+00:00''"
    by (simp add: isoformat_def Let_def n_def [symmetric] ymd date_def tm_def)
  have len: "length date = 10" by (simp add: date_def)
  have ns: "\<And>c. c \<in> set tm \<Longrightarrow> \<not> is_sign c" by (simp add: tm_def print_time_no_sign)
  have tw: "takeWhile (\<lambda>c. \<not> is_sign c) (tm @ ''+00:00'') = tm"
    "dropWhile (\<lambda>c. \<not> is_sign c) (tm @ ''+00:00'') = ''+00:00''"
    using ns by (simp_all add: takeWhile_append2 dropWhile_append2 is_sign_def)
  have "read_date date = Some (n div us_day)" using read_date_print [OF day] by (simp add: date_def)
  moreover have "read_time tm = Some (n mod us_day)"
    unfolding tm_def by (rule read_time_print_time) (simp add: us_day_def)
  ultimately show ?thesis
    using abs_us_day(2) [OF assms, folded n_def] tw
    by (simp add: fromisoformat_def iso len Let_def read_offset_utc)
qed

lemma read_instant_isoformat [simp]: "dt_ok t \<Longrightarrow> read_instant (isoformat t) = Inr t"
  by (simp add: read_instant_def fromisoformat_isoformat)

lemma isoformat_inj: "dt_ok a \<Longrightarrow> dt_ok b \<Longrightarrow> isoformat a = isoformat b \<Longrightarrow> a = b"
  using fromisoformat_isoformat by (metis option.inject prod.inject)

section \<open>Order\<close>

text \<open>
  Printed instants compare as strings the way the instants compare: the fields have fixed
  width, and where one text has a fraction and the other has none, the plus sign of the offset
  sorts before the full stop. SQL queries and the audit trail compare timestamps this way.
\<close>

lemma less_append:
  fixes a b :: string
  assumes "length a = length b"
  shows "a @ x < b @ y \<longleftrightarrow> a < b \<or> a = b \<and> x < y"
  using assms by (induction a b rule: list_induct2) auto

lemma digit_less: "m < 10 \<Longrightarrow> n < 10 \<Longrightarrow> digit m < digit n \<longleftrightarrow> m < n"
  by (simp add: less_char_def digit_def)

lemma digit_inj: "m < 10 \<Longrightarrow> n < 10 \<Longrightarrow> digit m = digit n \<longleftrightarrow> m = n"
  by (metis option.inject undigit_digit)

lemma pad_less: "m < n \<Longrightarrow> n < 10 ^ k \<Longrightarrow> pad k m < pad k n"
proof (induction k arbitrary: m n)
  case (Suc k)
  have n: "n div 10 < 10 ^ k" using Suc.prems(2) by (simp add: less_mult_imp_div_less mult.commute)
  show ?case
  proof (cases "m div 10 = n div 10")
    case True
    then have "m mod 10 < n mod 10" using Suc.prems(1)
      by (metis add_less_cancel_left div_mult_mod_eq)
    with True show ?thesis by (simp add: less_append digit_less)
  next
    case False
    then have "m div 10 < n div 10" using Suc.prems(1) by (meson div_le_mono le_neq_implies_less less_imp_le)
    with Suc.IH n show ?thesis by (simp add: less_append)
  qed
qed simp

lemma month_day_less:
  "d < d' \<Longrightarrow> d' < sum_list ls \<Longrightarrow> month_day ls d = (m, k) \<Longrightarrow> month_day ls d' = (m', k') \<Longrightarrow>
   m < m' \<or> m = m' \<and> k < k'"
proof (induction ls d arbitrary: d' m k m' k' rule: month_day.induct)
  case (2 l ls d)
  show ?case
  proof (cases "d < l")
    case True
    have "0 < fst (month_day ls x)" if "x < sum_list ls" for x
      using month_day_sum [OF that, of "fst (month_day ls x)" "snd (month_day ls x)"] by simp
    then have "\<not> d' < l \<Longrightarrow> 0 < fst (month_day ls (d' - l))" using 2(3) by simp
    with True 2 show ?thesis
      by (cases "d' < l") (auto simp: case_prod_unfold Let_def)
  next
    case False
    with 2(2) have "\<not> d' < l" by simp
    obtain p q p' q' where e: "month_day ls (d - l) = (p, q)" "month_day ls (d' - l) = (p', q')"
      by fastforce
    have "p < p' \<or> p = p' \<and> q < q'"
      by (rule 2(1) [OF False _ _ e]) (use False 2(2,3) in auto)
    with False \<open>\<not> d' < l\<close> 2(4,5) e show ?thesis by auto
  qed
qed simp

lemma days_before_year_mono: "y \<le> y' \<Longrightarrow> 1 \<le> y \<Longrightarrow> days_before_year y \<le> days_before_year y'"
proof (induction y' rule: dec_induct)
  case (step n)
  then show ?case using days_before_year_step [of n] by simp
qed simp

lemma year_of_mono: "d \<le> d' \<Longrightarrow> year_of d \<le> year_of d'"
proof (rule ccontr)
  assume d: "d \<le> d'" "\<not> year_of d \<le> year_of d'"
  then have "days_before_year (Suc (year_of d')) \<le> days_before_year (year_of d)"
    by (intro days_before_year_mono) auto
  with year_of_bounds [of d] year_of_bounds [of d'] d show False by linarith
qed

lemma ymd_less:
  assumes "d < d'" "ymd_of d = (y, m, k)" "ymd_of d' = (y', m', k')"
  shows "y < y' \<or> y = y' \<and> (m < m' \<or> m = m' \<and> k < k')"
proof -
  have y: "y = year_of d" "y' = year_of d'"
    and mk: "month_day (month_lengths y) (d - days_before_year y) = (m, k)"
      "month_day (month_lengths y') (d' - days_before_year y') = (m', k')"
    using assms(2,3) by (auto simp: ymd_of_def Let_def split: prod.splits)
  show ?thesis
  proof (cases "y = y'")
    case True
    have "d - days_before_year y < d' - days_before_year y"
      using year_of_bounds(2) [of d] y assms(1) by simp
    moreover have "d' - days_before_year y < sum_list (month_lengths y)"
      using year_of_bounds [of d'] y True days_before_year_step [of y] by (simp add: sum_month_lengths)
    ultimately show ?thesis using month_day_less mk True by blast
  next
    case False
    then show ?thesis using year_of_mono [of d d'] assms(1) y by simp
  qed
qed

lemma mixed_radix_less:
  fixes a a' b b' k :: nat
  assumes "a * k + b < a' * k + b'" "b < k" "b' < k"
  shows "a < a' \<or> a = a' \<and> b < b'"
proof (rule ccontr)
  assume n: "\<not> ?thesis"
  then have "a' \<le> a" by auto
  show False
  proof (cases "a = a'")
    case False
    with \<open>a' \<le> a\<close> have "Suc a' * k \<le> a * k" by (intro mult_le_mono1) simp
    with assms show False by simp
  qed (use n assms in simp)
qed

lemma mixed_radix_eq:
  fixes a a' b b' k :: nat
  assumes "a * k + b = a' * k + b'" "b < k" "b' < k"
  shows "a = a' \<and> b = b'"
proof -
  have "(a * k + b) div k = a" "(a' * k + b') div k = a'" using assms(2,3) by simp_all
  with assms(1) have "a = a'" by metis
  with assms(1) show ?thesis by simp
qed

lemma hms_less:
  fixes h m s u h' m' s' u' :: nat
  assumes "((h * 60 + m) * 60 + s) * 1000000 + u < ((h' * 60 + m') * 60 + s') * 1000000 + u'"
    "m < 60" "m' < 60" "s < 60" "s' < 60" "u < 1000000" "u' < 1000000"
  shows "h < h' \<or> h = h' \<and> (m < m' \<or> m = m' \<and> (s < s' \<or> s = s' \<and> u < u'))"
  using mixed_radix_less [OF assms(1,6,7)]
    mixed_radix_less [OF _ assms(4,5), of "h * 60 + m" "h' * 60 + m'"]
    mixed_radix_less [OF _ assms(2,3), of h h']
    mixed_radix_eq [OF _ assms(4,5), of "h * 60 + m" "h' * 60 + m'"]
    mixed_radix_eq [OF _ assms(2,3), of h h']
  by blast

definition hms_text :: "nat \<Rightarrow> nat \<Rightarrow> nat \<Rightarrow> nat \<Rightarrow> string" where
  "hms_text h m s u = pad 2 h @ '':'' @ pad 2 m @ '':'' @ pad 2 s @
     (if u = 0 then '''' else ''.'' @ pad 6 u) @ ''+00:00''"

lemma print_time_hms:
  "print_time r @ ''+00:00'' =
     hms_text (r div 3600000000) (r div 60000000 mod 60) (r div 1000000 mod 60) (r mod 1000000)"
  by (simp add: print_time_def hms_text_def)

lemma hms_text_less:
  assumes "h < h' \<or> h = h' \<and> (m < m' \<or> m = m' \<and> (s < s' \<or> s = s' \<and> u < u'))"
    "h' < 100" "m' < 100" "s' < 100" "u' < 1000000"
  shows "hms_text h m s u < hms_text h' m' s' u'"
proof -
  have p: "x < y \<Longrightarrow> y < 100 \<Longrightarrow> pad 2 x < pad 2 y" for x y using pad_less [of x y 2] by simp
  from assms(1) show ?thesis
  proof (elim disjE conjE)
    assume e: "h = h'" "m = m'" "s = s'" "u < u'"
    then have "pad 6 u < pad 6 u'" using pad_less [of u u' 6] assms(5) by simp
    with e show ?thesis by (simp add: hms_text_def less_append less_char_def)
  qed (use assms(2-4) in \<open>simp_all add: hms_text_def less_append p\<close>)
qed

lemma print_time_less:
  assumes "r < r'" "r' < us_day"
  shows "print_time r @ ''+00:00'' < print_time r' @ ''+00:00''"
proof -
  let ?h = "\<lambda>r :: nat. r div 3600000000" and ?m = "\<lambda>r :: nat. r div 60000000 mod 60"
  let ?s = "\<lambda>r :: nat. r div 1000000 mod 60" and ?u = "\<lambda>r :: nat. r mod 1000000"
  have c: "?m x < 60" "?s x < 60" "?u x < 1000000" for x by simp_all
  have "((?h r * 60 + ?m r) * 60 + ?s r) * 1000000 + ?u r < ((?h r' * 60 + ?m r') * 60 + ?s r') * 1000000 + ?u r'"
    unfolding time_split by (rule assms(1))
  note hms = hms_less [OF this c(1) c(1) c(2) c(2) c(3) c(3)]
  have "?h r' < 100" using assms by (simp add: us_day_def less_mult_imp_div_less)
  moreover have "?m r' < 100" "?s r' < 100"
    using less_trans [OF c(1), of 100 r'] less_trans [OF c(2), of 100 r'] by simp_all
  ultimately show ?thesis
    unfolding print_time_hms by (intro hms_text_less [OF hms]) simp_all
qed

lemma isoformat_less:
  assumes "a < b" "dt_ok a" "dt_ok b"
  shows "isoformat a < isoformat b"
proof -
  define m n where "m = abs_us a" and "n = abs_us b"
  have mn: "m < n" using assms by (simp add: m_def n_def abs_us_def dt_ok_def)
  obtain y mo d where ymd: "ymd_of (m div us_day) = (y, mo, d)" by (metis prod_cases3)
  obtain y' mo' d' where ymd': "ymd_of (n div us_day) = (y', mo', d')" by (metis prod_cases3)
  note bound = day_of_ymd_of [OF abs_us_day(1) [OF assms(3), folded n_def] ymd']
  show ?thesis
  proof (cases "m div us_day = n div us_day")
    case True
    then have "m mod us_day < n mod us_day" using mn by (metis add_less_cancel_left div_mult_mod_eq)
    then have "print_time (m mod us_day) @ ''+00:00'' < print_time (n mod us_day) @ ''+00:00''"
      by (rule print_time_less) (simp add: us_day_def)
    with True ymd ymd' show ?thesis
      by (simp add: isoformat_def Let_def m_def [symmetric] n_def [symmetric] less_append)
  next
    case False
    then have "m div us_day < n div us_day" using mn by (meson div_le_mono le_neq_implies_less less_imp_le)
    from ymd_less [OF this ymd ymd'] bound(2-4) pad_less [of y y' 4] pad_less [of mo mo' 2] pad_less [of d d' 2]
    show ?thesis
      by (auto simp: isoformat_def Let_def m_def [symmetric] n_def [symmetric] ymd ymd' less_append)
  qed
qed

lemma isoformat_less_iff:
  "dt_ok a \<Longrightarrow> dt_ok b \<Longrightarrow> isoformat a < isoformat b \<longleftrightarrow> a < b"
  by (metis isoformat_less less_asym linorder_neqE_linordered_idom order_less_irrefl)

lemma isoformat_le_iff:
  "dt_ok a \<Longrightarrow> dt_ok b \<Longrightarrow> isoformat a \<le> isoformat b \<longleftrightarrow> a \<le> b"
  by (meson isoformat_less_iff linorder_not_less)

section \<open>The suffix Z\<close>

text \<open>\<open>s.replace('Z', '+00:00')\<close>, which the code applies before parsing.\<close>

definition replace_Z :: "string \<Rightarrow> string" where
  "replace_Z s = concat (map (\<lambda>c. if c = CHR ''Z'' then ''+00:00'' else [c]) s)"

lemma replace_Z_id: "CHR ''Z'' \<notin> set s \<Longrightarrow> replace_Z s = s"
  by (induction s) (auto simp: replace_Z_def)

end
