(* ===== verification/Crypto.thy ===== *)
theory Crypto
  imports Sha256 Datetime
begin

text \<open>
  \<open>coc_framework/core/crypto_core.py\<close>. Ed25519 (\<open>nacl.signing\<close>) and AES-256-GCM
  (\<open>cryptography\<close>) are third-party packages: they are the fields of a \<open>crypto\<close> record every
  operation that reaches them takes as an argument. What the code relies on is named here as
  predicates on that record, the documented behaviour of the two packages, and theorems that
  need one of them assume it by name.
\<close>

section \<open>The cryptographic packages\<close>

type_synonym signing_key = bytes
type_synonym verify_key = bytes

text \<open>
  \<open>ed_verify\<close> holds when \<open>VerifyKey.verify\<close> returns and fails when it raises; \<open>aes_dec\<close>
  is \<open>None\<close> when \<open>AESGCM.decrypt\<close> raises \<open>InvalidTag\<close>.
\<close>

record crypto =
  ed_verify_key :: "signing_key \<Rightarrow> verify_key"
  ed_sign :: "signing_key \<Rightarrow> bytes \<Rightarrow> bytes"
  ed_verify :: "verify_key \<Rightarrow> bytes \<Rightarrow> bytes \<Rightarrow> bool"
  aes_enc :: "bytes \<Rightarrow> bytes \<Rightarrow> bytes \<Rightarrow> bytes"
  aes_dec :: "bytes \<Rightarrow> bytes \<Rightarrow> bytes \<Rightarrow> bytes option"

text \<open>A signature made with a key verifies under the key's public half.\<close>

definition sig_correct :: "crypto \<Rightarrow> bool" where
  "sig_correct C \<longleftrightarrow> (\<forall>k m. ed_verify C (ed_verify_key C k) m (ed_sign C k m))"

text \<open>A signature is not empty.\<close>

definition sig_nonempty :: "crypto \<Rightarrow> bool" where
  "sig_nonempty C \<longleftrightarrow> (\<forall>k m. ed_sign C k m \<noteq> [])"

text \<open>Decrypting with the key and nonce of the encryption gives the plaintext back.\<close>

definition aes_correct :: "crypto \<Rightarrow> bool" where
  "aes_correct C \<longleftrightarrow> (\<forall>k n m. length k = 32 \<longrightarrow> aes_dec C k n (aes_enc C k n m) = Some m)"

section \<open>CryptoCore\<close>

definition generate_keypair :: "crypto \<Rightarrow> bytes \<Rightarrow> signing_key \<times> verify_key" where
  "generate_keypair C seed = (seed, ed_verify_key C seed)"

definition sign_message :: "crypto \<Rightarrow> signing_key \<Rightarrow> string \<Rightarrow> bytes" where
  "sign_message C k m = ed_sign C k (encode m)"

definition verify_signature :: "crypto \<Rightarrow> verify_key \<Rightarrow> string \<Rightarrow> bytes \<Rightarrow> bool" where
  "verify_signature C vk m sig = ed_verify C vk (encode m) sig"

definition hash_content :: "ustr \<Rightarrow> string" where
  "hash_content c = sha256 (utf8 c)"

lemma verify_sign_message:
  "sig_correct C \<Longrightarrow> generate_keypair C seed = (sk, vk) \<Longrightarrow>
   verify_signature C vk m (sign_message C sk m)"
  by (auto simp: generate_keypair_def verify_signature_def sign_message_def sig_correct_def)

lemma sign_message_nonempty: "sig_nonempty C \<Longrightarrow> sign_message C k m \<noteq> []"
  by (simp add: sig_nonempty_def sign_message_def)

lemma length_hash_content [simp]: "length (hash_content c) = 64"
  by (simp add: hash_content_def)

lemma hash_content_nonempty [simp]: "hash_content c \<noteq> []"
  by (simp add: hash_content_def)

lemma sha256_notin:
  assumes "of_char c < (48 :: nat) \<or> 57 < (of_char c :: nat) \<and> of_char c < (97 :: nat) \<or>
    102 < (of_char c :: nat)"
  shows "c \<notin> set (sha256 m)"
  using assms unfolding sha256_def by (rule bytes_hex_notin)

lemma hash_content_no_bar [simp]: "CHR ''|'' \<notin> set (hash_content c)" "CHR ''|'' \<notin> set (sha256 m)"
  by (simp_all add: hash_content_def sha256_notin)

text \<open>A concrete instance of the packages' contract, for evaluating the model.\<close>

definition toy_crypto :: crypto where
  "toy_crypto = \<lparr>
     ed_verify_key = (\<lambda>k. k),
     ed_sign = (\<lambda>k m. 0 # k @ m),
     ed_verify = (\<lambda>vk m s. s = 0 # vk @ m),
     aes_enc = (\<lambda>k n m. rev m),
     aes_dec = (\<lambda>k n c. Some (rev c))\<rparr>"

lemma toy_crypto_laws [simp]:
  "sig_correct toy_crypto" "sig_nonempty toy_crypto" "aes_correct toy_crypto"
  by (simp_all add: toy_crypto_def sig_correct_def sig_nonempty_def aes_correct_def)

end
