(* ===== verification/Json.thy ===== *)
theory Json
  imports Datetime "HOL-Library.Multiset"
begin

text \<open>
  The standard library's \<open>json\<close> as the code uses it: \<open>dumps\<close> with \<open>ensure_ascii\<close>, with the
  default or the compact separators and with or without \<open>sort_keys\<close>, and \<open>loads\<close> on the texts
  \<open>dumps\<close> writes. A string value is a list of code points; the keys of an object are the
  field names and identifiers of the code. A float is a whole number of microseconds, which
  is what the code's floats (\<open>time.time()\<close>) stand for; numbers in exponent notation or with
  more than six decimals are not read.
\<close>

datatype json =
    JNull
  | JBool bool
  | JInt int
  | JReal int
  | JStr ustr
  | JList "json list"
  | JObj "(string \<times> json) list"

abbreviation jstr :: "string \<Rightarrow> json" where
  "jstr s \<equiv> JStr (ustr_of s)"

section \<open>Printing\<close>

abbreviation dquote :: char where "dquote \<equiv> CHR 0x22"
abbreviation bslash :: char where "bslash \<equiv> CHR 0x5C"

definition hex4 :: "nat \<Rightarrow> string" where
  "hex4 n = [hexd (n div 4096 mod 16), hexd (n div 256 mod 16), hexd (n div 16 mod 16), hexd (n mod 16)]"

definition esc_unit :: "nat \<Rightarrow> string" where
  "esc_unit c =
     (if c = 34 then [bslash, dquote]
      else if c = 92 then [bslash, bslash]
      else if c = 10 then [bslash, CHR ''n'']
      else if c = 13 then [bslash, CHR ''r'']
      else if c = 9 then [bslash, CHR ''t'']
      else if c = 12 then [bslash, CHR ''f'']
      else if c = 8 then [bslash, CHR ''b'']
      else if 32 \<le> c \<and> c \<le> 126 then [char_of c]
      else [bslash, CHR ''u''] @ hex4 c)"

text \<open>The code units of a code point: a surrogate pair above the basic plane.\<close>

definition units :: "nat \<Rightarrow> nat list" where
  "units c = (if c < 65536 then [c] else [55296 + (c - 65536) div 1024, 56320 + (c - 65536) mod 1024])"

definition dump_str :: "ustr \<Rightarrow> string" where
  "dump_str s = dquote # concat (map esc_unit (concat (map units s))) @ [dquote]"

definition frac_digits :: "nat \<Rightarrow> string" where
  "frac_digits n = (let d = rev (dropWhile ((=) CHR ''0'') (rev (pad 6 n))) in if d = [] then ''0'' else d)"

definition dump_real :: "int \<Rightarrow> string" where
  "dump_real us = (if us < 0 then ''-'' else '''') @ dec (nat \<bar>us\<bar> div 1000000) @ ''.'' @
     frac_digits (nat \<bar>us\<bar> mod 1000000)"

fun dumps_sep :: "string \<Rightarrow> string \<Rightarrow> json \<Rightarrow> string" where
  "dumps_sep c k JNull = ''null''"
| "dumps_sep c k (JBool b) = (if b then ''true'' else ''false'')"
| "dumps_sep c k (JInt i) = str_int i"
| "dumps_sep c k (JReal r) = dump_real r"
| "dumps_sep c k (JStr s) = dump_str s"
| "dumps_sep c k (JList xs) = ''['' @ join c (map (dumps_sep c k) xs) @ '']''"
| "dumps_sep c k (JObj ms) =
     ''{'' @ join c (map (\<lambda>(m, v). dump_str (ustr_of m) @ k @ dumps_sep c k v) ms) @ ''}''"

abbreviation dumps :: "json \<Rightarrow> string" where
  "dumps \<equiv> dumps_sep '', '' '': ''"

abbreviation dumps_compact :: "json \<Rightarrow> string" where
  "dumps_compact \<equiv> dumps_sep '','' '':''"

text \<open>\<open>sort_keys=True\<close>\<close>

fun sort_keys :: "json \<Rightarrow> json" where
  "sort_keys (JList xs) = JList (map sort_keys xs)"
| "sort_keys (JObj ms) = JObj (sort_key fst (map (\<lambda>(m, v). (m, sort_keys v)) ms))"
| "sort_keys j = j"

section \<open>Reading\<close>

definition json_ws :: "char \<Rightarrow> bool" where
  "json_ws c \<longleftrightarrow> c \<in> {CHR '' '', CHR 0x09, CHR 0x0A, CHR 0x0D}"

definition skip :: "string \<Rightarrow> string" where
  "skip s = dropWhile json_ws s"

definition unhex4 :: "char \<Rightarrow> char \<Rightarrow> char \<Rightarrow> char \<Rightarrow> nat option" where
  "unhex4 a b c d =
     (case (unhexd a, unhexd b, unhexd c, unhexd d) of
        (Some w, Some x, Some y, Some z) \<Rightarrow> Some (((w * 16 + x) * 16 + y) * 16 + z)
      | _ \<Rightarrow> None)"

definition unesc :: "char \<Rightarrow> nat option" where
  "unesc e =
     (if e = dquote then Some 34 else if e = bslash then Some 92 else if e = CHR ''/'' then Some 47
      else if e = CHR ''n'' then Some 10 else if e = CHR ''r'' then Some 13
      else if e = CHR ''t'' then Some 9 else if e = CHR ''f'' then Some 12
      else if e = CHR ''b'' then Some 8 else None)"

definition cons_fst :: "'a \<Rightarrow> ('a list \<times> 'b) option \<Rightarrow> ('a list \<times> 'b) option" where
  "cons_fst x = map_option (\<lambda>(xs, r). (x # xs, r))"

text \<open>The code units of a string literal after its opening quote, and the text after it.\<close>

fun pstr :: "string \<Rightarrow> (nat list \<times> string) option" where
  "pstr [] = None"
| "pstr (c # cs) =
     (if c = dquote then Some ([], cs)
      else if c = bslash then
        (case cs of
           [] \<Rightarrow> None
         | e # r \<Rightarrow>
             if e = CHR ''u'' then
               (case r of
                  h1 # h2 # h3 # h4 # r' \<Rightarrow>
                    (case unhex4 h1 h2 h3 h4 of None \<Rightarrow> None | Some n \<Rightarrow> cons_fst n (pstr r'))
                | _ \<Rightarrow> None)
             else (case unesc e of None \<Rightarrow> None | Some n \<Rightarrow> cons_fst n (pstr r)))
      else if of_char c < (32 :: nat) then None
      else cons_fst (of_char c) (pstr cs))"

definition hi_sur :: "nat \<Rightarrow> bool" where
  "hi_sur n \<longleftrightarrow> 55296 \<le> n \<and> n < 56320"

definition lo_sur :: "nat \<Rightarrow> bool" where
  "lo_sur n \<longleftrightarrow> 56320 \<le> n \<and> n < 57344"

fun combine :: "nat list \<Rightarrow> ustr" where
  "combine (a # b # cs) =
     (if hi_sur a \<and> lo_sur b then (65536 + (a - 55296) * 1024 + (b - 56320)) # combine cs
      else a # combine (b # cs))"
| "combine cs = cs"

definition key_of :: "ustr \<Rightarrow> string option" where
  "key_of u = (if \<forall>c \<in> set u. c < 256 then Some (map char_of u) else None)"

definition isdigit :: "char \<Rightarrow> bool" where
  "isdigit c \<longleftrightarrow> undigit c \<noteq> None"

text \<open>A number: the sign is read by the caller.\<close>

definition pnum :: "bool \<Rightarrow> string \<Rightarrow> (json \<times> string) option" where
  "pnum neg s =
     (let ds = takeWhile isdigit s;
          ip = (if ds \<noteq> [] \<and> hd ds = CHR ''0'' then ''0'' else ds);
          r = drop (length ip) s;
          sg = (\<lambda>n :: nat. if neg then - int n else int n)
      in case num ip of
           None \<Rightarrow> None
         | Some n \<Rightarrow>
             if r \<noteq> [] \<and> hd r = CHR ''.'' then
               (let fs = takeWhile isdigit (tl r);
                    r' = drop (length fs) (tl r)
                in if fs = [] \<or> length fs > 6 \<or> r' \<noteq> [] \<and> hd r' \<in> {CHR ''e'', CHR ''E''} then None
                   else map_option (\<lambda>f. (JReal (sg (n * 1000000 + f)), r'))
                          (num (fs @ replicate (6 - length fs) (CHR ''0''))))
             else if r \<noteq> [] \<and> hd r \<in> {CHR ''e'', CHR ''E''} then None
             else Some (JInt (sg n), r))"

text \<open>The fuel bounds the nesting and the number of members; \<open>loads\<close> gives the text's length.\<close>

fun pval :: "nat \<Rightarrow> string \<Rightarrow> (json \<times> string) option"
and pelems :: "nat \<Rightarrow> string \<Rightarrow> (json list \<times> string) option"
and pmembers :: "nat \<Rightarrow> string \<Rightarrow> ((string \<times> json) list \<times> string) option" where
  "pval 0 s = None"
| "pval (Suc n) s =
     (case skip s of
        [] \<Rightarrow> None
      | c # cs \<Rightarrow>
          if c = dquote then map_option (\<lambda>(u, r). (JStr (combine u), r)) (pstr cs)
          else if c = CHR ''{'' then
            (if skip cs \<noteq> [] \<and> hd (skip cs) = CHR ''}'' then Some (JObj [], tl (skip cs))
             else map_option (\<lambda>(ms, r). (JObj (foldl (\<lambda>d (k, v). dict_set k v d) [] ms), r))
                    (pmembers n cs))
          else if c = CHR ''['' then
            (if skip cs \<noteq> [] \<and> hd (skip cs) = CHR '']'' then Some (JList [], tl (skip cs))
             else map_option (\<lambda>(xs, r). (JList xs, r)) (pelems n cs))
          else if c = CHR ''-'' then pnum True cs
          else if isdigit c then pnum False (c # cs)
          else if take 4 (c # cs) = ''null'' then Some (JNull, drop 3 cs)
          else if take 4 (c # cs) = ''true'' then Some (JBool True, drop 3 cs)
          else if take 5 (c # cs) = ''false'' then Some (JBool False, drop 4 cs)
          else None)"
| "pelems 0 s = None"
| "pelems (Suc n) s =
     (case pval n s of
        None \<Rightarrow> None
      | Some (v, r) \<Rightarrow>
          (case skip r of
             [] \<Rightarrow> None
           | c # cs \<Rightarrow>
               if c = CHR '']'' then Some ([v], cs)
               else if c = CHR '','' then cons_fst v (pelems n cs)
               else None))"
| "pmembers 0 s = None"
| "pmembers (Suc n) s =
     (case skip s of
        [] \<Rightarrow> None
      | q # s1 \<Rightarrow>
          if q \<noteq> dquote then None
          else (case pstr s1 of
                  None \<Rightarrow> None
                | Some (u, s2) \<Rightarrow>
                    (case (key_of (combine u), skip s2) of
                       (Some k, c # s3) \<Rightarrow>
                         if c \<noteq> CHR '':'' then None
                         else (case pval n s3 of
                                 None \<Rightarrow> None
                               | Some (v, s4) \<Rightarrow>
                                   (case skip s4 of
                                      [] \<Rightarrow> None
                                    | d # s5 \<Rightarrow>
                                        if d = CHR ''}'' then Some ([(k, v)], s5)
                                        else if d = CHR '','' then cons_fst (k, v) (pmembers n s5)
                                        else None))
                     | _ \<Rightarrow> None)))"

definition loads :: "string \<Rightarrow> json option" where
  "loads s = (case pval (Suc (length s)) s of
     Some (j, r) \<Rightarrow> (if skip r = [] then Some j else None)
   | None \<Rightarrow> None)"

section \<open>Strings\<close>

lemma unhex4_hex4:
  assumes "n < 65536"
  shows "unhex4 (hexd (n div 4096 mod 16)) (hexd (n div 256 mod 16)) (hexd (n div 16 mod 16))
    (hexd (n mod 16)) = Some n"
proof -
  define a where "a = n div 16"
  define b where "b = a div 16"
  have "n div 256 = b" "n div 4096 = b div 16"
    by (simp_all add: a_def b_def div_mult2_eq [symmetric])
  moreover have "b div 16 < 16"
    using assms by (simp add: a_def b_def div_mult2_eq [symmetric] less_mult_imp_div_less)
  moreover have "b div 16 * 16 + b mod 16 = b" "b * 16 + a mod 16 = a" "a * 16 + n mod 16 = n"
    by (simp_all add: a_def b_def)
  ultimately show ?thesis unfolding a_def [symmetric] by (simp add: unhex4_def)
qed

lemma char_of_eqD: "char_of n = c \<Longrightarrow> n < 256 \<Longrightarrow> n = of_char c" for n :: nat
  by (auto simp: of_char_of)

lemma pstr_esc_unit: "u < 65536 \<Longrightarrow> pstr (esc_unit u @ r) = cons_fst u (pstr r)"
  using unhex4_hex4 [of u] by (auto simp: esc_unit_def unesc_def hex4_def dest!: char_of_eqD)

lemma pstr_units:
  "\<forall>u \<in> set us. u < 65536 \<Longrightarrow> pstr (concat (map esc_unit us) @ dquote # r) = Some (us, r)"
  by (induction us) (simp_all add: pstr_esc_unit cons_fst_def)

lemma combine_not_hi: "\<not> hi_sur a \<Longrightarrow> combine (a # xs) = a # combine xs"
  by (cases xs) simp_all

lemma combine_units: "scalar_text s \<Longrightarrow> combine (concat (map units s)) = s"
proof (induction s)
  case (Cons c s)
  show ?case
  proof (cases "c < 65536")
    case True
    with Cons.prems have "\<not> hi_sur c" by (auto simp: scalar_text_def scalar_def hi_sur_def)
    with True Cons show ?thesis by (simp add: units_def [of c] combine_not_hi scalar_text_def)
  next
    case False
    define v where "v = c - 65536"
    with False Cons have v: "v < 1048576" "c = 65536 + v" by (auto simp: scalar_text_def scalar_def)
    then have "hi_sur (55296 + v div 1024)" "lo_sur (56320 + v mod 1024)"
      by (auto simp: hi_sur_def lo_sur_def less_mult_imp_div_less)
    with v Cons show ?thesis by (simp add: units_def scalar_text_def)
  qed
qed simp

lemma units_bound: "scalar c \<Longrightarrow> u \<in> set (units c) \<Longrightarrow> u < 65536"
  by (auto simp: units_def scalar_def less_mult_imp_div_less split: if_splits)

lemma pstr_dump_str:
  assumes "scalar_text s"
  shows "pstr (concat (map esc_unit (concat (map units s))) @ dquote # r) =
    Some (concat (map units s), r)"
  by (rule pstr_units) (use assms units_bound in \<open>fastforce simp: scalar_text_def\<close>)

lemma key_of_ustr_of [simp]: "key_of (ustr_of k) = Some k"
  by (auto simp: key_of_def ustr_of_def o_def)

section \<open>Numbers\<close>

lemma undigit_hexd [simp]: "n < 10 \<Longrightarrow> undigit (hexd n) = Some n"
  by (simp add: undigit_def hexd_def Let_def)

lemma num_acc_digits:
  "\<forall>d \<in> set ds. d < 10 \<Longrightarrow> num_acc a (map hexd ds) = Some (foldl (\<lambda>a d. a * 10 + d) a ds)"
  by (induction ds arbitrary: a) (simp_all add: mult.commute)

lemma to_digits_10: "\<forall>d \<in> set (to_digits 10 n). d < 10"
  using to_digits_bound [of 10] by auto

lemma num_dec [simp]: "num (dec n) = Some n"
  using num_acc_digits [OF to_digits_10, of 0 n] from_to_digits [of 10 n] to_digits_nonempty [of 10 n]
  by (simp add: num_def dec_def from_digits_def)

lemma dec_isdigit: "c \<in> set (dec n) \<Longrightarrow> isdigit c"
  using to_digits_10 [of n] by (auto simp: dec_def isdigit_def)

lemma hd_to_digits: "0 < n \<Longrightarrow> hd (to_digits 10 n) \<noteq> 0"
proof (induction n rule: less_induct)
  case (less n)
  show ?case
  proof (cases "n < 10")
    case False
    then have "to_digits 10 n = to_digits 10 (n div 10) @ [n mod 10]"
      by (subst to_digits.simps) simp
    with False less.IH [of "n div 10"] show ?thesis using to_digits_nonempty [of 10 "n div 10"] by simp
  qed (use less in \<open>subst to_digits.simps, simp\<close>)
qed

lemma dec_nonempty [simp]: "dec n \<noteq> []"
  by (simp add: dec_def to_digits_nonempty)

lemma hexd_0: "hexd 0 = CHR ''0''"
proof -
  have "of_char (hexd 0) = (of_char (CHR ''0'') :: nat)" by (simp add: hexd_def)
  then show ?thesis by (simp only: of_char_eq_iff)
qed

lemma hd_dec: "hd (dec n) = CHR ''0'' \<Longrightarrow> dec n = ''0''"
proof -
  assume h: "hd (dec n) = CHR ''0''"
  have "hd (to_digits 10 n) < 10" using to_digits_10 [of n] to_digits_nonempty [of 10 n] by simp
  then have "hd (to_digits 10 n) = 0" using h undigit_hexd [of "hd (to_digits 10 n)"] to_digits_nonempty [of 10 n]
    by (simp add: dec_def hd_map undigit_def Let_def)
  then have "n = 0" using hd_to_digits by blast
  then show ?thesis by (simp add: dec_def to_digits.simps hexd_0)
qed

definition delim :: "string \<Rightarrow> bool" where
  "delim r \<longleftrightarrow> r = [] \<or> \<not> isdigit (hd r) \<and> hd r \<notin> {CHR ''.'', CHR ''e'', CHR ''E''}"

lemma takeWhile_dec:
  "r = [] \<or> \<not> isdigit (hd r) \<Longrightarrow> takeWhile isdigit (dec n @ r) = dec n"
  using dec_isdigit [of _ n] by (cases r) (simp_all add: takeWhile_append2)

lemma pnum_dec:
  assumes "delim r"
  shows "pnum neg (dec n @ r) = Some (JInt (if neg then - int n else int n), r)"
proof -
  have "takeWhile isdigit (dec n @ r) = dec n" using assms by (intro takeWhile_dec) (auto simp: delim_def)
  moreover have "(if dec n \<noteq> [] \<and> hd (dec n) = CHR ''0'' then ''0'' else dec n) = dec n"
    using hd_dec [of n] by auto
  ultimately show ?thesis using assms by (auto simp: pnum_def Let_def delim_def)
qed

lemma pnum_str_int:
  assumes "delim r"
  shows "str_int i @ r \<noteq> []"
    "hd (str_int i @ r) = CHR ''-'' \<Longrightarrow> pnum True (tl (str_int i @ r)) = Some (JInt i, r)"
    "hd (str_int i @ r) \<noteq> CHR ''-'' \<Longrightarrow> isdigit (hd (str_int i @ r)) \<and> pnum False (str_int i @ r) = Some (JInt i, r)"
proof -
  have "isdigit (hd (dec n))" for n using dec_isdigit [of _ n] by simp
  moreover have "\<not> isdigit (CHR ''-'')" by (simp add: isdigit_def undigit_def Let_def)
  ultimately have h: "isdigit (hd (dec n))" "hd (dec n) \<noteq> CHR ''-''" for n by metis+
  show "str_int i @ r \<noteq> []" by (simp add: str_int_def)
  show "hd (str_int i @ r) = CHR ''-'' \<Longrightarrow> pnum True (tl (str_int i @ r)) = Some (JInt i, r)"
    using pnum_dec [OF assms] h(2) by (auto simp: str_int_def split: if_splits)
  show "hd (str_int i @ r) \<noteq> CHR ''-'' \<Longrightarrow>
    isdigit (hd (str_int i @ r)) \<and> pnum False (str_int i @ r) = Some (JInt i, r)"
    using pnum_dec [OF assms] h(1) by (auto simp: str_int_def split: if_splits)
qed

lemma pad_isdigit: "c \<in> set (pad k n) \<Longrightarrow> isdigit c"
  by (induction k n rule: pad.induct) (auto simp: isdigit_def)

lemma dropWhile_zeros: "\<exists>m. ds = replicate m z @ dropWhile ((=) z) ds"
proof -
  have "replicate (length (takeWhile ((=) z) ds)) z = takeWhile ((=) z) ds"
    by (rule replicate_length_same) (auto dest: set_takeWhileD)
  then show ?thesis by (metis takeWhile_dropWhile_id)
qed

lemma frac_digits_props:
  assumes "n < 1000000"
  shows "frac_digits n \<noteq> []" "length (frac_digits n) \<le> 6" "\<forall>c \<in> set (frac_digits n). isdigit c"
    "num (frac_digits n @ replicate (6 - length (frac_digits n)) (CHR ''0'')) = Some n"
proof -
  let ?z = "CHR ''0''"
  define d where "d = rev (dropWhile ((=) ?z) (rev (pad 6 n)))"
  from dropWhile_zeros [of "rev (pad 6 n)" ?z]
  obtain m where "rev (pad 6 n) = replicate m ?z @ rev d"
    unfolding d_def rev_rev_ident by (rule exE)
  then have "rev (rev (pad 6 n)) = rev (replicate m ?z @ rev d)" by (rule arg_cong)
  then have p: "pad 6 n = d @ replicate m ?z" by (simp only: rev_rev_ident rev_append rev_replicate)
  then have l: "length d + m = 6" by (metis length_append length_pad length_replicate)
  have z: "frac_digits n = (if d = [] then [?z] else d)" by (simp add: frac_digits_def d_def)
  then show "frac_digits n \<noteq> []" "length (frac_digits n) \<le> 6" using l by auto
  have "isdigit ?z" by (simp add: isdigit_def undigit_def Let_def)
  moreover have "\<forall>c \<in> set d. isdigit c" using pad_isdigit [of _ 6 n] p by simp
  ultimately show "\<forall>c \<in> set (frac_digits n). isdigit c" using z by auto
  have "frac_digits n @ replicate (6 - length (frac_digits n)) ?z = pad 6 n"
  proof (cases "d = []")
    case True
    then have "pad 6 n = replicate 6 ?z" using p l by simp
    moreover have "[?z] @ replicate 5 ?z = replicate 6 ?z" by (simp add: numeral_eq_Suc)
    ultimately show ?thesis using True z by simp
  next
    case False
    moreover have "6 - length d = m" using l by simp
    ultimately show ?thesis using p z by simp
  qed
  then show "num (frac_digits n @ replicate (6 - length (frac_digits n)) ?z) = Some n"
    using assms by simp
qed

lemma pnum_real:
  assumes "delim r" "f < 1000000"
  shows "pnum neg (dec n @ CHR ''.'' # frac_digits f @ r) =
    Some (JReal (if neg then - int (n * 1000000 + f) else int (n * 1000000 + f)), r)"
proof -
  note fd = frac_digits_props [OF assms(2)]
  have nd: "\<not> isdigit (CHR ''.'')" by (simp add: isdigit_def undigit_def Let_def)
  have "takeWhile isdigit (dec n @ CHR ''.'' # frac_digits f @ r) = dec n"
    using nd by (intro takeWhile_dec) simp
  moreover have "(if dec n \<noteq> [] \<and> hd (dec n) = CHR ''0'' then ''0'' else dec n) = dec n"
    using hd_dec [of n] by auto
  moreover have "takeWhile isdigit (frac_digits f @ r) = frac_digits f"
    using fd(3) assms(1) by (cases r) (auto simp: takeWhile_append2 delim_def)
  ultimately show ?thesis using assms(1) fd by (auto simp: pnum_def Let_def delim_def)
qed

section \<open>Round trip\<close>

fun jwf :: "json \<Rightarrow> bool" where
  "jwf (JStr s) = scalar_text s"
| "jwf (JList xs) = (\<forall>x \<in> set xs. jwf x)"
| "jwf (JObj ms) = (distinct (map fst ms) \<and> (\<forall>(k, v) \<in> set ms. jwf v))"
| "jwf j = True"

fun jneed :: "json \<Rightarrow> nat" where
  "jneed (JList xs) = Suc (sum_list (map (\<lambda>x. Suc (jneed x)) xs))"
| "jneed (JObj ms) = Suc (sum_list (map (\<lambda>(k, v). Suc (jneed v)) ms))"
| "jneed j = 1"

definition seps :: "string \<Rightarrow> string \<Rightarrow> bool" where
  "seps c k \<longleftrightarrow> c \<noteq> [] \<and> hd c = CHR '','' \<and> (\<forall>x \<in> set (tl c). json_ws x) \<and>
     k \<noteq> [] \<and> hd k = CHR '':'' \<and> (\<forall>x \<in> set (tl k). json_ws x)"

lemma seps_default [simp]: "seps '', '' '': ''" "seps '','' '':''"
  by (simp_all add: seps_def json_ws_def)

lemma skip_ws: "\<forall>x \<in> set w. json_ws x \<Longrightarrow> skip (w @ s) = skip s"
  by (simp add: skip_def dropWhile_append2)

lemma skip_id: "s \<noteq> [] \<Longrightarrow> \<not> json_ws (hd s) \<Longrightarrow> skip s = s"
  by (cases s) (simp_all add: skip_def)

lemma pval_ws: "\<forall>x \<in> set w. json_ws x \<Longrightarrow> pval n (w @ s) = pval n s"
  by (cases n) (simp_all add: skip_ws)

lemma pelems_ws: "\<forall>x \<in> set w. json_ws x \<Longrightarrow> pelems n (w @ s) = pelems n s"
  by (cases n) (simp_all add: pval_ws)

lemma pmembers_ws: "\<forall>x \<in> set w. json_ws x \<Longrightarrow> pmembers n (w @ s) = pmembers n s"
  by (cases n) (simp_all add: skip_ws)

lemma hd_digit_props:
  "isdigit c \<Longrightarrow> \<not> json_ws c \<and> c \<notin> {CHR '']'', CHR ''}'', dquote, CHR ''{'', CHR ''['', CHR ''-''}"
  by (auto simp: isdigit_def undigit_def Let_def json_ws_def)

lemma hd_dec_digit: "isdigit (hd (dec n))"
  using dec_isdigit [of _ n] by simp

lemma hd_dumps:
  "dumps_sep c k j \<noteq> [] \<and> \<not> json_ws (hd (dumps_sep c k j)) \<and>
   hd (dumps_sep c k j) \<notin> {CHR '']'', CHR ''}''}"
  using hd_digit_props [OF hd_dec_digit]
  by (cases j) (auto simp: json_ws_def str_int_def dump_real_def dump_str_def)

lemma pval_number:
  assumes "s \<noteq> []" "hd s = CHR ''-'' \<Longrightarrow> pnum True (tl s) = Some x"
    "hd s \<noteq> CHR ''-'' \<Longrightarrow> isdigit (hd s) \<and> pnum False s = Some x"
  shows "pval (Suc n) s = Some x"
proof -
  obtain c cs where s: "s = c # cs" using assms(1) by (cases s) auto
  have "\<not> json_ws c" using assms(3) hd_digit_props [of c] by (cases "c = CHR ''-''") (auto simp: s json_ws_def)
  then have "skip s = c # cs" by (simp add: s skip_id)
  then show ?thesis using assms(2,3) hd_digit_props [of c] by (cases "c = CHR ''-''") (auto simp: s)
qed

lemma dump_real_props:
  assumes "delim r"
  shows "dump_real i @ r \<noteq> []"
    "hd (dump_real i @ r) = CHR ''-'' \<Longrightarrow> pnum True (tl (dump_real i @ r)) = Some (JReal i, r)"
    "hd (dump_real i @ r) \<noteq> CHR ''-'' \<Longrightarrow>
      isdigit (hd (dump_real i @ r)) \<and> pnum False (dump_real i @ r) = Some (JReal i, r)"
proof -
  define n where "n = nat \<bar>i\<bar>"
  have n: "int (n div 1000000 * 1000000 + n mod 1000000) = \<bar>i\<bar>" by (simp only: div_mult_mod_eq) (simp add: n_def)
  note p = pnum_real [OF assms, of "n mod 1000000" _ "n div 1000000", simplified mod_less_divisor, unfolded n]
  note h = hd_digit_props [OF hd_dec_digit] hd_dec_digit
  show "dump_real i @ r \<noteq> []" by (simp add: dump_real_def)
  show "hd (dump_real i @ r) = CHR ''-'' \<Longrightarrow> pnum True (tl (dump_real i @ r)) = Some (JReal i, r)"
    using p [of True] h by (auto simp: dump_real_def n_def split: if_splits)
  show "hd (dump_real i @ r) \<noteq> CHR ''-'' \<Longrightarrow>
      isdigit (hd (dump_real i @ r)) \<and> pnum False (dump_real i @ r) = Some (JReal i, r)"
    using p [of False] h by (auto simp: dump_real_def n_def split: if_splits)
qed

lemma pval_str:
  assumes "scalar_text s"
  shows "pval (Suc n) (dump_str s @ r) = Some (JStr s, r)"
  using pstr_dump_str [OF assms, of r] combine_units [OF assms]
  by (simp add: dump_str_def skip_def json_ws_def)

definition parses :: "string \<Rightarrow> string \<Rightarrow> json \<Rightarrow> bool" where
  "parses c k j \<longleftrightarrow> (\<forall>n r. jneed j \<le> n \<longrightarrow> delim r \<longrightarrow> pval n (dumps_sep c k j @ r) = Some (j, r))"

lemma delim_punct: "delim (CHR '']'' # r)" "delim (CHR ''}'' # r)" "delim (CHR '','' # r)"
  by (simp_all add: delim_def isdigit_def undigit_def Let_def)

lemma not_ws_punct:
  "\<not> json_ws (CHR '']'')" "\<not> json_ws (CHR ''}'')" "\<not> json_ws (CHR '','')" "\<not> json_ws (CHR '':'')"
  "\<not> json_ws dquote" "\<not> json_ws (CHR ''{'')" "\<not> json_ws (CHR ''['')"
  by (simp_all add: json_ws_def)

lemma sepsE:
  assumes "seps c k"
  obtains w w' where "c = CHR '','' # w" "k = CHR '':'' # w'" "\<forall>x \<in> set w. json_ws x" "\<forall>x \<in> set w'. json_ws x"
  using assms by (cases c; cases k) (auto simp: seps_def)

lemma pelems_dumps:
  assumes "seps c k" "xs \<noteq> []" "\<forall>x \<in> set xs. parses c k x"
    "sum_list (map (\<lambda>x. Suc (jneed x)) xs) \<le> n"
  shows "pelems n (join c (map (dumps_sep c k) xs) @ CHR '']'' # r) = Some (xs, r)"
  using assms(2-4)
proof (induction xs arbitrary: n)
  case (Cons x xs)
  obtain w w' where c: "c = CHR '','' # w" "\<forall>x \<in> set w. json_ws x" using assms(1) by (rule sepsE)
  obtain m where n: "n = Suc m" and m: "jneed x \<le> m" "sum_list (map (\<lambda>x. Suc (jneed x)) xs) \<le> m"
    using Cons.prems(3) by (cases n) auto
  have px: "delim r' \<Longrightarrow> pval m (dumps_sep c k x @ r') = Some (x, r')" for r'
    using Cons.prems(2) m(1) by (simp add: parses_def)
  show ?case
  proof (cases xs)
    case Nil
    then show ?thesis using px [OF delim_punct(1)] by (simp add: n skip_id not_ws_punct)
  next
    case (Cons y ys)
    let ?t = "join c (map (dumps_sep c k) xs) @ CHR '']'' # r"
    have "pelems m ?t = Some (xs, r)" using Cons.IH Cons.prems(2) m(2) Cons by simp
    moreover have "join c (map (dumps_sep c k) (x # xs)) @ CHR '']'' # r =
      dumps_sep c k x @ CHR '','' # w @ ?t"
      unfolding Cons by (simp add: c(1))
    ultimately show ?thesis using px [OF delim_punct(3)] c(2)
      by (simp add: n skip_id not_ws_punct pelems_ws cons_fst_def)
  qed
qed simp

definition dump_member :: "string \<Rightarrow> string \<Rightarrow> string \<times> json \<Rightarrow> string" where
  "dump_member c k m = dump_str (ustr_of (fst m)) @ k @ dumps_sep c k (snd m)"

lemma dumps_obj:
  "dumps_sep c k (JObj ms) = CHR ''{'' # join c (map (dump_member c k) ms) @ ''}''"
  by (simp add: dump_member_def [abs_def] case_prod_unfold)

declare dumps_sep.simps(7) [simp del]

lemma pmembers_step:
  assumes "seps c k" "parses c k v" "jneed v \<le> n" "delim r"
  shows "pmembers (Suc n) (dump_member c k (m, v) @ r) =
    (case skip r of
       [] \<Rightarrow> None
     | d # s \<Rightarrow> if d = CHR ''}'' then Some ([(m, v)], s)
                else if d = CHR '','' then cons_fst (m, v) (pmembers n s) else None)"
proof -
  obtain w w' where k: "k = CHR '':'' # w'" "\<forall>x \<in> set w'. json_ws x" using assms(1) by (rule sepsE)
  let ?u = "concat (map units (ustr_of m))"
  have s: "dump_member c k (m, v) @ r =
      dquote # concat (map esc_unit ?u) @ dquote # k @ dumps_sep c k v @ r"
    by (simp add: dump_member_def dump_str_def)
  have "pval n (w' @ dumps_sep c k v @ r) = Some (v, r)"
    using assms(2-4) k(2) by (simp add: pval_ws parses_def)
  moreover have "pstr (concat (map esc_unit ?u) @ dquote # k @ dumps_sep c k v @ r) =
      Some (?u, k @ dumps_sep c k v @ r)"
    by (rule pstr_dump_str) simp
  ultimately show ?thesis unfolding s
    by (simp add: k(1) skip_id not_ws_punct combine_units cong: list.case_cong)
qed

lemma pmembers_dumps:
  assumes "seps c k" "ms \<noteq> []" "\<forall>(m, v) \<in> set ms. parses c k v"
    "sum_list (map (\<lambda>(m, v). Suc (jneed v)) ms) \<le> n"
  shows "pmembers n (join c (map (dump_member c k) ms) @ CHR ''}'' # r) = Some (ms, r)"
  using assms(2-4)
proof (induction ms arbitrary: n)
  case (Cons mv ms)
  obtain m v where mv: "mv = (m, v)" by (cases mv)
  obtain w w' where c: "c = CHR '','' # w" "\<forall>x \<in> set w. json_ws x" using assms(1) by (rule sepsE)
  obtain l where n: "n = Suc l" and l: "jneed v \<le> l" "sum_list (map (\<lambda>(m, v). Suc (jneed v)) ms) \<le> l"
    using Cons.prems(3) by (cases n) (auto simp: mv)
  have pv: "parses c k v" using Cons.prems(2) by (auto simp: mv)
  note step = pmembers_step [OF assms(1) pv l(1)]
  show ?case
  proof (cases ms)
    case Nil
    then show ?thesis using step [OF delim_punct(2)]
      by (simp add: n mv skip_id not_ws_punct del: pmembers.simps)
  next
    case (Cons y ys)
    let ?t = "join c (map (dump_member c k) ms) @ CHR ''}'' # r"
    have "pmembers l ?t = Some (ms, r)" using Cons.IH Cons.prems(2) l(2) Cons by simp
    moreover have "join c (map (dump_member c k) (mv # ms)) @ CHR ''}'' # r =
      dump_member c k (m, v) @ CHR '','' # w @ ?t"
      unfolding Cons by (simp add: c(1) mv)
    ultimately show ?thesis using step [OF delim_punct(3)] c(2)
      by (simp add: n mv skip_id not_ws_punct pmembers_ws cons_fst_def del: pmembers.simps)
  qed
qed simp

lemma dict_set_new: "k \<notin> fst ` set d \<Longrightarrow> dict_set k v d = d @ [(k, v)]"
  by (induction k v d rule: dict_set.induct) auto

lemma foldl_dict_set_distinct:
  "distinct (map fst (d @ ms)) \<Longrightarrow> foldl (\<lambda>d (k, v). dict_set k v d) d ms = d @ ms"
  by (induction ms arbitrary: d) (auto simp: dict_set_new)

lemma hd_join: "xs \<noteq> [] \<Longrightarrow> hd xs \<noteq> [] \<Longrightarrow> join c xs \<noteq> [] \<and> hd (join c xs) = hd (hd xs)"
  by (induction c xs rule: join.induct) simp_all

lemma parses_list:
  assumes "seps c k" "\<forall>x \<in> set xs. parses c k x"
  shows "parses c k (JList xs)"
  unfolding parses_def
proof (intro allI impI)
  fix n r assume n: "jneed (JList xs) \<le> n" "delim r"
  then obtain m where m: "n = Suc m" "sum_list (map (\<lambda>x. Suc (jneed x)) xs) \<le> m" by (cases n) auto
  show "pval n (dumps_sep c k (JList xs) @ r) = Some (JList xs, r)"
  proof (cases "xs = []")
    case False
    let ?s = "join c (map (dumps_sep c k) xs) @ CHR '']'' # r"
    have "join c (map (dumps_sep c k) xs) \<noteq> [] \<and>
        hd (join c (map (dumps_sep c k) xs)) = hd (dumps_sep c k (hd xs))"
      using hd_join [of "map (dumps_sep c k) xs" c] False hd_dumps [of c k "hd xs"] by (simp add: hd_map)
    then have "skip ?s = ?s" "hd ?s \<noteq> CHR '']''" using hd_dumps [of c k "hd xs"] by (auto simp: skip_id)
    moreover note pelems_dumps [OF assms(1) False assms(2) m(2), of r]
    ultimately show ?thesis by (simp add: m(1) skip_id not_ws_punct)
  qed (simp add: m(1) skip_id not_ws_punct)
qed

lemma parses_obj:
  assumes "seps c k" "distinct (map fst ms)" "\<forall>(m, v) \<in> set ms. parses c k v"
  shows "parses c k (JObj ms)"
  unfolding parses_def
proof (intro allI impI)
  fix n r assume n: "jneed (JObj ms) \<le> n" "delim r"
  then obtain l where l: "n = Suc l" "sum_list (map (\<lambda>(m, v). Suc (jneed v)) ms) \<le> l" by (cases n) auto
  show "pval n (dumps_sep c k (JObj ms) @ r) = Some (JObj ms, r)"
  proof (cases "ms = []")
    case False
    let ?s = "join c (map (dump_member c k) ms) @ CHR ''}'' # r"
    have "join c (map (dump_member c k) ms) \<noteq> [] \<and>
        hd (join c (map (dump_member c k) ms)) = dquote"
      using hd_join [of "map (dump_member c k) ms" c] False
      by (simp add: hd_map) (simp add: dump_member_def dump_str_def)
    then have "skip ?s = ?s" "hd ?s \<noteq> CHR ''}''" by (auto simp: skip_id not_ws_punct)
    moreover note pmembers_dumps [OF assms(1) False assms(3) l(2), of r]
    moreover have "foldl (\<lambda>d (k, v). dict_set k v d) [] ms = ms"
      using foldl_dict_set_distinct [of "[]" ms] assms(2) by simp
    ultimately show ?thesis by (simp add: l(1) dumps_obj skip_id not_ws_punct)
  qed (simp add: l(1) dumps_obj skip_id not_ws_punct)
qed

lemma parses_atoms:
  "parses c k JNull" "parses c k (JBool b)" "parses c k (JInt i)" "parses c k (JReal i)"
proof -
  have d: "isdigit (CHR ''n'') = False" "isdigit (CHR ''t'') = False" "isdigit (CHR ''f'') = False"
    by (simp_all add: isdigit_def undigit_def Let_def)
  show "parses c k JNull" "parses c k (JBool b)"
    by (auto simp: parses_def skip_id json_ws_def d Suc_le_eq gr0_conv_Suc)
  show "parses c k (JInt i)"
    using pval_number [OF pnum_str_int]
    by (auto simp: parses_def Suc_le_eq gr0_conv_Suc simp del: pval.simps)
  show "parses c k (JReal i)"
    using pval_number [OF dump_real_props]
    by (auto simp: parses_def Suc_le_eq gr0_conv_Suc simp del: pval.simps)
qed

lemma parses_str: "scalar_text s \<Longrightarrow> parses c k (JStr s)"
  using pval_str by (auto simp: parses_def Suc_le_eq gr0_conv_Suc simp del: pval.simps)

lemma parses_dumps: "seps c k \<Longrightarrow> jwf j \<Longrightarrow> parses c k j"
proof (induction j rule: jwf.induct)
  case (2 xs)
  then show ?case by (intro parses_list) auto
next
  case (3 ms)
  then show ?case by (intro parses_obj) auto
qed (simp_all add: parses_atoms parses_str)

lemma sum_list_mono_join:
  "xs \<noteq> [] \<Longrightarrow> c \<noteq> [] \<Longrightarrow> length xs + sum_list (map length xs) \<le> Suc (length (join c xs))"
  by (induction c xs rule: join.induct) (auto simp: neq_Nil_conv)

lemma jneed_le: "seps c k \<Longrightarrow> jneed j \<le> length (dumps_sep c k j)"
proof (induction j rule: jwf.induct)
  case (2 xs)
  have "sum_list (map (\<lambda>x. Suc (jneed x)) xs) \<le> sum_list (map (\<lambda>x. Suc (length (dumps_sep c k x))) xs)"
    using 2 by (intro sum_list_mono) auto
  moreover have "sum_list (map (\<lambda>x. Suc (length (dumps_sep c k x))) xs) =
      length xs + sum_list (map length (map (dumps_sep c k) xs))"
    by (induction xs) auto
  ultimately show ?case using sum_list_mono_join [of "map (dumps_sep c k) xs" c] 2(2)
    by (cases "xs = []") (auto simp: seps_def)
next
  case (3 ms)
  have "sum_list (map (\<lambda>(m, v). Suc (jneed v)) ms) \<le> sum_list (map (\<lambda>x. Suc (length (dump_member c k x))) ms)"
    using 3 by (intro sum_list_mono) (fastforce simp: dump_member_def)
  moreover have "sum_list (map (\<lambda>x. Suc (length (dump_member c k x))) ms) =
      length ms + sum_list (map length (map (dump_member c k) ms))"
    by (induction ms) auto
  ultimately show ?case using sum_list_mono_join [of "map (dump_member c k) ms" c] 3(2)
    by (cases "ms = []") (auto simp: seps_def dumps_obj)
qed (auto simp: dump_str_def str_int_def dump_real_def Suc_le_eq)

theorem loads_dumps:
  assumes "seps c k" "jwf j"
  shows "loads (dumps_sep c k j) = Some j"
proof -
  have "pval (Suc (length (dumps_sep c k j))) (dumps_sep c k j @ []) = Some (j, [])"
    using parses_dumps [OF assms] jneed_le [OF assms(1), of j]
    unfolding parses_def by (auto simp: delim_def simp del: pval.simps)
  then show ?thesis by (simp add: loads_def skip_def del: pval.simps)
qed

lemma dumps_inj:
  "seps c k \<Longrightarrow> jwf i \<Longrightarrow> jwf j \<Longrightarrow> dumps_sep c k i = dumps_sep c k j \<Longrightarrow> i = j"
  by (metis loads_dumps option.inject)

section \<open>Sorted keys\<close>

lemma jwf_sort_keys: "jwf j \<Longrightarrow> jwf (sort_keys j)"
proof (induction j rule: sort_keys.induct)
  case (2 ms)
  have "distinct (map fst (sort_key fst (map (\<lambda>(m, v). (m, sort_keys v)) ms)))"
  proof -
    have "mset (map fst (sort_key fst (map (\<lambda>(m, v). (m, sort_keys v)) ms))) = mset (map fst ms)"
      by (simp add: case_prod_unfold multiset.map_comp comp_def)
    with 2(2) show ?thesis by (metis jwf.simps(3) mset_eq_imp_distinct_iff)
  qed
  with 2 show ?case by (auto simp: case_prod_unfold)
qed auto

section \<open>Access to a parsed dictionary\<close>

text \<open>
  \<open>data[k]\<close>, \<open>data.get(k)\<close> and the readings of a value at the type the code gives it. A value of
  another type is outside the code's own encodings; reading it is \<open>TypeError\<close> here.
\<close>

definition jfield :: "json \<Rightarrow> string \<Rightarrow> json option" where
  "jfield d k = (case d of JObj ms \<Rightarrow> map_of ms k | _ \<Rightarrow> None)"

definition jreq :: "json \<Rightarrow> string \<Rightarrow> json result" where
  "jreq d k = (case jfield d k of None \<Rightarrow> Inl KeyError | Some j \<Rightarrow> Inr j)"

definition jdefault :: "json \<Rightarrow> string \<Rightarrow> json \<Rightarrow> json" where
  "jdefault d k v = (case jfield d k of None \<Rightarrow> v | Some j \<Rightarrow> j)"

definition as_str :: "json \<Rightarrow> string result" where
  "as_str j = (case j of
     JStr u \<Rightarrow> (case key_of u of Some s \<Rightarrow> Inr s | None \<Rightarrow> Inl TypeError) | _ \<Rightarrow> Inl TypeError)"

definition as_ustr :: "json \<Rightarrow> ustr result" where
  "as_ustr j = (case j of JStr u \<Rightarrow> Inr u | _ \<Rightarrow> Inl TypeError)"

definition as_int :: "json \<Rightarrow> int result" where
  "as_int j = (case j of JInt i \<Rightarrow> Inr i | _ \<Rightarrow> Inl TypeError)"

definition as_bool :: "json \<Rightarrow> bool result" where
  "as_bool j = (case j of JBool b \<Rightarrow> Inr b | _ \<Rightarrow> Inl TypeError)"

definition as_real :: "json \<Rightarrow> int result" where
  "as_real j = (case j of JReal i \<Rightarrow> Inr i | JInt i \<Rightarrow> Inr (seconds i) | _ \<Rightarrow> Inl TypeError)"

definition as_opt :: "(json \<Rightarrow> 'a result) \<Rightarrow> json \<Rightarrow> 'a option result" where
  "as_opt f j = (case j of JNull \<Rightarrow> Inr None | _ \<Rightarrow> bindr (f j) (\<lambda>x. Inr (Some x)))"

definition as_list :: "(json \<Rightarrow> 'a result) \<Rightarrow> json \<Rightarrow> 'a list result" where
  "as_list f j = (case j of JList xs \<Rightarrow> mapr f xs | _ \<Rightarrow> Inl TypeError)"

definition jopt :: "('a \<Rightarrow> json) \<Rightarrow> 'a option \<Rightarrow> json" where
  "jopt f x = (case x of None \<Rightarrow> JNull | Some y \<Rightarrow> f y)"

lemma as_values [simp]:
  "as_str (jstr s) = Inr s" "as_ustr (JStr u) = Inr u" "as_int (JInt i) = Inr i"
  "as_bool (JBool b) = Inr b" "as_real (JReal r) = Inr r"
  "as_opt f JNull = Inr None"
  "as_opt f (JStr u) = bindr (f (JStr u)) (\<lambda>x. Inr (Some x))"
  by (simp_all add: as_str_def as_ustr_def as_int_def as_bool_def as_real_def as_opt_def)

lemma as_opt_jopt [simp]:
  assumes "\<And>x. f (g x) = Inr x" "\<And>x. g x \<noteq> JNull"
  shows "as_opt f (jopt g x) = Inr x"
proof (cases x)
  case (Some y)
  have "as_opt f j = bindr (f j) (\<lambda>x. Inr (Some x))" if "j \<noteq> JNull" for j
    using that by (cases j) (simp_all add: as_opt_def)
  from this [OF assms(2)] Some show ?thesis by (simp add: jopt_def assms(1))
qed (simp add: jopt_def)

lemma as_list_map [simp]: "(\<And>x. f (g x) = Inr x) \<Longrightarrow> as_list f (JList (map g xs)) = Inr xs"
  by (simp add: as_list_def mapr_Inr)

lemma jfield_obj [simp]:
  "jfield (JObj ((k', v) # ms)) k = (if k = k' then Some v else jfield (JObj ms) k)"
  "jfield (JObj []) k = None"
  by (auto simp: jfield_def)

section \<open>Characters of a printed instant\<close>

lemma print_time_chars: "c \<in> set (print_time r) \<Longrightarrow> isdigit c \<or> c \<in> set ''-:T.+''"
  by (auto simp: print_time_def dest: pad_isdigit split: if_splits)

lemma isoformat_chars: "c \<in> set (isoformat t) \<Longrightarrow> isdigit c \<or> c \<in> set ''-:T.+''"
proof -
  obtain y m d where ymd: "ymd_of (abs_us t div us_day) = (y, m, d)" by (metis prod_cases3)
  have "isdigit (CHR ''0'')" by (simp add: isdigit_def undigit_def Let_def)
  then show "c \<in> set (isoformat t) \<Longrightarrow> isdigit c \<or> c \<in> set ''-:T.+''"
    using print_time_chars [of c]
    by (auto simp: isoformat_def Let_def ymd dest: pad_isdigit)
qed

lemma isoformat_no_bar [simp]: "CHR ''|'' \<notin> set (isoformat t)"
  using isoformat_chars [of "CHR ''|''" t] by (auto simp: isdigit_def undigit_def Let_def)

lemma isoformat_no_Z [simp]: "CHR ''Z'' \<notin> set (isoformat t)"
  using isoformat_chars [of "CHR ''Z''" t] by (auto simp: isdigit_def undigit_def Let_def)

lemma replace_Z_isoformat [simp]: "replace_Z (isoformat t) = isoformat t"
  by (simp add: replace_Z_id)

end
