(* ===== verification/CocNode.thy ===== *)
theory CocNode
  imports Crypto Json
begin

text \<open>
  \<open>coc_framework/core/coc_node.py\<close>: the chain-of-custody node, its signature over the
  delimited signing data (schema version 2) or the legacy concatenation (version 1), its
  dictionary form, and the walk over descendants. The set \<open>children_hashes\<close> is a
  duplicate-free list: the order is the one Python happens to iterate in. A node without a
  signing key exists in the source only inside \<open>from_dict\<close>, which sets its hash before it
  returns, so every node has a hash here.
\<close>

section \<open>The node\<close>

definition NODE_SCHEMA_VERSION :: int where
  "NODE_SCHEMA_VERSION = 2"

record coc_node =
  schema_version :: int
  content_hash :: string
  parent_hash :: "string option"
  owner_id :: string
  recipient_ids :: "string list"
  timestamp :: string
  children_hashes :: "string list"
  depth :: int
  signature :: "bytes option"
  node_hash :: string

definition SIG_DELIMITER :: string where
  "SIG_DELIMITER = ''|''"

definition or_empty :: "string option \<Rightarrow> string" where
  "or_empty s = (case s of None \<Rightarrow> [] | Some h \<Rightarrow> h)"

definition get_signing_data :: "coc_node \<Rightarrow> string" where
  "get_signing_data n =
     join SIG_DELIMITER
       [str_int (schema_version n),
        content_hash n,
        or_empty (parent_hash n),
        owner_id n,
        join '','' (recipient_ids n),
        timestamp n]"

text \<open>The constructor with a signing key; \<open>now\<close> is the reading of the clock.\<close>

definition new_node ::
  "crypto \<Rightarrow> datetime \<Rightarrow> string \<Rightarrow> string \<Rightarrow> signing_key \<Rightarrow> string list \<Rightarrow> string option \<Rightarrow> int \<Rightarrow> int
   \<Rightarrow> coc_node" where
  "new_node C now chash owner sk recipients parent d version =
     (let n = \<lparr>schema_version = version, content_hash = chash, parent_hash = parent,
               owner_id = owner, recipient_ids = sort recipients, timestamp = isoformat now,
               children_hashes = [], depth = d, signature = None, node_hash = []\<rparr>;
          sig = sign_message C sk (get_signing_data n)
      in n\<lparr>signature := Some sig,
           node_hash := hash_content (ustr_of (bytes_hex sig @ SIG_DELIMITER @ chash))\<rparr>)"

text \<open>\<open>add_child\<close> changes both objects: the parent and the child.\<close>

definition add_child :: "coc_node \<Rightarrow> coc_node \<Rightarrow> coc_node \<times> coc_node" where
  "add_child p c =
     (p\<lparr>children_hashes := List.insert (node_hash c) (children_hashes p)\<rparr>,
      c\<lparr>depth := depth p + 1\<rparr>)"

definition node_to_dict :: "coc_node \<Rightarrow> json" where
  "node_to_dict n = JObj [
     (''schema_version'', JInt (schema_version n)),
     (''node_hash'', jstr (node_hash n)),
     (''content_hash'', jstr (content_hash n)),
     (''parent_hash'', jopt jstr (parent_hash n)),
     (''owner_id'', jstr (owner_id n)),
     (''recipient_ids'', JList (map jstr (recipient_ids n))),
     (''timestamp'', jstr (timestamp n)),
     (''children_hashes'', JList (map jstr (children_hashes n))),
     (''depth'', JInt (depth n)),
     (''signature'',
       (case signature n of
          None \<Rightarrow> JNull
        | Some s \<Rightarrow> if s = [] then JNull else jstr (bytes_hex s)))]"

definition node_from_dict :: "json \<Rightarrow> coc_node result" where
  "node_from_dict d =
     bindr (as_int (jdefault d ''schema_version'' (JInt 1))) (\<lambda>version.
     bindr (bindr (jreq d ''content_hash'') as_str) (\<lambda>chash.
     bindr (bindr (jreq d ''owner_id'') as_str) (\<lambda>owner.
     bindr (as_list as_str (jdefault d ''recipient_ids'' (JList []))) (\<lambda>recipients.
     bindr (as_opt as_str (jdefault d ''parent_hash'' JNull)) (\<lambda>parent.
     bindr (as_int (jdefault d ''depth'' (JInt 0))) (\<lambda>dep.
     bindr (bindr (jreq d ''node_hash'') as_str) (\<lambda>nhash.
     bindr (as_opt as_str (jdefault d ''signature'' JNull)) (\<lambda>hexsig.
     bindr (case hexsig of
              None \<Rightarrow> Inr None
            | Some h \<Rightarrow> if h = [] then Inr None
                        else (case fromhex h of None \<Rightarrow> Inl ValueError | Some s \<Rightarrow> Inr (Some s)))
       (\<lambda>sig.
     bindr (bindr (jreq d ''timestamp'') as_str) (\<lambda>ts.
     bindr (as_list as_str (jdefault d ''children_hashes'' (JList []))) (\<lambda>children.
       Inr \<lparr>schema_version = version, content_hash = chash, parent_hash = parent,
            owner_id = owner, recipient_ids = sort recipients, timestamp = ts,
            children_hashes = remdups children, depth = dep, signature = sig,
            node_hash = nhash\<rparr>)))))))))))"

text \<open>\<open>CoCNode.verify_signature\<close>, with the legacy format of schema version 1.\<close>

definition legacy_signing_data :: "coc_node \<Rightarrow> string" where
  "legacy_signing_data n =
     content_hash n @ or_empty (parent_hash n) @ owner_id n @ join '','' (recipient_ids n) @
     timestamp n"

definition verify_node :: "crypto \<Rightarrow> verify_key \<Rightarrow> coc_node \<Rightarrow> bool" where
  "verify_node C vk n =
     (case signature n of
        None \<Rightarrow> False
      | Some s \<Rightarrow>
          s \<noteq> [] \<and>
          verify_signature C vk
            (if schema_version n \<ge> 2 then get_signing_data n else legacy_signing_data n) s)"

text \<open>
  \<open>get_all_descendants\<close>: a depth-first walk with no visited set, over the storage's
  \<open>get_node\<close>. It need not return on a cyclic store, so it is a partial function.
\<close>

partial_function (option) descendants ::
  "(string \<Rightarrow> coc_node option) \<Rightarrow> string list \<Rightarrow> coc_node list option" where
  "descendants get hs =
     (case hs of
        [] \<Rightarrow> Some []
      | h # hs' \<Rightarrow>
          (case get h of
             None \<Rightarrow> descendants get hs'
           | Some n \<Rightarrow>
               Option.bind (descendants get (children_hashes n)) (\<lambda>below.
               Option.bind (descendants get hs') (\<lambda>rest.
                 Some (n # below @ rest)))))"

definition get_all_descendants :: "(string \<Rightarrow> coc_node option) \<Rightarrow> coc_node \<Rightarrow> coc_node list option" where
  "get_all_descendants get n = descendants get (children_hashes n)"

section \<open>Well-formed nodes\<close>

definition node_ok :: "coc_node \<Rightarrow> bool" where
  "node_ok n \<longleftrightarrow> sorted (recipient_ids n) \<and> distinct (children_hashes n) \<and> signature n \<noteq> Some []"

lemma new_node_sel [node_simps]:
  "schema_version (new_node C now h o' sk rs p d v) = v"
  "content_hash (new_node C now h o' sk rs p d v) = h"
  "parent_hash (new_node C now h o' sk rs p d v) = p"
  "owner_id (new_node C now h o' sk rs p d v) = o'"
  "recipient_ids (new_node C now h o' sk rs p d v) = sort rs"
  "timestamp (new_node C now h o' sk rs p d v) = isoformat now"
  "children_hashes (new_node C now h o' sk rs p d v) = []"
  "depth (new_node C now h o' sk rs p d v) = d"
  by (simp_all add: new_node_def Let_def)

lemma new_node_signature:
  "signature (new_node C now h o' sk rs p d v) =
     Some (sign_message C sk (get_signing_data (new_node C now h o' sk rs p d v)))"
  by (simp add: new_node_def Let_def get_signing_data_def)

lemma new_node_ok: "sig_nonempty C \<Longrightarrow> node_ok (new_node C now h o' sk rs p d v)"
  by (simp add: node_ok_def node_simps new_node_signature sign_message_nonempty)

lemma add_child_ok:
  "node_ok p \<Longrightarrow> node_ok c \<Longrightarrow> add_child p c = (p', c') \<Longrightarrow> node_ok p' \<and> node_ok c'"
  by (auto simp: add_child_def node_ok_def)

lemma jwf_jopt_jstr [simp]: "jwf (jopt jstr x)"
  by (cases x) (simp_all add: jopt_def)

lemma jwf_node_to_dict [simp]: "jwf (node_to_dict n)"
  by (auto simp: node_to_dict_def split: option.splits)

lemma node_from_to_dict:
  assumes "node_ok n"
  shows "node_from_dict (node_to_dict n) = Inr n"
proof -
  have "sort (recipient_ids n) = recipient_ids n" "remdups (children_hashes n) = children_hashes n"
    using assms by (simp_all add: node_ok_def sorted_sort_id)
  moreover have "as_opt as_str (jopt jstr (parent_hash n)) = Inr (parent_hash n)" by simp
  ultimately show ?thesis using assms
    by (cases "signature n")
       (simp_all add: node_from_dict_def node_to_dict_def jdefault_def jreq_def node_ok_def)
qed

lemma node_text_round_trip:
  "node_ok n \<Longrightarrow> Option.bind (loads (dumps (node_to_dict n)))
     (\<lambda>d. case node_from_dict d of Inr m \<Rightarrow> Some m | Inl e \<Rightarrow> None) = Some n"
  by (simp add: loads_dumps node_from_to_dict)

section \<open>What a signature covers\<close>

lemma dec_no_bar [simp]: "CHR ''|'' \<notin> set (dec n)" "CHR ''-'' \<notin> set (dec n)"
  using dec_isdigit [of "CHR ''|''" n] dec_isdigit [of "CHR ''-''" n]
  by (auto simp: isdigit_def undigit_def Let_def)

lemma str_int_no_bar [simp]: "CHR ''|'' \<notin> set (str_int i)"
  by (simp add: str_int_def)

lemma dec_inj [simp]: "dec m = dec n \<longleftrightarrow> m = n"
  by (metis num_dec option.inject)

lemma dec_not_minus [simp]: "dec n \<noteq> CHR ''-'' # x" "CHR ''-'' # x \<noteq> dec n"
  by (metis dec_no_bar(2) list.set_intros(1))+

lemma str_int_inj: "str_int i = str_int j \<Longrightarrow> i = j"
  by (auto simp: str_int_def split: if_splits)

lemma join_char_inj:
  assumes "join [c] xs = join [c] ys" "\<forall>x \<in> set xs. c \<notin> set x \<and> x \<noteq> []" "\<forall>y \<in> set ys. c \<notin> set y \<and> y \<noteq> []"
  shows "xs = ys"
proof -
  have e: "join [c] zs = [] \<longleftrightarrow> zs = []" if "\<forall>z \<in> set zs. z \<noteq> []" for zs
    using that by (cases zs rule: remdups_adj.cases) auto
  show ?thesis
  proof (cases "xs = [] \<or> ys = []")
    case True
    then show ?thesis using assms e [of xs] e [of ys] by auto
  next
    case False
    then have "split [c] (join [c] xs) = xs" "split [c] (join [c] ys) = ys"
      using assms(2,3) by (auto intro!: split_join_char)
    with assms(1) show ?thesis by metis
  qed
qed

text \<open>
  The strings the signing data keeps apart: no delimiter inside a field, no comma inside a
  recipient, and no empty string where the code cannot tell it from an absent value.
\<close>

definition signable :: "coc_node \<Rightarrow> bool" where
  "signable n \<longleftrightarrow>
     (\<forall>f \<in> set (content_hash n # or_empty (parent_hash n) # owner_id n # timestamp n # recipient_ids n).
        CHR ''|'' \<notin> set f) \<and>
     (\<forall>r \<in> set (recipient_ids n). CHR '','' \<notin> set r \<and> r \<noteq> []) \<and>
     parent_hash n \<noteq> Some []"

definition signed_part :: "coc_node \<Rightarrow> int \<times> string \<times> string option \<times> string \<times> string list \<times> string" where
  "signed_part n = (schema_version n, content_hash n, parent_hash n, owner_id n, recipient_ids n, timestamp n)"

lemma split_signing_data:
  assumes "signable n"
  shows "split ''|'' (get_signing_data n) =
    [str_int (schema_version n), content_hash n, or_empty (parent_hash n), owner_id n,
     join '','' (recipient_ids n), timestamp n]"
  unfolding get_signing_data_def SIG_DELIMITER_def
  by (rule split_join_char) (use assms in \<open>auto simp: signable_def join_notin\<close>)

lemma or_empty_inj: "or_empty a = or_empty b \<Longrightarrow> a \<noteq> Some [] \<Longrightarrow> b \<noteq> Some [] \<Longrightarrow> a = b"
  by (auto simp: or_empty_def split: option.splits)

lemma signing_data_covers:
  assumes "signable a" "signable b" "get_signing_data a = get_signing_data b"
  shows "signed_part a = signed_part b"
proof -
  have "join '','' (recipient_ids a) = join '','' (recipient_ids b)"
    "or_empty (parent_hash a) = or_empty (parent_hash b)"
    "str_int (schema_version a) = str_int (schema_version b)"
    "content_hash a = content_hash b" "owner_id a = owner_id b" "timestamp a = timestamp b"
    using split_signing_data [OF assms(1)] split_signing_data [OF assms(2)] assms(3) by simp_all
  with assms(1,2) show ?thesis
    by (auto simp: signed_part_def signable_def dest: str_int_inj intro: or_empty_inj join_char_inj)
qed

lemma verify_new_node:
  assumes "sig_correct C" "sig_nonempty C" "2 \<le> v"
  shows "verify_node C (ed_verify_key C sk) (new_node C now h o' sk rs p d v)"
  using assms verify_sign_message [of C sk sk "ed_verify_key C sk"]
  by (simp add: verify_node_def new_node_signature node_simps sign_message_nonempty generate_keypair_def)

section \<open>Descendants\<close>

definition child_rel :: "(string \<Rightarrow> coc_node option) \<Rightarrow> string \<Rightarrow> string \<Rightarrow> bool" where
  "child_rel get c h \<longleftrightarrow> (\<exists>n. get h = Some n \<and> c \<in> set (children_hashes n))"

inductive below :: "(string \<Rightarrow> coc_node option) \<Rightarrow> coc_node \<Rightarrow> coc_node \<Rightarrow> bool" for get where
  below_child: "c \<in> set (children_hashes p) \<Longrightarrow> get c = Some n \<Longrightarrow> below get p n"
| below_step: "c \<in> set (children_hashes p) \<Longrightarrow> get c = Some m \<Longrightarrow> below get m n \<Longrightarrow> below get p n"

lemma descendants_Nil [simp]: "descendants get [] = Some []"
  by (simp add: descendants.simps)

lemma descendants_Cons:
  "descendants get (h # hs) =
     (case get h of
        None \<Rightarrow> descendants get hs
      | Some n \<Rightarrow>
          Option.bind (descendants get (children_hashes n)) (\<lambda>below.
          Option.bind (descendants get hs) (\<lambda>rest. Some (n # below @ rest))))"
  by (subst descendants.simps) simp

lemma descendants_induct [consumes 1, case_names nil none some]:
  assumes "descendants get hs = Some ns"
    and nil: "\<And>get. P get [] []"
    and none: "\<And>get h hs ns. get h = None \<Longrightarrow> P get hs ns \<Longrightarrow> P get (h # hs) ns"
    and some: "\<And>get h hs n a b. get h = Some n \<Longrightarrow> P get (children_hashes n) a \<Longrightarrow> P get hs b
      \<Longrightarrow> P get (h # hs) (n # a @ b)"
  shows "P get hs ns"
proof (rule descendants.raw_induct [of P, OF _ assms(1)])
  fix rec get hs ns
  assume ih: "\<And>get hs ns. rec get hs = Some ns \<Longrightarrow> P get hs ns"
    and eq: "(case hs of [] \<Rightarrow> Some []
      | h # hs' \<Rightarrow>
          case get h of None \<Rightarrow> rec get hs'
          | Some n \<Rightarrow>
              Option.bind (rec get (children_hashes n)) (\<lambda>below.
              Option.bind (rec get hs') (\<lambda>rest. Some (n # below @ rest)))) = Some ns"
  show "P get hs ns"
  proof (cases hs)
    case Nil
    with eq nil show ?thesis by simp
  next
    case (Cons h hs')
    show ?thesis
    proof (cases "get h")
      case None
      with eq Cons ih none show ?thesis by simp
    next
      case (Some n)
      with eq Cons obtain a b where "rec get (children_hashes n) = Some a" "rec get hs' = Some b" "ns = n # a @ b"
        by (auto simp: bind_eq_Some_conv)
      with Some Cons ih some show ?thesis by simp
    qed
  qed
qed

lemma descendants_acc:
  "descendants get hs = Some ns \<Longrightarrow> \<forall>h \<in> set hs. Wellfounded.accp (child_rel get) h"
proof (induction rule: descendants_induct)
  case (none get h hs ns)
  have "Wellfounded.accp (child_rel get) h"
    by (rule accp.accI) (use none in \<open>simp add: child_rel_def\<close>)
  with none show ?case by simp
next
  case (some get h hs n a b)
  have "Wellfounded.accp (child_rel get) h"
    by (rule accp.accI) (use some in \<open>auto simp: child_rel_def [of get _ h]\<close>)
  with some show ?case by simp
qed simp

lemma descendants_list:
  assumes "\<And>h n. h \<in> set hs \<Longrightarrow> get h = Some n \<Longrightarrow> \<exists>ns. descendants get (children_hashes n) = Some ns"
  shows "\<exists>ns. descendants get hs = Some ns"
  using assms
proof (induction hs)
  case (Cons h hs)
  then obtain b where "descendants get hs = Some b" by auto
  with Cons.prems [of h] show ?case by (cases "get h") (auto simp: descendants_Cons)
qed simp

lemma acc_descendants:
  assumes "\<forall>h \<in> set hs. Wellfounded.accp (child_rel get) h"
  shows "\<exists>ns. descendants get hs = Some ns"
proof -
  have "\<forall>n. get h = Some n \<longrightarrow> (\<exists>ns. descendants get (children_hashes n) = Some ns)"
    if "Wellfounded.accp (child_rel get) h" for h
    using that
  proof (induction rule: accp.induct)
    case (accI h)
    show ?case
    proof (intro allI impI, rule descendants_list)
      fix n c m assume "get h = Some n" "c \<in> set (children_hashes n)" "get c = Some m"
      then have "child_rel get c h" by (auto simp: child_rel_def)
      with accI \<open>get c = Some m\<close> show "\<exists>ns. descendants get (children_hashes m) = Some ns" by blast
    qed
  qed
  with assms show ?thesis by - (rule descendants_list, auto)
qed

lemma below_unfold:
  "below get n m \<longleftrightarrow> (\<exists>c \<in> set (children_hashes n). \<exists>q. get c = Some q \<and> (m = q \<or> below get q m))"
  by (subst below.simps) auto

lemma descendants_set:
  "descendants get hs = Some ns \<Longrightarrow>
   set ns = {n. \<exists>h \<in> set hs. \<exists>m. get h = Some m \<and> (n = m \<or> below get m n)}"
proof (induction rule: descendants_induct)
  case (some get h hs n a b)
  have "set a = {m. below get n m}" using some.IH(1) by (simp add: below_unfold [of get n])
  with some show ?case by auto
qed auto

lemma accp_irrefl: "Wellfounded.accp r x \<Longrightarrow> \<not> r x x"
  by (induction rule: accp.induct) blast

section \<open>Properties\<close>

text \<open>C1: The data a node signs determines every signed field: two nodes whose fields contain no
  delimiter have the same signing data exactly when they agree on schema version, content hash,
  parent hash, owner, recipients and timestamp, so no signed field can be changed without
  changing the bytes the signature is over.\<close>
theorem signature_covers_fields:
  assumes "signable a" "signable b"
  shows "get_signing_data a = get_signing_data b \<longleftrightarrow> signed_part a = signed_part b"
  using signing_data_covers [OF assms]
  by (auto simp: get_signing_data_def signed_part_def)

definition node_A :: coc_node where
  "node_A = new_node toy_crypto 0 ''c1'' ''alice'' [1] [''bob'', ''carol''] None 0 NODE_SCHEMA_VERSION"

definition node_B :: coc_node where
  "node_B = node_A\<lparr>owner_id := ''mallory''\<rparr>"

theorem signature_covers_fields_witness:
  "signable node_A \<and> signable node_B \<and> get_signing_data node_A \<noteq> get_signing_data node_B"
proof -
  have "signable node_A" "signable node_B"
    by (simp_all add: signable_def node_A_def node_B_def node_simps or_empty_def sort_key_def)
  moreover have "signed_part node_A \<noteq> signed_part node_B"
    by (simp add: signed_part_def node_A_def node_B_def node_simps)
  ultimately show ?thesis using signature_covers_fields [of node_A node_B] by simp
qed

text \<open>C2: A node created with a signing key still verifies under the owner's public key after it
  has been turned into a dictionary, printed as JSON, parsed and rebuilt; the rebuilt node is the
  original one.\<close>
theorem new_node_survives_transport:
  assumes "sig_correct C" "sig_nonempty C"
    and n: "n = new_node C now h owner sk rs p d NODE_SCHEMA_VERSION"
  shows "\<exists>j m. loads (dumps (node_to_dict n)) = Some j \<and> node_from_dict j = Inr m \<and> m = n \<and>
    verify_node C (ed_verify_key C sk) m"
  using verify_new_node [OF assms(1,2)] node_from_to_dict new_node_ok [OF assms(2)]
  by (simp add: n loads_dumps NODE_SCHEMA_VERSION_def)

theorem new_node_survives_transport_witness:
  "\<exists>j m. loads (dumps (node_to_dict node_A)) = Some j \<and> node_from_dict j = Inr m \<and> m = node_A \<and>
    verify_node toy_crypto (ed_verify_key toy_crypto [1]) m"
  by (rule new_node_survives_transport [OF _ _ node_A_def]) simp_all

text \<open>C3: The walk over descendants returns exactly when no chain of children below the node is
  infinite, and then lists exactly the nodes reachable through stored children; on a store with
  a cycle below the node it does not return.\<close>
theorem descendants_total_iff_acyclic:
  "(case get_all_descendants get n of
      Some ns \<Rightarrow> (\<forall>h \<in> set (children_hashes n). Wellfounded.accp (child_rel get) h) \<and>
                set ns = {m. below get n m}
    | None \<Rightarrow> \<not> (\<forall>h \<in> set (children_hashes n). Wellfounded.accp (child_rel get) h))"
proof (cases "get_all_descendants get n")
  case None
  then show ?thesis using acc_descendants [of "children_hashes n" get]
    by (auto simp: get_all_descendants_def)
next
  case (Some ns)
  then have d: "descendants get (children_hashes n) = Some ns" by (simp add: get_all_descendants_def)
  have "set ns = {m. below get n m}"
    using descendants_set [OF d] by (auto simp: below_unfold [of get n])
  with descendants_acc [OF d] Some show ?thesis by simp
qed

definition cyclic_store :: "string \<Rightarrow> coc_node option" where
  "cyclic_store h = (if h = ''x'' then Some (node_A\<lparr>children_hashes := [''x'']\<rparr>) else None)"

theorem descendants_total_iff_acyclic_witness:
  "get_all_descendants cyclic_store (node_A\<lparr>children_hashes := [''x'']\<rparr>) = None"
proof -
  have "child_rel cyclic_store ''x'' ''x''" by (simp add: child_rel_def cyclic_store_def)
  then have "\<not> Wellfounded.accp (child_rel cyclic_store) ''x''"
    using accp_irrefl by metis
  then show ?thesis
    using descendants_total_iff_acyclic [where get = cyclic_store and n = "node_A\<lparr>children_hashes := [''x'']\<rparr>"]
    by (auto split: option.splits)
qed

end
