(* ===== verification/Storage.thy ===== *)
theory Storage
  imports CocNode
begin

text \<open>
  \<open>coc_framework/interfaces/storage_backend.py\<close>: tombstones, the abstract \<open>StorageBackend\<close>
  as a locale, and its two implementations. \<open>InMemoryStorage\<close> keeps a reverse index from
  content hashes to node hashes; \<open>SQLiteStorage\<close> keeps rows whose \<open>data\<close> column is JSON text.
  Both are shown to implement the same store of nodes, contents and tombstones.
\<close>

section \<open>Tombstones\<close>

definition DEFAULT_TOMBSTONE_GRACE_SECONDS :: int where
  "DEFAULT_TOMBSTONE_GRACE_SECONDS = 300"

record tombstone =
  ts_content_hash :: string
  deleted_at :: string
  delete_after :: string
  ts_originator_id :: string
  ts_node_hash :: string

definition tombstone_expired :: "datetime \<Rightarrow> tombstone \<Rightarrow> bool" where
  "tombstone_expired now ts =
     (case read_instant (replace_Z (delete_after ts)) of
        Inl _ \<Rightarrow> True
      | Inr expiry \<Rightarrow> now > expiry)"

definition tombstone_to_dict :: "tombstone \<Rightarrow> json" where
  "tombstone_to_dict ts = JObj [
     (''content_hash'', jstr (ts_content_hash ts)),
     (''deleted_at'', jstr (deleted_at ts)),
     (''delete_after'', jstr (delete_after ts)),
     (''originator_id'', jstr (ts_originator_id ts)),
     (''node_hash'', jstr (ts_node_hash ts))]"

definition tombstone_from_dict :: "json \<Rightarrow> tombstone result" where
  "tombstone_from_dict d =
     bindr (bindr (jreq d ''content_hash'') as_str) (\<lambda>ch.
     bindr (bindr (jreq d ''deleted_at'') as_str) (\<lambda>da.
     bindr (bindr (jreq d ''delete_after'') as_str) (\<lambda>af.
     bindr (bindr (jreq d ''originator_id'') as_str) (\<lambda>oi.
     bindr (bindr (jreq d ''node_hash'') as_str) (\<lambda>nh.
       Inr \<lparr>ts_content_hash = ch, deleted_at = da, delete_after = af,
            ts_originator_id = oi, ts_node_hash = nh\<rparr>)))))"

section \<open>InMemoryStorage\<close>

record mem_store =
  mem_nodes :: "(string \<times> coc_node) list"
  mem_content :: "string \<rightharpoonup> ustr"
  mem_refs :: "string \<rightharpoonup> string set"
  mem_tombs :: "(string \<times> tombstone) list"

definition mem_empty :: mem_store where
  "mem_empty = \<lparr>mem_nodes = [], mem_content = Map.empty, mem_refs = Map.empty, mem_tombs = []\<rparr>"

text \<open>Drop a node hash from the index entry of a content hash, and the entry when it empties.\<close>

definition unref :: "string \<Rightarrow> string \<Rightarrow> (string \<rightharpoonup> string set) \<Rightarrow> (string \<rightharpoonup> string set)" where
  "unref ch nh refs =
     (case refs ch of
        None \<Rightarrow> refs
      | Some S \<Rightarrow> if S - {nh} = {} then refs(ch := None) else refs(ch \<mapsto> S - {nh}))"

definition mem_add_node :: "coc_node \<Rightarrow> mem_store \<Rightarrow> mem_store" where
  "mem_add_node n s =
     (let refs = (case map_of (mem_nodes s) (node_hash n) of
                    None \<Rightarrow> mem_refs s
                  | Some old \<Rightarrow> unref (content_hash old) (node_hash n) (mem_refs s));
          S = (case refs (content_hash n) of None \<Rightarrow> {} | Some S \<Rightarrow> S)
      in s\<lparr>mem_nodes := dict_set (node_hash n) n (mem_nodes s),
           mem_refs := refs(content_hash n \<mapsto> insert (node_hash n) S)\<rparr>)"

definition mem_get_node :: "mem_store \<Rightarrow> string \<Rightarrow> coc_node option" where
  "mem_get_node s h = map_of (mem_nodes s) h"

definition mem_remove_node :: "string \<Rightarrow> mem_store \<Rightarrow> mem_store" where
  "mem_remove_node h s =
     (case map_of (mem_nodes s) h of
        None \<Rightarrow> s
      | Some n \<Rightarrow> s\<lparr>mem_nodes := dict_del h (mem_nodes s),
                    mem_refs := unref (content_hash n) h (mem_refs s)\<rparr>)"

definition mem_get_all_nodes :: "mem_store \<Rightarrow> coc_node list" where
  "mem_get_all_nodes s = map snd (mem_nodes s)"

definition mem_add_content :: "string \<Rightarrow> ustr \<Rightarrow> mem_store \<Rightarrow> mem_store" where
  "mem_add_content h c s = s\<lparr>mem_content := (mem_content s)(h \<mapsto> c)\<rparr>"

definition mem_get_content :: "mem_store \<Rightarrow> string \<Rightarrow> ustr option" where
  "mem_get_content s h = mem_content s h"

definition mem_remove_content :: "string \<Rightarrow> mem_store \<Rightarrow> mem_store" where
  "mem_remove_content h s = s\<lparr>mem_content := (mem_content s)(h := None)\<rparr>"

definition mem_is_content_referenced :: "mem_store \<Rightarrow> string \<Rightarrow> bool" where
  "mem_is_content_referenced s h =
     (case mem_refs s h of None \<Rightarrow> False | Some S \<Rightarrow> S \<noteq> {})"

definition mem_nodes_by_content :: "mem_store \<Rightarrow> string \<Rightarrow> coc_node set" where
  "mem_nodes_by_content s h =
     (case mem_refs s h of
        None \<Rightarrow> {}
      | Some S \<Rightarrow> Option.these (map_of (mem_nodes s) ` S))"

definition mem_add_tombstone :: "tombstone \<Rightarrow> mem_store \<Rightarrow> mem_store" where
  "mem_add_tombstone t s = s\<lparr>mem_tombs := dict_set (ts_content_hash t) t (mem_tombs s)\<rparr>"

definition mem_get_tombstone :: "datetime \<Rightarrow> string \<Rightarrow> mem_store \<Rightarrow> mem_store \<times> tombstone option" where
  "mem_get_tombstone now h s =
     (case map_of (mem_tombs s) h of
        None \<Rightarrow> (s, None)
      | Some t \<Rightarrow>
          if tombstone_expired now t then (s\<lparr>mem_tombs := dict_del h (mem_tombs s)\<rparr>, None)
          else (s, Some t))"

definition mem_is_tombstoned :: "datetime \<Rightarrow> string \<Rightarrow> mem_store \<Rightarrow> mem_store \<times> bool" where
  "mem_is_tombstoned now h s =
     (let (s', t) = mem_get_tombstone now h s in (s', t \<noteq> None))"

definition mem_cleanup :: "datetime \<Rightarrow> mem_store \<Rightarrow> mem_store \<times> nat" where
  "mem_cleanup now s =
     (let expired = map fst (filter (\<lambda>(h, t). tombstone_expired now t) (mem_tombs s))
      in (s\<lparr>mem_tombs := fold dict_del expired (mem_tombs s)\<rparr>, length expired))"

definition mem_get_all_tombstones :: "datetime \<Rightarrow> mem_store \<Rightarrow> mem_store \<times> tombstone list" where
  "mem_get_all_tombstones now s =
     (let s' = fst (mem_cleanup now s) in (s', map snd (mem_tombs s')))"

section \<open>SQLiteStorage\<close>

record node_row =
  row_content_hash :: string
  row_owner_id :: string
  row_data :: string
  row_created_at :: string

record tomb_row =
  trow_data :: string
  trow_delete_after :: string

record sql_store =
  sql_nodes :: "(string \<times> node_row) list"
  sql_content :: "(string \<times> ustr \<times> string) list"
  sql_tombs :: "(string \<times> tomb_row) list"

definition sql_empty :: sql_store where
  "sql_empty = \<lparr>sql_nodes = [], sql_content = [], sql_tombs = []\<rparr>"

text \<open>\<open>INSERT OR REPLACE\<close>: a row with the same primary key is deleted, the new one appended.\<close>

definition insert_or_replace :: "'k \<Rightarrow> 'v \<Rightarrow> ('k \<times> 'v) list \<Rightarrow> ('k \<times> 'v) list" where
  "insert_or_replace k v d = dict_del k d @ [(k, v)]"

text \<open>A row's node; a \<open>data\<close> text that does not parse would raise, and is \<open>None\<close> here.\<close>

definition node_of_text :: "string \<Rightarrow> coc_node option" where
  "node_of_text t =
     (case loads t of
        None \<Rightarrow> None
      | Some d \<Rightarrow> (case node_from_dict d of Inl _ \<Rightarrow> None | Inr n \<Rightarrow> Some n))"

definition tomb_of_text :: "string \<Rightarrow> tombstone option" where
  "tomb_of_text t =
     (case loads t of
        None \<Rightarrow> None
      | Some d \<Rightarrow> (case tombstone_from_dict d of Inl _ \<Rightarrow> None | Inr n \<Rightarrow> Some n))"

definition sql_add_node :: "datetime \<Rightarrow> coc_node \<Rightarrow> sql_store \<Rightarrow> sql_store" where
  "sql_add_node now n s =
     s\<lparr>sql_nodes := insert_or_replace (node_hash n)
        \<lparr>row_content_hash = content_hash n, row_owner_id = owner_id n,
         row_data = dumps (node_to_dict n), row_created_at = isoformat now\<rparr> (sql_nodes s)\<rparr>"

definition sql_get_node :: "sql_store \<Rightarrow> string \<Rightarrow> coc_node option" where
  "sql_get_node s h =
     (case map_of (sql_nodes s) h of None \<Rightarrow> None | Some r \<Rightarrow> node_of_text (row_data r))"

definition sql_remove_node :: "string \<Rightarrow> sql_store \<Rightarrow> sql_store" where
  "sql_remove_node h s = s\<lparr>sql_nodes := dict_del h (sql_nodes s)\<rparr>"

definition sql_get_all_nodes :: "sql_store \<Rightarrow> coc_node option list" where
  "sql_get_all_nodes s = map (\<lambda>(h, r). node_of_text (row_data r)) (sql_nodes s)"

definition sql_add_content :: "datetime \<Rightarrow> string \<Rightarrow> ustr \<Rightarrow> sql_store \<Rightarrow> sql_store" where
  "sql_add_content now h c s =
     s\<lparr>sql_content := insert_or_replace h (c, isoformat now) (sql_content s)\<rparr>"

definition sql_get_content :: "sql_store \<Rightarrow> string \<Rightarrow> ustr option" where
  "sql_get_content s h = map_option fst (map_of (sql_content s) h)"

definition sql_remove_content :: "string \<Rightarrow> sql_store \<Rightarrow> sql_store" where
  "sql_remove_content h s = s\<lparr>sql_content := dict_del h (sql_content s)\<rparr>"

definition sql_is_content_referenced :: "sql_store \<Rightarrow> string \<Rightarrow> bool" where
  "sql_is_content_referenced s h = (\<exists>(k, r) \<in> set (sql_nodes s). row_content_hash r = h)"

definition sql_nodes_by_content :: "sql_store \<Rightarrow> string \<Rightarrow> coc_node option list" where
  "sql_nodes_by_content s h =
     map (\<lambda>(k, r). node_of_text (row_data r)) (filter (\<lambda>(k, r). row_content_hash r = h) (sql_nodes s))"

definition sql_nodes_by_owner :: "sql_store \<Rightarrow> string \<Rightarrow> coc_node option list" where
  "sql_nodes_by_owner s o' =
     map (\<lambda>(k, r). node_of_text (row_data r)) (filter (\<lambda>(k, r). row_owner_id r = o') (sql_nodes s))"

definition sql_add_tombstone :: "tombstone \<Rightarrow> sql_store \<Rightarrow> sql_store" where
  "sql_add_tombstone t s =
     s\<lparr>sql_tombs := insert_or_replace (ts_content_hash t)
        \<lparr>trow_data = dumps (tombstone_to_dict t), trow_delete_after = delete_after t\<rparr> (sql_tombs s)\<rparr>"

definition sql_get_tombstone :: "datetime \<Rightarrow> string \<Rightarrow> sql_store \<Rightarrow> sql_store \<times> tombstone option" where
  "sql_get_tombstone now h s =
     (case map_of (sql_tombs s) h of
        None \<Rightarrow> (s, None)
      | Some r \<Rightarrow>
          (case tomb_of_text (trow_data r) of
             None \<Rightarrow> (s, None)
           | Some t \<Rightarrow>
               if tombstone_expired now t then (s\<lparr>sql_tombs := dict_del h (sql_tombs s)\<rparr>, None)
               else (s, Some t)))"

definition sql_cleanup :: "datetime \<Rightarrow> sql_store \<Rightarrow> sql_store \<times> nat" where
  "sql_cleanup now s =
     (let t = isoformat now;
          gone = filter (\<lambda>(h, r). trow_delete_after r < t) (sql_tombs s)
      in (s\<lparr>sql_tombs := filter (\<lambda>(h, r). \<not> trow_delete_after r < t) (sql_tombs s)\<rparr>, length gone))"

definition sql_get_all_tombstones :: "datetime \<Rightarrow> sql_store \<Rightarrow> sql_store \<times> tombstone option list" where
  "sql_get_all_tombstones now s =
     (let s' = fst (sql_cleanup now s)
      in (s', map (\<lambda>(h, r). tomb_of_text (trow_data r)) (sql_tombs s')))"

section \<open>The backend interface\<close>

text \<open>The methods of \<open>StorageBackend\<close>, as the record of operations a client calls.\<close>

record 's backend =
  be_add_node :: "datetime \<Rightarrow> coc_node \<Rightarrow> 's \<Rightarrow> 's"
  be_get_node :: "'s \<Rightarrow> string \<Rightarrow> coc_node option"
  be_remove_node :: "string \<Rightarrow> 's \<Rightarrow> 's"
  be_add_content :: "datetime \<Rightarrow> string \<Rightarrow> ustr \<Rightarrow> 's \<Rightarrow> 's"
  be_get_content :: "'s \<Rightarrow> string \<Rightarrow> ustr option"
  be_remove_content :: "string \<Rightarrow> 's \<Rightarrow> 's"
  be_is_content_referenced :: "'s \<Rightarrow> string \<Rightarrow> bool"
  be_add_tombstone :: "tombstone \<Rightarrow> 's \<Rightarrow> 's"
  be_get_tombstone :: "datetime \<Rightarrow> string \<Rightarrow> 's \<Rightarrow> 's \<times> tombstone option"
  be_cleanup :: "datetime \<Rightarrow> 's \<Rightarrow> 's \<times> nat"

definition mem_backend :: "mem_store backend" where
  "mem_backend = \<lparr>
     be_add_node = (\<lambda>now. mem_add_node), be_get_node = mem_get_node,
     be_remove_node = mem_remove_node, be_add_content = (\<lambda>now. mem_add_content),
     be_get_content = mem_get_content, be_remove_content = mem_remove_content,
     be_is_content_referenced = mem_is_content_referenced, be_add_tombstone = mem_add_tombstone,
     be_get_tombstone = mem_get_tombstone, be_cleanup = mem_cleanup\<rparr>"

definition sql_backend :: "sql_store backend" where
  "sql_backend = \<lparr>
     be_add_node = sql_add_node, be_get_node = sql_get_node,
     be_remove_node = sql_remove_node, be_add_content = sql_add_content,
     be_get_content = sql_get_content, be_remove_content = sql_remove_content,
     be_is_content_referenced = sql_is_content_referenced, be_add_tombstone = sql_add_tombstone,
     be_get_tombstone = sql_get_tombstone, be_cleanup = sql_cleanup\<rparr>"

text \<open>What a backend promises: three finite maps.\<close>

record abs_store =
  a_nodes :: "string \<rightharpoonup> coc_node"
  a_content :: "string \<rightharpoonup> ustr"
  a_tombs :: "string \<rightharpoonup> tombstone"

definition abs_empty :: abs_store where
  "abs_empty = \<lparr>a_nodes = Map.empty, a_content = Map.empty, a_tombs = Map.empty\<rparr>"

definition abs_referenced :: "abs_store \<Rightarrow> string \<Rightarrow> bool" where
  "abs_referenced a ch \<longleftrightarrow> (\<exists>h n. a_nodes a h = Some n \<and> content_hash n = ch)"

definition live :: "datetime \<Rightarrow> (string \<rightharpoonup> tombstone) \<Rightarrow> string \<rightharpoonup> tombstone" where
  "live now m h = (case m h of None \<Rightarrow> None | Some t \<Rightarrow> if tombstone_expired now t then None else Some t)"

text \<open>The tombstones the deletion engine writes: their deadline is a printed instant.\<close>

definition tomb_ok :: "tombstone \<Rightarrow> bool" where
  "tomb_ok t \<longleftrightarrow> (\<exists>d. dt_ok d \<and> delete_after t = isoformat d)"

locale storage_backend =
  fixes B :: "'s backend" and inv :: "'s \<Rightarrow> bool" and abs :: "'s \<Rightarrow> abs_store" and empty :: 's
  assumes empty_law: "inv empty \<and> abs empty = abs_empty"
    and add_node_law: "inv s \<Longrightarrow> node_ok n \<Longrightarrow>
      inv (be_add_node B now n s) \<and>
      abs (be_add_node B now n s) = (abs s)\<lparr>a_nodes := (a_nodes (abs s))(node_hash n \<mapsto> n)\<rparr>"
    and get_node_law: "inv s \<Longrightarrow> be_get_node B s h = a_nodes (abs s) h"
    and keyed_law: "inv s \<Longrightarrow> a_nodes (abs s) h = Some n \<Longrightarrow> node_hash n = h"
    and remove_node_law: "inv s \<Longrightarrow>
      inv (be_remove_node B h s) \<and>
      abs (be_remove_node B h s) = (abs s)\<lparr>a_nodes := (a_nodes (abs s))(h := None)\<rparr>"
    and add_content_law: "inv s \<Longrightarrow>
      inv (be_add_content B now h c s) \<and>
      abs (be_add_content B now h c s) = (abs s)\<lparr>a_content := (a_content (abs s))(h \<mapsto> c)\<rparr>"
    and get_content_law: "inv s \<Longrightarrow> be_get_content B s h = a_content (abs s) h"
    and remove_content_law: "inv s \<Longrightarrow>
      inv (be_remove_content B h s) \<and>
      abs (be_remove_content B h s) = (abs s)\<lparr>a_content := (a_content (abs s))(h := None)\<rparr>"
    and referenced_law: "inv s \<Longrightarrow> be_is_content_referenced B s h \<longleftrightarrow> abs_referenced (abs s) h"
    and add_tombstone_law: "inv s \<Longrightarrow> tomb_ok t \<Longrightarrow>
      inv (be_add_tombstone B t s) \<and>
      abs (be_add_tombstone B t s) = (abs s)\<lparr>a_tombs := (a_tombs (abs s))(ts_content_hash t \<mapsto> t)\<rparr>"
    and get_tombstone_law: "inv s \<Longrightarrow> be_get_tombstone B now h s = (s', r) \<Longrightarrow>
      inv s' \<and> r = live now (a_tombs (abs s)) h \<and>
      abs s' = (abs s)\<lparr>a_tombs := (a_tombs (abs s))(h := live now (a_tombs (abs s)) h)\<rparr>"
    and cleanup_law: "inv s \<Longrightarrow> dt_ok now \<Longrightarrow> be_cleanup B now s = (s', k) \<Longrightarrow>
      inv s' \<and> abs s' = (abs s)\<lparr>a_tombs := live now (a_tombs (abs s))\<rparr> \<and>
      k = card (dom (a_tombs (abs s))) - card (dom (live now (a_tombs (abs s))))"

section \<open>InMemoryStorage implements the interface\<close>

definition nodes_with :: "(string \<rightharpoonup> coc_node) \<Rightarrow> string \<Rightarrow> string set" where
  "nodes_with m ch = {h. \<exists>n. m h = Some n \<and> content_hash n = ch}"

text \<open>The reverse index holds exactly the non-empty classes of nodes by content hash.\<close>

definition index_ok :: "(string \<rightharpoonup> coc_node) \<Rightarrow> (string \<rightharpoonup> string set) \<Rightarrow> bool" where
  "index_ok m refs \<longleftrightarrow>
     (\<forall>ch. refs ch = (if nodes_with m ch = {} then None else Some (nodes_with m ch)))"

definition mem_inv :: "mem_store \<Rightarrow> bool" where
  "mem_inv s \<longleftrightarrow>
     index_ok (map_of (mem_nodes s)) (mem_refs s) \<and>
     (\<forall>h n. map_of (mem_nodes s) h = Some n \<longrightarrow> node_hash n = h) \<and>
     distinct (map fst (mem_nodes s)) \<and> distinct (map fst (mem_tombs s))"

definition mem_abs :: "mem_store \<Rightarrow> abs_store" where
  "mem_abs s = \<lparr>a_nodes = map_of (mem_nodes s), a_content = mem_content s,
     a_tombs = map_of (mem_tombs s)\<rparr>"

lemma nodes_with_upd:
  "nodes_with (m(h \<mapsto> n)) ch =
     (if content_hash n = ch then insert h (nodes_with m ch) else nodes_with m ch - {h})"
  by (auto simp: nodes_with_def)

lemma nodes_with_del: "nodes_with (m(h := None)) ch = nodes_with m ch - {h}"
  by (auto simp: nodes_with_def)

lemma index_unref:
  assumes "index_ok m refs" "m h = Some n"
  shows "index_ok (m(h := None)) (unref (content_hash n) h refs)"
proof -
  have other: "h \<notin> nodes_with m ch" if "ch \<noteq> content_hash n" for ch
    using assms(2) that by (auto simp: nodes_with_def)
  have "h \<in> nodes_with m (content_hash n)" using assms(2) by (auto simp: nodes_with_def)
  with assms(1) other show ?thesis
    by (auto simp: index_ok_def unref_def nodes_with_del split: option.splits)
qed

lemma index_ref:
  assumes "index_ok m refs" "m (node_hash n) = None"
  shows "index_ok (m(node_hash n \<mapsto> n)) (refs(content_hash n \<mapsto>
    insert (node_hash n) (case refs (content_hash n) of None \<Rightarrow> {} | Some S \<Rightarrow> S)))"
proof -
  have "node_hash n \<notin> nodes_with m ch" for ch using assms(2) by (auto simp: nodes_with_def)
  with assms(1) show ?thesis by (auto simp: index_ok_def nodes_with_upd)
qed

lemma mem_add_node_inv: "mem_inv s \<Longrightarrow> mem_inv (mem_add_node n s)"
proof -
  assume inv: "mem_inv s"
  let ?m = "map_of (mem_nodes s)" and ?h = "node_hash n"
  define refs where "refs = (case ?m ?h of None \<Rightarrow> mem_refs s
    | Some old \<Rightarrow> unref (content_hash old) ?h (mem_refs s))"
  have "index_ok (?m(?h := None)) refs"
    using inv index_unref [of ?m "mem_refs s" ?h]
    by (auto simp: mem_inv_def refs_def fun_upd_idem split: option.splits)
  from index_ref [OF this, of n] show "mem_inv (mem_add_node n s)"
    using inv by (simp add: mem_inv_def mem_add_node_def Let_def refs_def distinct_dict_set)
qed

lemma in_dict_del [simp]: "(a, b) \<in> set (dict_del k d) \<longleftrightarrow> (a, b) \<in> set d \<and> a \<noteq> k"
  by (auto simp: dict_del_def)

lemma mem_remove_node_inv: "mem_inv s \<Longrightarrow> mem_inv (mem_remove_node h s)"
  using index_unref [of "map_of (mem_nodes s)" "mem_refs s" h]
  by (auto simp: mem_inv_def mem_remove_node_def distinct_dict_del split: option.splits)

lemma mem_referenced:
  "mem_inv s \<Longrightarrow> mem_is_content_referenced s ch \<longleftrightarrow> abs_referenced (mem_abs s) ch"
  by (auto simp: mem_inv_def index_ok_def mem_is_content_referenced_def abs_referenced_def mem_abs_def
      nodes_with_def)

lemma map_of_fold_dict_del: "map_of (fold dict_del ks d) h = (if h \<in> set ks then None else map_of d h)"
  by (induction ks arbitrary: d) auto

lemma distinct_fold_dict_del: "distinct (map fst d) \<Longrightarrow> distinct (map fst (fold dict_del ks d))"
  by (induction ks arbitrary: d) (auto simp: distinct_dict_del)

lemma live_map_of:
  assumes "distinct (map fst d)"
  shows "live now (map_of d) = map_of (filter (\<lambda>(h, t). \<not> tombstone_expired now t) d)"
proof
  fix h
  show "live now (map_of d) h = map_of (filter (\<lambda>(h, t). \<not> tombstone_expired now t) d) h"
    using assms
    by (induction d) (auto simp: live_def map_of_eq_None_iff intro: rev_image_eqI split: option.splits)
qed

lemma card_dom_map_of: "distinct (map fst d) \<Longrightarrow> card (dom (map_of d)) = length d"
  by (metis distinct_card dom_map_of_conv_image_fst length_map list.set_map)

lemma distinct_map_fst_filter: "distinct (map fst d) \<Longrightarrow> distinct (map fst (filter P d))"
  by (induction d) auto

lemma cleanup_count:
  assumes "distinct (map fst d)"
  shows "length (filter (\<lambda>(h, t). tombstone_expired now t) d) =
    card (dom (map_of d)) - card (dom (live now (map_of d)))"
proof -
  have "length (filter (\<lambda>(h, t). tombstone_expired now t) d) +
      length (filter (\<lambda>(h, t). \<not> tombstone_expired now t) d) = length d"
    using sum_length_filter_compl [of "\<lambda>(h, t). tombstone_expired now t" d]
    by (simp add: case_prod_unfold)
  then show ?thesis
    using assms card_dom_map_of [OF assms] card_dom_map_of [OF distinct_map_fst_filter [OF assms]]
    by (simp add: live_map_of)
qed

lemma mem_cleanup_abs:
  assumes "mem_inv s" "mem_cleanup now s = (s', k)"
  shows "mem_inv s' \<and> mem_abs s' = (mem_abs s)\<lparr>a_tombs := live now (a_tombs (mem_abs s))\<rparr> \<and>
    k = card (dom (a_tombs (mem_abs s))) - card (dom (live now (a_tombs (mem_abs s))))"
proof -
  let ?d = "mem_tombs s" and ?ex = "map fst (filter (\<lambda>(h, t). tombstone_expired now t) (mem_tombs s))"
  have d: "distinct (map fst ?d)" using assms(1) by (simp add: mem_inv_def)
  have "map_of (fold dict_del ?ex ?d) = live now (map_of ?d)"
  proof
    fix h
    have "h \<in> set ?ex \<longleftrightarrow> (\<exists>t. map_of ?d h = Some t \<and> tombstone_expired now t)"
      using d by (auto simp: image_iff)
    then show "map_of (fold dict_del ?ex ?d) h = live now (map_of ?d) h"
      by (auto simp: map_of_fold_dict_del live_def split: option.splits)
  qed
  then show ?thesis using assms cleanup_count [OF d, of now] distinct_fold_dict_del [OF d, of ?ex]
    by (auto simp: mem_cleanup_def Let_def mem_inv_def mem_abs_def)
qed

interpretation mem: storage_backend mem_backend mem_inv mem_abs mem_empty
proof
  show "mem_inv mem_empty \<and> mem_abs mem_empty = abs_empty"
    by (simp add: mem_inv_def mem_empty_def mem_abs_def abs_empty_def index_ok_def nodes_with_def)
next
  fix s now n assume "mem_inv s" "node_ok n"
  then show "mem_inv (be_add_node mem_backend now n s) \<and> mem_abs (be_add_node mem_backend now n s) =
    (mem_abs s)\<lparr>a_nodes := (a_nodes (mem_abs s))(node_hash n \<mapsto> n)\<rparr>"
    by (simp add: mem_backend_def mem_add_node_inv) (simp add: mem_add_node_def mem_abs_def Let_def)
next
  fix s h assume "mem_inv s"
  then show "mem_inv (be_remove_node mem_backend h s) \<and> mem_abs (be_remove_node mem_backend h s) =
    (mem_abs s)\<lparr>a_nodes := (a_nodes (mem_abs s))(h := None)\<rparr>"
    by (auto simp: mem_backend_def mem_remove_node_inv)
       (auto simp: mem_remove_node_def mem_abs_def fun_upd_idem split: option.splits)
next
  fix s now h s' r assume "mem_inv s" "be_get_tombstone mem_backend now h s = (s', r)"
  then show "mem_inv s' \<and> r = live now (a_tombs (mem_abs s)) h \<and> mem_abs s' =
    (mem_abs s)\<lparr>a_tombs := (a_tombs (mem_abs s))(h := live now (a_tombs (mem_abs s)) h)\<rparr>"
    by (cases "map_of (mem_tombs s) h")
       (auto simp: mem_backend_def mem_get_tombstone_def mem_inv_def mem_abs_def live_def
        distinct_dict_del fun_upd_idem simp del: map_of_eq_Some_iff split: if_splits)
next
  fix s now s' k assume "mem_inv s" "be_cleanup mem_backend now s = (s', k)"
  then show "mem_inv s' \<and> mem_abs s' = (mem_abs s)\<lparr>a_tombs := live now (a_tombs (mem_abs s))\<rparr> \<and>
    k = card (dom (a_tombs (mem_abs s))) - card (dom (live now (a_tombs (mem_abs s))))"
    using mem_cleanup_abs by (simp add: mem_backend_def)
qed (simp_all add: mem_backend_def mem_get_node_def mem_abs_def mem_add_content_def mem_inv_def
    mem_get_content_def mem_remove_content_def mem_referenced [unfolded mem_inv_def mem_abs_def]
    mem_add_tombstone_def distinct_dict_set)

section \<open>SQLiteStorage implements the interface\<close>

definition row_ok :: "string \<times> node_row \<Rightarrow> bool" where
  "row_ok kr \<longleftrightarrow> (\<exists>n. node_ok n \<and> node_hash n = fst kr \<and> row_data (snd kr) = dumps (node_to_dict n) \<and>
     row_content_hash (snd kr) = content_hash n \<and> row_owner_id (snd kr) = owner_id n)"

definition trow_ok :: "string \<times> tomb_row \<Rightarrow> bool" where
  "trow_ok kr \<longleftrightarrow> (\<exists>t. tomb_ok t \<and> ts_content_hash t = fst kr \<and>
     trow_data (snd kr) = dumps (tombstone_to_dict t) \<and> trow_delete_after (snd kr) = delete_after t)"

definition sql_inv :: "sql_store \<Rightarrow> bool" where
  "sql_inv s \<longleftrightarrow>
     distinct (map fst (sql_nodes s)) \<and> distinct (map fst (sql_tombs s)) \<and>
     (\<forall>kr \<in> set (sql_nodes s). row_ok kr) \<and> (\<forall>kr \<in> set (sql_tombs s). trow_ok kr)"

definition node_rows :: "(string \<times> node_row) list \<Rightarrow> (string \<times> coc_node) list" where
  "node_rows d = map (\<lambda>(h, r). (h, the (node_of_text (row_data r)))) d"

definition tomb_rows :: "(string \<times> tomb_row) list \<Rightarrow> (string \<times> tombstone) list" where
  "tomb_rows d = map (\<lambda>(h, r). (h, the (tomb_of_text (trow_data r)))) d"

definition sql_abs :: "sql_store \<Rightarrow> abs_store" where
  "sql_abs s = \<lparr>a_nodes = map_of (node_rows (sql_nodes s)),
     a_content = map_option fst \<circ> map_of (sql_content s),
     a_tombs = map_of (tomb_rows (sql_tombs s))\<rparr>"

lemma node_of_text_dumps [simp]: "node_ok n \<Longrightarrow> node_of_text (dumps (node_to_dict n)) = Some n"
  by (simp add: node_of_text_def loads_dumps node_from_to_dict)

lemma jwf_tombstone_to_dict [simp]: "jwf (tombstone_to_dict t)"
  by (simp add: tombstone_to_dict_def)

lemma tombstone_from_to_dict [simp]: "tombstone_from_dict (tombstone_to_dict t) = Inr t"
  by (simp add: tombstone_from_dict_def tombstone_to_dict_def jreq_def)

lemma tomb_of_text_dumps [simp]: "tomb_of_text (dumps (tombstone_to_dict t)) = Some t"
  by (simp add: tomb_of_text_def loads_dumps)

lemma map_of_insert_or_replace [simp]: "map_of (insert_or_replace k v d) = (map_of d)(k \<mapsto> v)"
  by (auto simp: insert_or_replace_def map_add_def fun_eq_iff split: option.splits)

lemma distinct_insert_or_replace:
  "distinct (map fst d) \<Longrightarrow> distinct (map fst (insert_or_replace k v d))"
  using distinct_dict_del [of d k] by (auto simp: insert_or_replace_def dict_del_def)

lemma set_dict_del: "set (dict_del k d) \<subseteq> set d"
  by (auto simp: dict_del_def)

lemma ball_insert_or_replace:
  "\<forall>x \<in> set d. P x \<Longrightarrow> P (k, v) \<Longrightarrow> x \<in> set (insert_or_replace k v d) \<Longrightarrow> P x"
  by (auto simp: insert_or_replace_def dict_del_def)

lemma rows_del [simp]:
  "node_rows (dict_del k d) = dict_del k (node_rows d)"
  "tomb_rows (dict_del k e) = dict_del k (tomb_rows e)"
  by (simp_all add: dict_del_def node_rows_def tomb_rows_def filter_map comp_def case_prod_unfold)

lemma rows_upd [simp]:
  "node_rows (insert_or_replace k r d) =
     insert_or_replace k (the (node_of_text (row_data r))) (node_rows d)"
  "tomb_rows (insert_or_replace k q e) =
     insert_or_replace k (the (tomb_of_text (trow_data q))) (tomb_rows e)"
  by (simp_all add: insert_or_replace_def flip: rows_del) (simp_all add: node_rows_def tomb_rows_def)

lemma map_of_rows:
  "map_of (node_rows d) h = map_option (\<lambda>r. the (node_of_text (row_data r))) (map_of d h)"
  "map_of (tomb_rows e) h = map_option (\<lambda>r. the (tomb_of_text (trow_data r))) (map_of e h)"
  unfolding node_rows_def tomb_rows_def by (simp_all add: map_of_map)

lemma fst_rows [simp]: "map fst (node_rows d) = map fst d" "map fst (tomb_rows e) = map fst e"
  by (simp_all add: node_rows_def tomb_rows_def case_prod_unfold comp_def)

lemma row_lookup:
  assumes "\<forall>kr \<in> set d. row_ok kr" "map_of d h = Some r"
  obtains n where "node_ok n" "node_hash n = h" "node_of_text (row_data r) = Some n"
    "row_content_hash r = content_hash n"
  using assms map_of_SomeD [OF assms(2)] by (fastforce simp: row_ok_def)

lemma sql_referenced:
  assumes "sql_inv s"
  shows "sql_is_content_referenced s ch \<longleftrightarrow> abs_referenced (sql_abs s) ch"
proof -
  have d: "distinct (map fst (sql_nodes s))" and ok: "\<forall>kr \<in> set (sql_nodes s). row_ok kr"
    using assms by (auto simp: sql_inv_def)
  have row: "row_content_hash r = content_hash (the (node_of_text (row_data r)))"
    if "map_of (sql_nodes s) h = Some r" for h r
    using ok map_of_SomeD [OF that] by (fastforce simp: row_ok_def)
  have "sql_is_content_referenced s ch \<longleftrightarrow> (\<exists>h r. map_of (sql_nodes s) h = Some r \<and> row_content_hash r = ch)"
    using d by (fastforce simp: sql_is_content_referenced_def)
  also have "\<dots> \<longleftrightarrow> abs_referenced (sql_abs s) ch"
    using row by (simp add: abs_referenced_def sql_abs_def map_of_rows) metis
  finally show ?thesis .
qed

lemma trow_lookup:
  assumes "\<forall>kr \<in> set d. trow_ok kr" "(h, r) \<in> set d"
  obtains t where "tomb_ok t" "tomb_of_text (trow_data r) = Some t" "trow_delete_after r = delete_after t"
  using assms by (fastforce simp: trow_ok_def)

lemma tombstone_expired_text:
  "tomb_ok t \<Longrightarrow> dt_ok now \<Longrightarrow> delete_after t < isoformat now \<longleftrightarrow> tombstone_expired now t"
  by (auto simp: tomb_ok_def tombstone_expired_def isoformat_less_iff)

lemma sql_cleanup_rows:
  assumes "\<forall>kr \<in> set d. trow_ok kr" "dt_ok now"
  shows "tomb_rows (filter (\<lambda>(h, r). \<not> trow_delete_after r < isoformat now) d) =
      filter (\<lambda>(h, t). \<not> tombstone_expired now t) (tomb_rows d) \<and>
    length (filter (\<lambda>(h, r). trow_delete_after r < isoformat now) d) =
      length (filter (\<lambda>(h, t). tombstone_expired now t) (tomb_rows d))"
  using assms
proof (induction d)
  case (Cons kr d)
  obtain h r where kr: "kr = (h, r)" by (cases kr)
  obtain t where "tomb_ok t" "tomb_of_text (trow_data r) = Some t" "trow_delete_after r = delete_after t"
    using trow_lookup [OF Cons.prems(1)] by (metis kr list.set_intros(1))
  then have "trow_delete_after r < isoformat now \<longleftrightarrow> tombstone_expired now (the (tomb_of_text (trow_data r)))"
    using tombstone_expired_text Cons.prems(2) by simp
  with Cons kr show ?case by (simp add: tomb_rows_def)
qed (simp add: tomb_rows_def)

lemma sql_cleanup_abs:
  assumes "sql_inv s" "dt_ok now" "sql_cleanup now s = (s', k)"
  shows "sql_inv s' \<and> sql_abs s' = (sql_abs s)\<lparr>a_tombs := live now (a_tombs (sql_abs s))\<rparr> \<and>
    k = card (dom (a_tombs (sql_abs s))) - card (dom (live now (a_tombs (sql_abs s))))"
proof -
  have d: "distinct (map fst (tomb_rows (sql_tombs s)))" and ok: "\<forall>kr \<in> set (sql_tombs s). trow_ok kr"
    using assms(1) by (auto simp: sql_inv_def)
  note r = sql_cleanup_rows [OF ok assms(2)]
  have "sql_inv s'" using assms by (auto simp: sql_cleanup_def Let_def sql_inv_def distinct_map_fst_filter)
  then show ?thesis
    using assms(3) conjunct1 [OF r] conjunct2 [OF r] cleanup_count [OF d, of now] live_map_of [OF d, of now]
    by (auto simp: sql_cleanup_def Let_def sql_abs_def)
qed

interpretation sql: storage_backend sql_backend sql_inv sql_abs sql_empty
proof
  show "sql_inv sql_empty \<and> sql_abs sql_empty = abs_empty"
    by (simp add: sql_inv_def sql_empty_def sql_abs_def abs_empty_def node_rows_def tomb_rows_def comp_def)
next
  fix s now n assume "sql_inv s" "node_ok n"
  then show "sql_inv (be_add_node sql_backend now n s) \<and> sql_abs (be_add_node sql_backend now n s) =
    (sql_abs s)\<lparr>a_nodes := (a_nodes (sql_abs s))(node_hash n \<mapsto> n)\<rparr>"
    by (auto simp: sql_backend_def sql_add_node_def sql_inv_def sql_abs_def distinct_insert_or_replace)
       (erule (1) ball_insert_or_replace [rotated 2], auto simp: row_ok_def)
next
  fix s h assume "sql_inv s"
  then show "be_get_node sql_backend s h = a_nodes (sql_abs s) h"
    by (auto simp: sql_backend_def sql_get_node_def sql_abs_def map_of_rows sql_inv_def
        elim: row_lookup split: option.splits)
next
  fix s h n assume "sql_inv s" "a_nodes (sql_abs s) h = Some n"
  then show "node_hash n = h"
    by (auto simp: sql_abs_def map_of_rows sql_inv_def elim: row_lookup)
next
  fix s h assume "sql_inv s"
  then show "sql_inv (be_remove_node sql_backend h s) \<and> sql_abs (be_remove_node sql_backend h s) =
    (sql_abs s)\<lparr>a_nodes := (a_nodes (sql_abs s))(h := None)\<rparr>"
    using set_dict_del [of h "sql_nodes s"]
    by (auto simp: sql_backend_def sql_remove_node_def sql_inv_def sql_abs_def distinct_dict_del)
next
  fix s t assume "sql_inv s" "tomb_ok t"
  then show "sql_inv (be_add_tombstone sql_backend t s) \<and> sql_abs (be_add_tombstone sql_backend t s) =
    (sql_abs s)\<lparr>a_tombs := (a_tombs (sql_abs s))(ts_content_hash t \<mapsto> t)\<rparr>"
    by (auto simp: sql_backend_def sql_add_tombstone_def sql_inv_def sql_abs_def distinct_insert_or_replace)
       (erule (1) ball_insert_or_replace [rotated 2], auto simp: trow_ok_def)
next
  fix s now h s' r assume inv: "sql_inv s" and g: "be_get_tombstone sql_backend now h s = (s', r)"
  show "sql_inv s' \<and> r = live now (a_tombs (sql_abs s)) h \<and> sql_abs s' =
    (sql_abs s)\<lparr>a_tombs := (a_tombs (sql_abs s))(h := live now (a_tombs (sql_abs s)) h)\<rparr>"
  proof (cases "map_of (sql_tombs s) h")
    case None
    with g have "s' = s" "r = None" by (auto simp: sql_backend_def sql_get_tombstone_def)
    with inv None show ?thesis by (simp add: sql_abs_def live_def map_of_rows fun_upd_idem)
  next
    case (Some q)
    have "\<forall>kr \<in> set (sql_tombs s). trow_ok kr" using inv by (simp add: sql_inv_def)
    then obtain t where t: "tomb_of_text (trow_data q) = Some t"
      using map_of_SomeD [OF Some] by (rule trow_lookup)
    then have "a_tombs (sql_abs s) h = Some t" using Some by (simp add: sql_abs_def map_of_rows)
    with inv g Some t set_dict_del [of h "sql_tombs s"] show ?thesis
      by (auto simp: sql_backend_def sql_get_tombstone_def sql_inv_def sql_abs_def live_def
          distinct_dict_del fun_upd_idem simp del: map_of_eq_Some_iff split: if_splits)
  qed
next
  fix s now s' k assume "sql_inv s" "dt_ok now" "be_cleanup sql_backend now s = (s', k)"
  then show "sql_inv s' \<and> sql_abs s' = (sql_abs s)\<lparr>a_tombs := live now (a_tombs (sql_abs s))\<rparr> \<and>
    k = card (dom (a_tombs (sql_abs s))) - card (dom (live now (a_tombs (sql_abs s))))"
    using sql_cleanup_abs by (simp add: sql_backend_def)
qed (auto simp: sql_backend_def sql_add_content_def sql_get_content_def sql_remove_content_def
    sql_inv_def sql_abs_def sql_referenced fun_eq_iff)

section \<open>Sequences of operations\<close>

datatype storage_op =
    AddNode coc_node
  | RemoveNode string
  | AddContent string ustr
  | RemoveContent string
  | AddTombstone tombstone
  | GetTombstone string
  | Cleanup

definition storage_step :: "'s backend \<Rightarrow> datetime \<times> storage_op \<Rightarrow> 's \<Rightarrow> 's" where
  "storage_step B x s = (case x of (now, op) \<Rightarrow>
     (case op of
        AddNode n \<Rightarrow> be_add_node B now n s
      | RemoveNode h \<Rightarrow> be_remove_node B h s
      | AddContent h c \<Rightarrow> be_add_content B now h c s
      | RemoveContent h \<Rightarrow> be_remove_content B h s
      | AddTombstone t \<Rightarrow> be_add_tombstone B t s
      | GetTombstone h \<Rightarrow> fst (be_get_tombstone B now h s)
      | Cleanup \<Rightarrow> fst (be_cleanup B now s)))"

definition storage_run :: "'s backend \<Rightarrow> (datetime \<times> storage_op) list \<Rightarrow> 's \<Rightarrow> 's" where
  "storage_run B ops s = fold (storage_step B) ops s"

definition abs_step :: "datetime \<times> storage_op \<Rightarrow> abs_store \<Rightarrow> abs_store" where
  "abs_step x a = (case x of (now, op) \<Rightarrow>
     (case op of
        AddNode n \<Rightarrow> a\<lparr>a_nodes := (a_nodes a)(node_hash n \<mapsto> n)\<rparr>
      | RemoveNode h \<Rightarrow> a\<lparr>a_nodes := (a_nodes a)(h := None)\<rparr>
      | AddContent h c \<Rightarrow> a\<lparr>a_content := (a_content a)(h \<mapsto> c)\<rparr>
      | RemoveContent h \<Rightarrow> a\<lparr>a_content := (a_content a)(h := None)\<rparr>
      | AddTombstone t \<Rightarrow> a\<lparr>a_tombs := (a_tombs a)(ts_content_hash t \<mapsto> t)\<rparr>
      | GetTombstone h \<Rightarrow> a\<lparr>a_tombs := (a_tombs a)(h := live now (a_tombs a) h)\<rparr>
      | Cleanup \<Rightarrow> a\<lparr>a_tombs := live now (a_tombs a)\<rparr>))"

fun op_ok :: "datetime \<times> storage_op \<Rightarrow> bool" where
  "op_ok (now, AddNode n) = node_ok n"
| "op_ok (now, AddTombstone t) = tomb_ok t"
| "op_ok (now, Cleanup) = dt_ok now"
| "op_ok _ = True"

context storage_backend
begin

lemma step_refines:
  assumes "inv s" "op_ok x"
  shows "inv (storage_step B x s) \<and> abs (storage_step B x s) = abs_step x (abs s)"
proof -
  obtain now op where x: "x = (now, op)" by (cases x)
  show ?thesis
  proof (cases op)
    case (GetTombstone h)
    then show ?thesis using get_tombstone_law [OF assms(1), of now h] x
      by (cases "be_get_tombstone B now h s") (simp add: storage_step_def abs_step_def)
  next
    case Cleanup
    then show ?thesis using cleanup_law [OF assms(1), of now] assms(2) x
      by (cases "be_cleanup B now s") (simp add: storage_step_def abs_step_def)
  qed (use assms x in \<open>simp_all add: storage_step_def abs_step_def add_node_law remove_node_law
        add_content_law remove_content_law add_tombstone_law\<close>)
qed

lemma run_refines:
  "inv s \<Longrightarrow> \<forall>x \<in> set ops. op_ok x \<Longrightarrow>
   inv (storage_run B ops s) \<and> abs (storage_run B ops s) = fold abs_step ops (abs s)"
  by (induction ops arbitrary: s) (simp_all add: storage_run_def step_refines)

lemma observations:
  assumes "inv s"
  shows "be_get_node B s h = a_nodes (abs s) h"
    "be_get_content B s h = a_content (abs s) h"
    "be_is_content_referenced B s h = abs_referenced (abs s) h"
    "snd (be_get_tombstone B now h s) = live now (a_tombs (abs s)) h"
  using assms get_node_law get_content_law referenced_law get_tombstone_law [OF assms, of now h]
  by (auto simp: prod_eq_iff)

lemma run_from_empty:
  "\<forall>x \<in> set ops. op_ok x \<Longrightarrow>
   inv (storage_run B ops empty) \<and> abs (storage_run B ops empty) = fold abs_step ops abs_empty"
  using run_refines [of empty ops] empty_law by simp

end

section \<open>Properties\<close>

text \<open>C4: The in-memory store keeps its reverse index exact: after any sequence of operations
  from the empty store the index maps a content hash to exactly the non-empty set of stored nodes
  with that content, so \<open>is_content_referenced\<close> answers whether some stored node has it.\<close>
theorem mem_index_exact:
  assumes "\<forall>x \<in> set ops. op_ok x" and s: "s = storage_run mem_backend ops mem_empty"
  shows "index_ok (mem_get_node s) (mem_refs s) \<and>
    (mem_is_content_referenced s ch \<longleftrightarrow> (\<exists>h n. mem_get_node s h = Some n \<and> content_hash n = ch))"
proof -
  have "mem_inv s" using mem.run_from_empty [OF assms(1)] s by simp
  then show ?thesis
    using mem_referenced [of s ch]
    by (simp add: mem_inv_def mem_get_node_def [abs_def] abs_referenced_def mem_abs_def)
qed

definition sample_ops :: "(datetime \<times> storage_op) list" where
  "sample_ops = [(0, AddNode node_A), (1, AddContent ''c1'' [104, 105]), (2, Cleanup), (3, RemoveNode ''zz'')]"

lemma sample_ops_ok: "\<forall>x \<in> set sample_ops. op_ok x"
proof -
  have "node_ok node_A" unfolding node_A_def by (rule new_node_ok) simp
  then show ?thesis by (simp add: sample_ops_def dt_ok_def dt_min_def dt_max_def)
qed

theorem mem_index_exact_witness:
  "mem_is_content_referenced (storage_run mem_backend sample_ops mem_empty) ''c1'' \<longleftrightarrow>
   (\<exists>h n. mem_get_node (storage_run mem_backend sample_ops mem_empty) h = Some n \<and> content_hash n = ''c1'')"
  using mem_index_exact [OF sample_ops_ok refl, of "''c1''"] by simp

text \<open>C5: The in-memory and the SQLite storage are interchangeable: after the same sequence of
  operations every lookup of a node, a content, a reference or an active tombstone gives the same
  answer, although one compares parsed deadlines and the other compares ISO texts in SQL.\<close>
theorem backends_equivalent:
  assumes "\<forall>x \<in> set ops. op_ok x"
    and m: "m = storage_run mem_backend ops mem_empty" and q: "q = storage_run sql_backend ops sql_empty"
  shows "mem_get_node m h = sql_get_node q h \<and> mem_get_content m h = sql_get_content q h \<and>
    mem_is_content_referenced m h = sql_is_content_referenced q h \<and>
    snd (mem_get_tombstone now h m) = snd (sql_get_tombstone now h q)"
proof -
  have "mem_inv m" "sql_inv q" "mem_abs m = sql_abs q"
    using mem.run_from_empty [OF assms(1)] sql.run_from_empty [OF assms(1)] m q by simp_all
  then show ?thesis
    using mem.observations [of m] sql.observations [of q] by (simp add: mem_backend_def sql_backend_def)
qed

theorem backends_equivalent_witness:
  "mem_get_node (storage_run mem_backend sample_ops mem_empty) (node_hash node_A) =
   sql_get_node (storage_run sql_backend sample_ops sql_empty) (node_hash node_A)"
  using backends_equivalent [OF sample_ops_ok refl refl] by blast

end
