(* ===== verification/AuditLog.thy ===== *)
theory AuditLog
  imports Crypto Json
begin

text \<open>
  \<open>coc_framework/core/audit_log.py\<close>: the typed events, the in-memory hash-chained log
  (\<open>TamperEvidentLog\<close>) with its filtering front end (\<open>AuditLogger\<close>), and the file-based log
  (\<open>AuditLog\<close>), whose file is the text it holds.
\<close>

section \<open>Events\<close>

datatype audit_event_type =
    CONTENT_CREATED | CONTENT_ACCESSED | CONTENT_FORWARDED | CONTENT_DELETED
  | IDENTITY_CREATED | CERTIFICATE_ISSUED | CERTIFICATE_REVOKED
  | PEER_JOINED | PEER_LEFT | MESSAGE_SENT | MESSAGE_RECEIVED
  | SIGNATURE_VERIFIED | SIGNATURE_FAILED | DELETION_REQUESTED | DELETION_CONFIRMED
  | WATERMARK_EMBEDDED | LEAK_DETECTED
  | ACCESS_GRANTED | ACCESS_DENIED

definition event_types :: "(string \<times> audit_event_type) list" where
  "event_types = [
     (''content_created'', CONTENT_CREATED), (''content_accessed'', CONTENT_ACCESSED),
     (''content_forwarded'', CONTENT_FORWARDED), (''content_deleted'', CONTENT_DELETED),
     (''identity_created'', IDENTITY_CREATED), (''certificate_issued'', CERTIFICATE_ISSUED),
     (''certificate_revoked'', CERTIFICATE_REVOKED), (''peer_joined'', PEER_JOINED),
     (''peer_left'', PEER_LEFT), (''message_sent'', MESSAGE_SENT),
     (''message_received'', MESSAGE_RECEIVED), (''signature_verified'', SIGNATURE_VERIFIED),
     (''signature_failed'', SIGNATURE_FAILED), (''deletion_requested'', DELETION_REQUESTED),
     (''deletion_confirmed'', DELETION_CONFIRMED), (''watermark_embedded'', WATERMARK_EMBEDDED),
     (''leak_detected'', LEAK_DETECTED), (''access_granted'', ACCESS_GRANTED),
     (''access_denied'', ACCESS_DENIED)]"

definition event_value :: "audit_event_type \<Rightarrow> string" where
  "event_value e = the (map_of (map prod.swap event_types) e)"

text \<open>\<open>AuditEventType(value)\<close> raises \<open>ValueError\<close> on an unknown value.\<close>

definition event_of_value :: "string \<Rightarrow> audit_event_type result" where
  "event_of_value v = (case map_of event_types v of None \<Rightarrow> Inl ValueError | Some e \<Rightarrow> Inr e)"

record audit_event =
  event_type :: audit_event_type
  ev_timestamp :: string
  actor_id :: string
  target_id :: "string option"
  details :: json

definition event_to_dict :: "audit_event \<Rightarrow> json" where
  "event_to_dict e = JObj [
     (''event_type'', jstr (event_value (event_type e))),
     (''timestamp'', jstr (ev_timestamp e)),
     (''actor_id'', jstr (actor_id e)),
     (''target_id'', jopt jstr (target_id e)),
     (''details'', details e)]"

definition event_from_dict :: "json \<Rightarrow> audit_event result" where
  "event_from_dict d =
     bindr (bindr (bindr (jreq d ''event_type'') as_str) event_of_value) (\<lambda>ty.
     bindr (bindr (jreq d ''timestamp'') as_str) (\<lambda>ts.
     bindr (bindr (jreq d ''actor_id'') as_str) (\<lambda>ac.
     bindr (as_opt as_str (jdefault d ''target_id'' JNull)) (\<lambda>ta.
       Inr \<lparr>event_type = ty, ev_timestamp = ts, actor_id = ac, target_id = ta,
            details = jdefault d ''details'' (JObj [])\<rparr>))))"

section \<open>TamperEvidentLog\<close>

record log_entry =
  entry_data :: json
  entry_timestamp :: string
  prev_hash :: string
  entry_hash :: string

definition entry_to_dict :: "log_entry \<Rightarrow> json" where
  "entry_to_dict e = JObj [
     (''data'', entry_data e), (''timestamp'', jstr (entry_timestamp e)),
     (''prev_hash'', jstr (prev_hash e)), (''entry_hash'', jstr (entry_hash e))]"

definition entry_from_dict :: "json \<Rightarrow> log_entry result" where
  "entry_from_dict d =
     bindr (jreq d ''data'') (\<lambda>da.
     bindr (bindr (jreq d ''timestamp'') as_str) (\<lambda>ts.
     bindr (bindr (jreq d ''prev_hash'') as_str) (\<lambda>ph.
     bindr (bindr (jreq d ''entry_hash'') as_str) (\<lambda>eh.
       Inr \<lparr>entry_data = da, entry_timestamp = ts, prev_hash = ph, entry_hash = eh\<rparr>))))"

text \<open>The text that is hashed: the JSON of the three fields with sorted keys.\<close>

definition content_to_hash :: "json \<Rightarrow> string \<Rightarrow> string \<Rightarrow> string" where
  "content_to_hash data ts prev =
     dumps (sort_keys (JObj [(''data'', data), (''timestamp'', jstr ts), (''prev_hash'', jstr prev)]))"

definition chain_hash :: "json \<Rightarrow> string \<Rightarrow> string \<Rightarrow> string" where
  "chain_hash data ts prev = sha256 (encode (content_to_hash data ts prev))"

definition log_append :: "datetime \<Rightarrow> json \<Rightarrow> log_entry list \<Rightarrow> log_entry list \<times> string" where
  "log_append now data es =
     (let ts = isoformat now;
          prev = (if es = [] then [] else entry_hash (last es));
          h = chain_hash data ts prev
      in (es @ [\<lparr>entry_data = data, entry_timestamp = ts, prev_hash = prev, entry_hash = h\<rparr>], h))"

fun verify_from :: "string \<Rightarrow> log_entry list \<Rightarrow> bool" where
  "verify_from prev [] = True"
| "verify_from prev (e # es) =
     (prev_hash e = prev \<and>
      chain_hash (entry_data e) (entry_timestamp e) (prev_hash e) = entry_hash e \<and>
      verify_from (entry_hash e) es)"

definition log_verify :: "log_entry list \<Rightarrow> bool" where
  "log_verify es = verify_from [] es"

definition get_entry :: "log_entry list \<Rightarrow> string \<Rightarrow> log_entry option" where
  "get_entry es h = find (\<lambda>e. entry_hash e = h) es"

section \<open>AuditLogger\<close>

definition logger_log_event :: "datetime \<Rightarrow> audit_event \<Rightarrow> log_entry list \<Rightarrow> log_entry list \<times> string" where
  "logger_log_event now e es = log_append now (event_to_dict e) es"

definition logger_log ::
  "datetime \<Rightarrow> audit_event_type \<Rightarrow> string \<Rightarrow> string option \<Rightarrow> (string \<times> json) list \<Rightarrow> log_entry list
   \<Rightarrow> log_entry list \<times> string" where
  "logger_log now ty actor target det es =
     logger_log_event now
       \<lparr>event_type = ty, ev_timestamp = isoformat now, actor_id = actor, target_id = target,
        details = JObj det\<rparr> es"

definition get_all_events :: "log_entry list \<Rightarrow> audit_event list result" where
  "get_all_events es = mapr (\<lambda>e. event_from_dict (entry_data e)) es"

definition filter_events :: "(audit_event \<Rightarrow> bool) \<Rightarrow> log_entry list \<Rightarrow> audit_event list result" where
  "filter_events P es = bindr (get_all_events es) (\<lambda>evs. Inr (filter P evs))"

definition get_events_by_type :: "audit_event_type \<Rightarrow> log_entry list \<Rightarrow> audit_event list result" where
  "get_events_by_type ty es = filter_events (\<lambda>e. event_type e = ty) es"

definition get_events_by_actor :: "string \<Rightarrow> log_entry list \<Rightarrow> audit_event list result" where
  "get_events_by_actor a es = filter_events (\<lambda>e. actor_id e = a) es"

definition get_events_for_target :: "string \<Rightarrow> log_entry list \<Rightarrow> audit_event list result" where
  "get_events_for_target t es = filter_events (\<lambda>e. target_id e = Some t) es"

definition get_events_in_range :: "string \<Rightarrow> string \<Rightarrow> log_entry list \<Rightarrow> audit_event list result" where
  "get_events_in_range a b es = filter_events (\<lambda>e. a \<le> ev_timestamp e \<and> ev_timestamp e \<le> b) es"

definition csv_line :: "log_entry \<Rightarrow> string result" where
  "csv_line e =
     bindr (event_from_dict (entry_data e)) (\<lambda>ev.
       Inr (join '','' [event_value (event_type ev), ev_timestamp ev, actor_id ev,
              (case target_id ev of None \<Rightarrow> [] | Some t \<Rightarrow> t), entry_hash e]))"

text \<open>
  \<open>export_audit_trail\<close>. The JSON export is the value that is printed; the source prints it
  with an indentation of two.
\<close>

definition export_json :: "log_entry list \<Rightarrow> json" where
  "export_json es = JObj [
     (''audit_trail'', JList (map (\<lambda>e. JObj [(''event'', entry_data e),
         (''entry_hash'', jstr (entry_hash e)), (''prev_hash'', jstr (prev_hash e))]) es)),
     (''total_events'', JInt (int (length es)))]"

definition export_audit_trail :: "string \<Rightarrow> log_entry list \<Rightarrow> (json + string) result" where
  "export_audit_trail fmt es =
     (if fmt = ''json'' then Inr (Inl (export_json es))
      else if fmt = ''csv'' then
        bindr (mapr csv_line es) (\<lambda>ls.
          Inr (Inr (join [CHR 0x0A] (''event_type,timestamp,actor_id,target_id,entry_hash'' # ls))))
      else Inl ValueError)"

section \<open>Lemmas on the chain\<close>

lemma event_of_value_value [simp]: "event_of_value (event_value e) = Inr e"
  by (cases e) (simp_all add: event_of_value_def event_value_def event_types_def)

lemma event_from_to_dict [simp]: "event_from_dict (event_to_dict e) = Inr e"
proof -
  have "as_opt as_str (jopt jstr (target_id e)) = Inr (target_id e)" by simp
  then show ?thesis by (simp add: event_from_dict_def event_to_dict_def jreq_def jdefault_def)
qed

lemma entry_from_to_dict [simp]: "entry_from_dict (entry_to_dict e) = Inr e"
  by (simp add: entry_from_dict_def entry_to_dict_def jreq_def)

lemma sort_chain_fields:
  "sort_keys (JObj [(''data'', d), (''timestamp'', jstr ts), (''prev_hash'', jstr p)]) =
   JObj [(''data'', sort_keys d), (''prev_hash'', jstr p), (''timestamp'', jstr ts)]"
  by (simp add: sort_key_def)

lemma ustr_of_inj: "ustr_of s = ustr_of t \<longleftrightarrow> s = t"
  by (metis key_of_ustr_of option.inject)

lemma content_to_hash_inj:
  assumes "jwf d" "jwf d'" "content_to_hash d ts p = content_to_hash d' ts' p'"
  shows "sort_keys d = sort_keys d' \<and> ts = ts' \<and> p = p'"
proof -
  let ?o = "\<lambda>d ts p. JObj [(''data'', sort_keys d), (''prev_hash'', jstr p), (''timestamp'', jstr ts)]"
  have "?o d ts p = ?o d' ts' p'"
    by (rule dumps_inj [OF seps_default(1)])
       (use assms in \<open>simp_all add: jwf_sort_keys content_to_hash_def sort_chain_fields\<close>)
  then show ?thesis by (simp add: ustr_of_inj)
qed

lemma verify_from_snoc:
  "verify_from p (es @ [e]) \<longleftrightarrow>
     verify_from p es \<and> prev_hash e = (if es = [] then p else entry_hash (last es)) \<and>
     chain_hash (entry_data e) (entry_timestamp e) (prev_hash e) = entry_hash e"
  by (induction p es rule: verify_from.induct) auto

lemma log_verify_snoc:
  "log_verify (es @ [e]) \<longleftrightarrow>
     log_verify es \<and> prev_hash e = (if es = [] then [] else entry_hash (last es)) \<and>
     chain_hash (entry_data e) (entry_timestamp e) (prev_hash e) = entry_hash e"
  by (simp add: log_verify_def verify_from_snoc)

lemma log_verify_append: "log_verify es \<Longrightarrow> log_verify (fst (log_append now d es))"
  by (simp add: log_append_def Let_def log_verify_snoc)

lemma chain_hash_nonempty [simp]: "chain_hash d ts p \<noteq> []"
  by (simp add: chain_hash_def)

text \<open>What an entry says, up to the order of the keys of its data.\<close>

definition canon :: "log_entry \<Rightarrow> json \<times> string \<times> string \<times> string" where
  "canon e = (sort_keys (entry_data e), entry_timestamp e, prev_hash e, entry_hash e)"

definition hashed_text :: "log_entry \<Rightarrow> bytes" where
  "hashed_text e = encode (content_to_hash (entry_data e) (entry_timestamp e) (prev_hash e))"

lemma chain_determined:
  "log_verify es \<Longrightarrow> log_verify fs \<Longrightarrow> es \<noteq> [] \<Longrightarrow> fs \<noteq> [] \<Longrightarrow>
   entry_hash (last es) = entry_hash (last fs) \<Longrightarrow>
   \<forall>e \<in> set es \<union> set fs. jwf (entry_data e) \<Longrightarrow>
   inj_on sha256 (hashed_text ` (set es \<union> set fs)) \<Longrightarrow> map canon es = map canon fs"
proof (induction es arbitrary: fs rule: rev_induct)
  case (snoc e es)
  obtain fs' f where fs: "fs = fs' @ [f]" using snoc.prems(4) by (cases fs rule: rev_cases) auto
  have e: "log_verify es" "prev_hash e = (if es = [] then [] else entry_hash (last es))"
    "entry_hash e = sha256 (hashed_text e)"
    using snoc.prems(1) by (auto simp: log_verify_snoc chain_hash_def hashed_text_def)
  have f: "log_verify fs'" "prev_hash f = (if fs' = [] then [] else entry_hash (last fs'))"
    "entry_hash f = sha256 (hashed_text f)"
    using snoc.prems(2) by (auto simp: fs log_verify_snoc chain_hash_def hashed_text_def)
  have "hashed_text e = hashed_text f"
    by (rule inj_onD [OF snoc.prems(7)]) (use snoc.prems(5) e(3) f(3) in \<open>simp_all add: fs\<close>)
  then have "content_to_hash (entry_data e) (entry_timestamp e) (prev_hash e) =
      content_to_hash (entry_data f) (entry_timestamp f) (prev_hash f)"
    by (simp add: hashed_text_def encode_inj)
  moreover have "jwf (entry_data e)" "jwf (entry_data f)" using snoc.prems(6) by (simp_all add: fs)
  ultimately have c: "sort_keys (entry_data e) = sort_keys (entry_data f)"
    "entry_timestamp e = entry_timestamp f" "prev_hash e = prev_hash f"
    using content_to_hash_inj by blast+
  have ne: "entry_hash (last xs) \<noteq> []" if "log_verify xs" "xs \<noteq> []" for xs
    using that chain_hash_nonempty by (cases xs rule: rev_cases) (auto simp: log_verify_snoc)
  have "es = [] \<longleftrightarrow> fs' = []"
    using e f c(3) ne [of es] ne [of fs'] by (auto split: if_splits)
  moreover have "map canon es = map canon fs'" if "es \<noteq> []" "fs' \<noteq> []"
  proof (rule snoc.IH [OF e(1) f(1) that])
    show "entry_hash (last es) = entry_hash (last fs')" using e(2) f(2) c(3) that by simp
    show "\<forall>e \<in> set es \<union> set fs'. jwf (entry_data e)" using snoc.prems(6) by (simp add: fs)
    show "inj_on sha256 (hashed_text ` (set es \<union> set fs'))"
      by (rule inj_on_subset [OF snoc.prems(7)]) (auto simp: fs)
  qed
  ultimately show ?case using c e(3) f(3) \<open>hashed_text e = hashed_text f\<close>
    by (cases "es = []") (auto simp: canon_def [of e] canon_def [of f] fs)
qed simp

lemma mapr_snoc: "mapr f es = Inr xs \<Longrightarrow> mapr f (es @ [y]) = bindr (f y) (\<lambda>z. Inr (xs @ [z]))"
  by (cases "f y"; induction es arbitrary: xs) (auto simp: bindr_eq_Inr)

lemma get_all_events_append:
  "get_all_events es = Inr evs \<Longrightarrow>
   get_all_events (fst (logger_log_event now e es)) = Inr (evs @ [e])"
  by (simp add: get_all_events_def logger_log_event_def log_append_def Let_def mapr_snoc)

section \<open>The file-based log\<close>

text \<open>The file's text (\<open>None\<close>: no file) and the hash of the last entry.\<close>

record audit_log =
  log_file :: "string option"
  last_hash :: string

abbreviation newline :: char where "newline \<equiv> CHR 0x0A"

text \<open>
  \<open>_get_last_hash\<close> seeks backwards from the last byte but one for a line feed and takes the last
  field of the line after it; the seek fails (\<open>OSError\<close>) on a shorter file or one with no
  earlier line feed.
\<close>

definition get_last_hash :: "string option \<Rightarrow> string" where
  "get_last_hash f =
     (case f of
        None \<Rightarrow> []
      | Some txt \<Rightarrow>
          if length txt < 2 \<or> newline \<notin> set (butlast txt) then []
          else last (split bar (strip (rev (takeWhile ((\<noteq>) newline) (rev (butlast txt))) @ [last txt]))))"

definition entry_content :: "string \<Rightarrow> string \<Rightarrow> string \<Rightarrow> string \<Rightarrow> string \<Rightarrow> string \<Rightarrow> string" where
  "entry_content ety actor target ts det prev = join bar [ety, actor, target, ts, det, prev]"

definition file_log_event ::
  "datetime \<Rightarrow> string \<Rightarrow> string \<Rightarrow> string \<Rightarrow> string \<Rightarrow> audit_log \<Rightarrow> audit_log" where
  "file_log_event now ety actor target det l =
     (let c = entry_content ety actor target (isoformat now) det (last_hash l);
          h = sha256 (encode c);
          line = c @ bar @ h @ [newline]
      in \<lparr>log_file = Some ((case log_file l of None \<Rightarrow> [] | Some t \<Rightarrow> t) @ line), last_hash = h\<rparr>)"

definition log_header :: string where
  "log_header = ''# Audit Log - Chain of Custody Simulator'' @ [newline] @
     ''# Each entry is chained by hashing the previous entry's hash.'' @ [newline]"

definition initialize_log :: "datetime \<Rightarrow> audit_log \<Rightarrow> audit_log" where
  "initialize_log now l =
     file_log_event now ''GENESIS'' ''SYSTEM'' ''Log Initialized'' ''Initial state.''
       (l\<lparr>log_file := Some log_header\<rparr>)"

definition audit_log_init :: "datetime \<Rightarrow> string option \<Rightarrow> audit_log" where
  "audit_log_init now f =
     (let l = \<lparr>log_file = f, last_hash = get_last_hash f\<rparr>
      in if last_hash l = [] then initialize_log now l else l)"

text \<open>\<open>readlines\<close>: the lines of a text, each with its line feed but for an unfinished last one.\<close>

fun readlines_acc :: "string \<Rightarrow> string \<Rightarrow> string list" where
  "readlines_acc acc [] = (if acc = [] then [] else [rev acc])"
| "readlines_acc acc (c # cs) =
     (if c = newline then rev (c # acc) # readlines_acc [] cs else readlines_acc (c # acc) cs)"

definition readlines :: "string \<Rightarrow> string list" where
  "readlines s = readlines_acc [] s"

fun verify_lines :: "string \<Rightarrow> string list \<Rightarrow> bool" where
  "verify_lines cur [] = True"
| "verify_lines cur (l # ls) =
     (let parts = split bar l
      in if length parts \<noteq> 7 then verify_lines cur ls
         else if parts ! 5 \<noteq> cur then False
         else if sha256 (encode (join bar (butlast parts))) \<noteq> parts ! 6 then False
         else verify_lines (parts ! 6) ls)"

definition verify_log_integrity :: "audit_log \<Rightarrow> bool" where
  "verify_log_integrity l =
     (case log_file l of
        None \<Rightarrow> False
      | Some t \<Rightarrow> verify_lines [] (map strip (filter (\<lambda>x. take 1 x \<noteq> ''#'') (readlines t))))"

text \<open>The arguments the log keeps apart: no bar and no line break in a field, and an event type
  that is neither blank-led, empty nor taken for a comment.\<close>

definition plain :: "string \<Rightarrow> bool" where
  "plain s \<longleftrightarrow> CHR ''|'' \<notin> set s \<and> newline \<notin> set s"

definition event_ok :: "datetime \<times> string \<times> string \<times> string \<times> string \<Rightarrow> bool" where
  "event_ok e = (case e of (now, ety, actor, target, det) \<Rightarrow>
     plain ety \<and> plain actor \<and> plain target \<and> plain det \<and> ety \<noteq> [] \<and> \<not> isspace (hd ety) \<and>
     hd ety \<noteq> CHR ''#'')"

definition file_log_all :: "(datetime \<times> string \<times> string \<times> string \<times> string) list \<Rightarrow> audit_log \<Rightarrow> audit_log" where
  "file_log_all evs l =
     fold (\<lambda>(now, ety, actor, target, det). file_log_event now ety actor target det) evs l"

lemma readlines_acc_line:
  "newline \<notin> set s \<Longrightarrow> readlines_acc acc (s @ newline # r) = (rev acc @ s @ [newline]) # readlines_acc [] r"
  by (induction s arbitrary: acc) auto

lemma readlines_line: "newline \<notin> set s \<Longrightarrow> readlines (s @ newline # r) = (s @ [newline]) # readlines r"
  by (simp add: readlines_def readlines_acc_line)

lemma readlines_acc_append:
  "readlines_acc acc (t @ [newline] @ r) = readlines_acc acc (t @ [newline]) @ readlines r"
  by (induction t arbitrary: acc) (auto simp: readlines_def)

lemma verify_lines_append:
  "verify_lines cur (ls @ ms) \<longleftrightarrow> verify_lines cur ls \<and>
     verify_lines (fold (\<lambda>l cur. let p = split bar l in if length p = 7 then p ! 6 else cur) ls cur) ms"
  by (induction cur ls rule: verify_lines.induct) (auto simp: Let_def)

lemma strip_newline:
  assumes "s \<noteq> []" "\<not> isspace (hd s)" "\<not> isspace (last s)"
  shows "strip (s @ [newline]) = s"
proof -
  have n: "isspace newline" by (simp add: py_isspace_def)
  have "dropWhile isspace (s @ [newline]) = s @ [newline]"
    using assms(1,2) by (cases s) auto
  moreover have "dropWhile isspace (rev s) = rev s"
    using assms(1,3) by (intro dropWhile_hd) (simp add: hd_rev)
  ultimately show ?thesis using n by (simp add: strip_def)
qed

lemma sha256_last: "\<not> isspace (last (sha256 m))" "newline \<notin> set (sha256 m)"
proof -
  have "c \<noteq> d" if "isspace d" "c \<in> set (sha256 m)" for c d
    using that sha256_notin [of d m] by (auto simp: py_isspace_def)
  then show "\<not> isspace (last (sha256 m))" by (metis last_in_set sha256_nonempty)
  show "newline \<notin> set (sha256 m)" by (rule sha256_notin) simp
qed

lemma isoformat_plain [simp]: "plain (isoformat t)"
  using isoformat_chars [of "CHR ''|''" t] isoformat_chars [of newline t]
  by (auto simp: plain_def isdigit_def undigit_def Let_def)

definition log_lines :: "string \<Rightarrow> string list" where
  "log_lines t = map strip (filter (\<lambda>x. take 1 x \<noteq> ''#'') (readlines t))"

definition chain_end :: "string list \<Rightarrow> string \<Rightarrow> string" where
  "chain_end ls cur = fold (\<lambda>l cur. let p = split bar l in if length p = 7 then p ! 6 else cur) ls cur"

definition file_chain_ok :: "audit_log \<Rightarrow> bool" where
  "file_chain_ok l \<longleftrightarrow> (\<exists>t. log_file l = Some (t @ [newline]) \<and>
     verify_lines [] (log_lines (t @ [newline])) \<and>
     chain_end (log_lines (t @ [newline])) [] = last_hash l \<and> plain (last_hash l))"

lemma sha256_plain [simp]: "plain (sha256 m)"
  by (simp add: plain_def sha256_last)

lemma join_bar_snoc: "ps \<noteq> [] \<Longrightarrow> join sep (ps @ [p]) = join sep ps @ sep @ p"
  by (induction sep ps rule: join.induct) auto

lemma log_lines_append:
  assumes "newline \<notin> set s" "s \<noteq> []" "\<not> isspace (hd s)" "\<not> isspace (last s)" "hd s \<noteq> CHR ''#''"
  shows "log_lines (t @ [newline] @ s @ [newline]) = log_lines (t @ [newline]) @ [s]"
proof -
  have "readlines (t @ [newline] @ s @ [newline]) = readlines (t @ [newline]) @ [s @ [newline]]"
    using readlines_acc_append [of "[]" t "s @ [newline]"] readlines_line [OF assms(1), of "[]"]
    by (simp add: readlines_def)
  moreover have "take 1 (s @ [newline]) \<noteq> ''#''" using assms(2,5) by (cases s) auto
  ultimately show ?thesis using strip_newline [OF assms(2-4)] by (simp add: log_lines_def)
qed

lemma file_log_event_ok:
  assumes "file_chain_ok l" "event_ok (now, ety, actor, target, det)"
  shows "file_chain_ok (file_log_event now ety actor target det l)"
proof -
  obtain t where t: "log_file l = Some (t @ [newline])" "verify_lines [] (log_lines (t @ [newline]))"
    "chain_end (log_lines (t @ [newline])) [] = last_hash l" "plain (last_hash l)"
    using assms(1) by (auto simp: file_chain_ok_def)
  let ?ps = "[ety, actor, target, isoformat now, det, last_hash l]"
  define c where "c = join bar ?ps"
  define s where "s = c @ bar @ sha256 (encode c)"
  have pl: "\<forall>p \<in> set (?ps @ [sha256 (encode c)]). plain p" and e: "ety \<noteq> []" "\<not> isspace (hd ety)" "hd ety \<noteq> CHR ''#''"
    using assms(2) t(4) by (auto simp: event_ok_def)
  have s: "s = join bar (?ps @ [sha256 (encode c)])"
    by (simp only: s_def c_def join_bar_snoc not_Cons_self2 list.distinct simp_thms)
  have sp: "split bar s = ?ps @ [sha256 (encode c)]"
    unfolding s by (rule split_join_bar) (use pl in \<open>auto simp: plain_def\<close>)
  have n: "newline \<notin> set s" unfolding s by (rule join_notin) (use pl in \<open>auto simp: plain_def\<close>)
  have hd: "s \<noteq> []" "hd s = hd ety" using e by (auto simp: s_def c_def)
  have "last s = last (sha256 (encode c))" by (simp add: s_def)
  then have l: "log_lines (t @ [newline] @ s @ [newline]) = log_lines (t @ [newline]) @ [s]"
    using log_lines_append [OF n hd(1)] hd e sha256_last by metis
  have "verify_lines [] (log_lines (t @ [newline]) @ [s])"
    using t(2,3) by (simp add: verify_lines_append chain_end_def [symmetric] sp butlast_append c_def)
  moreover have "chain_end (log_lines (t @ [newline]) @ [s]) [] = sha256 (encode c)"
    by (simp add: chain_end_def sp)
  moreover have "file_log_event now ety actor target det l =
      \<lparr>log_file = Some ((t @ [newline] @ s) @ [newline]), last_hash = sha256 (encode c)\<rparr>"
    using t(1) by (simp add: file_log_event_def entry_content_def Let_def c_def s_def)
  ultimately show ?thesis unfolding file_chain_ok_def using l by auto
qed

lemma file_log_all_ok: "file_chain_ok l \<Longrightarrow> \<forall>e \<in> set evs. event_ok e \<Longrightarrow> file_chain_ok (file_log_all evs l)"
  by (induction evs arbitrary: l) (auto simp: file_log_all_def file_log_event_ok split: prod.splits)

lemma audit_log_init_ok: "file_chain_ok (audit_log_init now None)"
proof -
  let ?l = "\<lparr>log_file = Some log_header, last_hash = []\<rparr>"
  have "log_lines log_header = []"
    by (simp add: log_lines_def readlines_def log_header_def)
  moreover obtain t where "log_header = t @ [newline]" by (simp add: log_header_def)
  ultimately have "file_chain_ok ?l"
    by (auto simp: file_chain_ok_def chain_end_def plain_def)
  then have "file_chain_ok (file_log_event now ''GENESIS'' ''SYSTEM'' ''Log Initialized'' ''Initial state.'' ?l)"
    by (rule file_log_event_ok) (simp add: event_ok_def plain_def py_isspace_def)
  then show ?thesis by (simp add: audit_log_init_def get_last_hash_def initialize_log_def)
qed

lemma file_chain_ok_verifies: "file_chain_ok l \<Longrightarrow> verify_log_integrity l"
  by (auto simp: file_chain_ok_def verify_log_integrity_def log_lines_def)

lemma get_last_hash_line:
  assumes "newline \<notin> set s" "s \<noteq> []" "\<not> isspace (hd s)" "\<not> isspace (last s)"
  shows "get_last_hash (Some (t @ [newline] @ s @ [newline])) = last (split bar s)"
proof -
  have "takeWhile ((\<noteq>) newline) (rev s @ newline # rev t) = rev s"
    using assms(1) by (subst takeWhile_append2) auto
  then show ?thesis
    using strip_newline [OF assms(2-4)] by (simp add: get_last_hash_def butlast_append)
qed

lemma file_log_event_reopen:
  assumes "file_chain_ok l" "event_ok (now, ety, actor, target, det)"
  shows "get_last_hash (log_file (file_log_event now ety actor target det l)) =
    last_hash (file_log_event now ety actor target det l)"
proof -
  obtain t where t: "log_file l = Some (t @ [newline])" "plain (last_hash l)"
    using assms(1) by (auto simp: file_chain_ok_def)
  let ?ps = "[ety, actor, target, isoformat now, det, last_hash l]"
  define c where "c = join bar ?ps"
  define s where "s = c @ bar @ sha256 (encode c)"
  have pl: "\<forall>p \<in> set (?ps @ [sha256 (encode c)]). plain p" and e: "ety \<noteq> []" "\<not> isspace (hd ety)"
    using assms(2) t(2) by (auto simp: event_ok_def)
  have s: "s = join bar (?ps @ [sha256 (encode c)])"
    by (simp only: s_def c_def join_bar_snoc not_Cons_self2 list.distinct simp_thms)
  have "last (split bar s) = sha256 (encode c)"
    unfolding s by (subst split_join_bar) (use pl in \<open>auto simp: plain_def\<close>)
  moreover have "newline \<notin> set s" unfolding s by (rule join_notin) (use pl in \<open>auto simp: plain_def\<close>)
  moreover have "s \<noteq> []" "hd s = hd ety" "last s = last (sha256 (encode c))"
    using e by (auto simp: s_def c_def)
  ultimately have "get_last_hash (Some (t @ [newline] @ s @ [newline])) = sha256 (encode c)"
    using get_last_hash_line e(2) sha256_last(1) by metis
  then show ?thesis using t(1) by (simp add: file_log_event_def entry_content_def Let_def c_def s_def)
qed

definition reopens :: "audit_log \<Rightarrow> bool" where
  "reopens l \<longleftrightarrow> get_last_hash (log_file l) = last_hash l \<and> last_hash l \<noteq> []"

lemma file_log_event_reopens:
  "file_chain_ok l \<Longrightarrow> event_ok (now, ety, actor, target, det) \<Longrightarrow>
   reopens (file_log_event now ety actor target det l)"
  using file_log_event_reopen by (simp add: reopens_def) (simp add: file_log_event_def Let_def)

lemma file_log_all_reopens:
  "file_chain_ok l \<Longrightarrow> reopens l \<Longrightarrow> \<forall>e \<in> set evs. event_ok e \<Longrightarrow> reopens (file_log_all evs l)"
  by (induction evs arbitrary: l)
     (auto simp: file_log_all_def file_log_event_ok file_log_event_reopens split: prod.splits)

lemma audit_log_init_reopens: "reopens (audit_log_init now None)"
proof -
  let ?l = "\<lparr>log_file = Some log_header, last_hash = []\<rparr>"
  have "log_lines log_header = []"
    by (simp add: log_lines_def readlines_def log_header_def)
  moreover obtain t where "log_header = t @ [newline]" by (simp add: log_header_def)
  ultimately have "file_chain_ok ?l"
    by (auto simp: file_chain_ok_def chain_end_def plain_def)
  then have "reopens (file_log_event now ''GENESIS'' ''SYSTEM'' ''Log Initialized'' ''Initial state.'' ?l)"
    by (rule file_log_event_reopens) (simp add: event_ok_def plain_def py_isspace_def)
  then show ?thesis by (simp add: audit_log_init_def get_last_hash_def initialize_log_def)
qed

section \<open>Properties\<close>

text \<open>C6: The hash chain is tamper evident: two logs that both verify and end in the same entry hash
  say the same thing entry by entry (data up to key order, timestamps, hashes), unless SHA-256
  collides on texts the two logs hash. No entry of a log can be changed, dropped, inserted or
  reordered below its last hash without \<open>verify\<close> failing.\<close>
theorem log_tamper_evident:
  assumes "log_verify es" "log_verify fs" "es \<noteq> []" "fs \<noteq> []"
    and "entry_hash (last es) = entry_hash (last fs)"
    and "\<forall>e \<in> set es \<union> set fs. jwf (entry_data e)"
    and "inj_on sha256 (hashed_text ` (set es \<union> set fs))"
  shows "map canon es = map canon fs"
  using assms by (rule chain_determined)

definition sample_log :: "log_entry list" where
  "sample_log = fst (log_append 5 (JObj [(''b'', JInt 1), (''a'', JInt 2)]) [])"

definition sample_log' :: "log_entry list" where
  "sample_log' = fst (log_append 5 (JObj [(''a'', JInt 2), (''b'', JInt 1)]) [])"

theorem log_tamper_evident_witness: "map canon sample_log = map canon sample_log'"
proof (rule log_tamper_evident)
  have s: "sort_keys (JObj [(''b'', JInt 1), (''a'', JInt 2)]) = JObj [(''a'', JInt 2), (''b'', JInt 1)]"
    "sort_keys (JObj [(''a'', JInt 2), (''b'', JInt 1)]) = JObj [(''a'', JInt 2), (''b'', JInt 1)]"
    by (simp_all add: sort_key_def)
  have c: "content_to_hash (JObj [(''b'', JInt 1), (''a'', JInt 2)]) ts p =
      content_to_hash (JObj [(''a'', JInt 2), (''b'', JInt 1)]) ts p" for ts p
    unfolding content_to_hash_def sort_chain_fields s ..
  show "log_verify sample_log" "log_verify sample_log'"
    unfolding sample_log_def sample_log'_def by (rule log_verify_append, simp add: log_verify_def)+
  show "sample_log \<noteq> []" "sample_log' \<noteq> []"
    by (simp_all add: sample_log_def sample_log'_def log_append_def Let_def)
  show "entry_hash (last sample_log) = entry_hash (last sample_log')"
    by (simp add: sample_log_def sample_log'_def log_append_def Let_def chain_hash_def c)
  show "\<forall>e \<in> set sample_log \<union> set sample_log'. jwf (entry_data e)"
    by (simp add: sample_log_def sample_log'_def log_append_def Let_def)
  show "inj_on sha256 (hashed_text ` (set sample_log \<union> set sample_log'))"
    by (simp add: sample_log_def sample_log'_def log_append_def Let_def hashed_text_def c)
qed

text \<open>The audit logger loses nothing: after logging any list of events from the empty log the
  chain verifies and \<open>get_all_events\<close> gives back exactly those events, in order.\<close>
lemma logger_keeps_events:
  "get_all_events (fold (\<lambda>(now, e) es. fst (logger_log_event now e es)) tes []) = Inr (map snd tes) \<and>
   log_verify (fold (\<lambda>(now, e) es. fst (logger_log_event now e es)) tes [])"
proof (induction tes rule: rev_induct)
  case Nil
  then show ?case by (simp add: get_all_events_def log_verify_def)
next
  case (snoc te tes)
  then show ?case
    using get_all_events_append log_verify_append
    by (cases te) (auto simp: logger_log_event_def)
qed

text \<open>Selecting events by a range of ISO texts selects exactly the events in that range of
  instants, although the code compares the timestamps as strings.\<close>
lemma range_by_text_is_range_by_time:
  assumes "dt_ok a" "dt_ok b" "\<forall>(t, e) \<in> set tes. dt_ok t"
  shows "get_events_in_range (isoformat a) (isoformat b)
      (map (\<lambda>(t, e). \<lparr>entry_data = event_to_dict (e\<lparr>ev_timestamp := isoformat t\<rparr>), entry_timestamp = isoformat t,
                      prev_hash = [], entry_hash = []\<rparr>) tes) =
    Inr (map (\<lambda>(t, e). e\<lparr>ev_timestamp := isoformat t\<rparr>) (filter (\<lambda>(t, e). a \<le> t \<and> t \<le> b) tes))"
proof -
  let ?f = "\<lambda>(t, e). \<lparr>entry_data = event_to_dict (e\<lparr>ev_timestamp := isoformat t\<rparr>), entry_timestamp = isoformat t,
                      prev_hash = [], entry_hash = []\<rparr>"
  have "get_all_events (map ?f tes) = Inr (map (\<lambda>(t, e). e\<lparr>ev_timestamp := isoformat t\<rparr>) tes)"
    unfolding get_all_events_def by (induction tes) auto
  moreover have "filter (\<lambda>e. isoformat a \<le> ev_timestamp e \<and> ev_timestamp e \<le> isoformat b)
      (map (\<lambda>(t, e). e\<lparr>ev_timestamp := isoformat t\<rparr>) tes) =
    map (\<lambda>(t, e). e\<lparr>ev_timestamp := isoformat t\<rparr>) (filter (\<lambda>(t, e). a \<le> t \<and> t \<le> b) tes)"
    using assms(3) by (induction tes) (auto simp: isoformat_le_iff [OF assms(1)] isoformat_le_iff [OF _ assms(2)])
  ultimately show ?thesis by (simp add: get_events_in_range_def filter_events_def)
qed

definition sample_event :: audit_event where
  "sample_event = \<lparr>event_type = PEER_JOINED, ev_timestamp = [], actor_id = ''p'', target_id = None, details = JObj []\<rparr>"



end
