(* ===== verification/Deletion.thy ===== *)
theory Deletion
  imports Storage AuditLog
begin

text \<open>
  \<open>coc_framework/core/deletion_engine.py\<close>, the parts below the engine: signed deletion tokens
  and receipts, the per-peer cache of processed tokens that rejects replays, and the tracker of
  acknowledgements. The engine itself, which acts on peers and sends messages, is in \<open>Network\<close>.
\<close>

section \<open>Tokens\<close>

definition TOKEN_VALIDITY_SECONDS :: int where
  "TOKEN_VALIDITY_SECONDS = 300"

record deletion_token =
  tok_node_hash :: string
  originator_id :: string
  nonce :: string
  tok_timestamp :: string
  tok_signature :: string

definition token_signing_data :: "deletion_token \<Rightarrow> string" where
  "token_signing_data t = join ''|'' [tok_node_hash t, originator_id t, nonce t, tok_timestamp t]"

definition sign_token :: "crypto \<Rightarrow> signing_key \<Rightarrow> deletion_token \<Rightarrow> deletion_token" where
  "sign_token C sk t = t\<lparr>tok_signature := bytes_hex (sign_message C sk (token_signing_data t))\<rparr>"

definition token_hash_data :: "deletion_token \<Rightarrow> string" where
  "token_hash_data t =
     join ''|'' [tok_node_hash t, originator_id t, nonce t, tok_timestamp t, tok_signature t]"

definition token_hash :: "deletion_token \<Rightarrow> string" where
  "token_hash t = sha256 (encode (token_hash_data t))"

definition token_expired :: "int \<Rightarrow> datetime \<Rightarrow> deletion_token \<Rightarrow> bool" where
  "token_expired validity now t =
     (case read_instant (replace_Z (tok_timestamp t)) of
        Inl _ \<Rightarrow> True
      | Inr issued \<Rightarrow> now - issued > seconds validity)"

definition token_to_dict :: "deletion_token \<Rightarrow> json" where
  "token_to_dict t = JObj [
     (''node_hash'', jstr (tok_node_hash t)), (''originator_id'', jstr (originator_id t)),
     (''nonce'', jstr (nonce t)), (''timestamp'', jstr (tok_timestamp t)),
     (''signature'', jstr (tok_signature t))]"

text \<open>\<open>DeletionToken(**data)\<close> with all five fields present.\<close>

definition token_from_dict :: "json \<Rightarrow> deletion_token result" where
  "token_from_dict d =
     bindr (bindr (jreq d ''node_hash'') as_str) (\<lambda>nh.
     bindr (bindr (jreq d ''originator_id'') as_str) (\<lambda>oi.
     bindr (bindr (jreq d ''nonce'') as_str) (\<lambda>no.
     bindr (bindr (jreq d ''timestamp'') as_str) (\<lambda>ts.
     bindr (bindr (jreq d ''signature'') as_str) (\<lambda>sg.
       Inr \<lparr>tok_node_hash = nh, originator_id = oi, nonce = no, tok_timestamp = ts,
            tok_signature = sg\<rparr>)))))"

section \<open>Receipts\<close>

record deletion_receipt =
  rc_token_hash :: string
  rc_peer_id :: string
  rc_timestamp :: string
  success :: bool
  rc_node_hash :: string
  rc_signature :: string
  error_message :: "string option"

definition str_bool :: "bool \<Rightarrow> string" where
  "str_bool b = (if b then ''True'' else ''False'')"

definition receipt_data :: "deletion_receipt \<Rightarrow> string" where
  "receipt_data r =
     join ''|'' [rc_token_hash r, rc_peer_id r, rc_timestamp r, str_bool (success r),
       rc_node_hash r, or_empty (error_message r)]"

definition sign_receipt :: "crypto \<Rightarrow> signing_key \<Rightarrow> deletion_receipt \<Rightarrow> deletion_receipt" where
  "sign_receipt C sk r = r\<lparr>rc_signature := bytes_hex (sign_message C sk (receipt_data r))\<rparr>"

definition verify_receipt :: "crypto \<Rightarrow> verify_key \<Rightarrow> deletion_receipt \<Rightarrow> bool" where
  "verify_receipt C vk r =
     (rc_signature r \<noteq> [] \<and>
      (case fromhex (rc_signature r) of
         None \<Rightarrow> False
       | Some s \<Rightarrow> verify_signature C vk (receipt_data r) s))"

section \<open>ProcessedTokenCache\<close>

record token_cache =
  processed :: "(string \<times> datetime) list"
  max_age :: int
  last_cleanup :: datetime
  cleanup_interval :: int

definition new_cache :: "datetime \<Rightarrow> int \<Rightarrow> token_cache" where
  "new_cache now age = \<lparr>processed = [], max_age = age, last_cleanup = now, cleanup_interval = 60\<rparr>"

definition maybe_cleanup :: "datetime \<Rightarrow> token_cache \<Rightarrow> token_cache" where
  "maybe_cleanup now c =
     (if now - last_cleanup c < seconds (cleanup_interval c) then c
      else c\<lparr>processed := filter (\<lambda>(h, t). t > now - seconds (max_age c)) (processed c),
             last_cleanup := now\<rparr>)"

definition is_processed :: "datetime \<Rightarrow> string \<Rightarrow> token_cache \<Rightarrow> token_cache \<times> bool" where
  "is_processed now h c = (let c' = maybe_cleanup now c in (c', h \<in> fst ` set (processed c')))"

definition mark_processed :: "datetime \<Rightarrow> string \<Rightarrow> token_cache \<Rightarrow> token_cache" where
  "mark_processed now h c = maybe_cleanup now (c\<lparr>processed := dict_set h now (processed c)\<rparr>)"

definition clear_cache :: "token_cache \<Rightarrow> token_cache" where
  "clear_cache c = c\<lparr>processed := []\<rparr>"

text \<open>
  The admission check at the head of \<open>process_token\<close>: replay first, then expiry, then the token
  is marked; the cache changes on every branch because looking up may evict.
\<close>

definition admit :: "int \<Rightarrow> datetime \<Rightarrow> deletion_token \<Rightarrow> token_cache \<Rightarrow> token_cache \<times> unit result" where
  "admit validity now t c =
     (let (c', seen) = is_processed now (token_hash t) c
      in if seen then (c', Inl ReplayAttackError)
         else if token_expired validity now t then (c', Inl TokenExpiredError)
         else (mark_processed now (token_hash t) c', Inr ()))"

fun admit_all :: "int \<Rightarrow> (datetime \<times> deletion_token) list \<Rightarrow> token_cache \<Rightarrow> unit result list" where
  "admit_all validity [] c = []"
| "admit_all validity ((now, t) # ts) c =
     (let (c', r) = admit validity now t c in r # admit_all validity ts c')"

section \<open>DeletionTracker\<close>

record deletion_tracker =
  pending :: "(string \<times> deletion_token) list"
  receipts :: "(string \<times> deletion_receipt list) list"
  expected_peers :: "(string \<times> string set) list"

definition new_tracker :: deletion_tracker where
  "new_tracker = \<lparr>pending = [], receipts = [], expected_peers = []\<rparr>"

definition track_deletion :: "deletion_token \<Rightarrow> string set \<Rightarrow> deletion_tracker \<Rightarrow> deletion_tracker \<times> string" where
  "track_deletion t ps k =
     (let h = token_hash t
      in (k\<lparr>pending := dict_set h t (pending k), receipts := dict_set h [] (receipts k),
            expected_peers := dict_set h ps (expected_peers k)\<rparr>, h))"

definition add_receipt :: "deletion_receipt \<Rightarrow> deletion_tracker \<Rightarrow> deletion_tracker" where
  "add_receipt r k =
     (case map_of (receipts k) (rc_token_hash r) of
        None \<Rightarrow> k
      | Some rs \<Rightarrow>
          if rc_peer_id r \<in> rc_peer_id ` set rs then k
          else k\<lparr>receipts := dict_set (rc_token_hash r) (rs @ [r]) (receipts k)\<rparr>)"

definition get_receipts :: "deletion_tracker \<Rightarrow> string \<Rightarrow> deletion_receipt list" where
  "get_receipts k h = (case map_of (receipts k) h of None \<Rightarrow> [] | Some rs \<Rightarrow> rs)"

definition get_token :: "deletion_tracker \<Rightarrow> string \<Rightarrow> deletion_token option" where
  "get_token k h = map_of (pending k) h"

definition is_complete :: "deletion_tracker \<Rightarrow> string \<Rightarrow> bool" where
  "is_complete k h =
     (case map_of (expected_peers k) h of
        None \<Rightarrow> False
      | Some ex \<Rightarrow> ex = {} \<or> ex \<subseteq> rc_peer_id ` set (get_receipts k h))"

definition get_pending_peers :: "deletion_tracker \<Rightarrow> string \<Rightarrow> string set" where
  "get_pending_peers k h =
     (case map_of (expected_peers k) h of
        None \<Rightarrow> {}
      | Some ex \<Rightarrow> ex - rc_peer_id ` set (get_receipts k h))"

record deletion_status =
  st_token :: "deletion_token option"
  st_expected :: "string set"
  st_receipts :: "deletion_receipt list"
  st_pending :: "string set"
  st_is_complete :: bool
  success_count :: nat
  failure_count :: nat
  total_expected :: nat
  total_received :: nat

definition get_deletion_status :: "deletion_tracker \<Rightarrow> string \<Rightarrow> deletion_status" where
  "get_deletion_status k h =
     (let rs = get_receipts k h;
          ex = (case map_of (expected_peers k) h of None \<Rightarrow> {} | Some ex \<Rightarrow> ex)
      in \<lparr>st_token = get_token k h, st_expected = ex, st_receipts = rs,
          st_pending = get_pending_peers k h, st_is_complete = is_complete k h,
          success_count = length (filter success rs),
          failure_count = length (filter (\<lambda>r. \<not> success r) rs),
          total_expected = card ex, total_received = length rs\<rparr>)"

section \<open>Lemmas\<close>

lemma token_from_to_dict [simp]: "token_from_dict (token_to_dict t) = Inr t"
  by (simp add: token_from_dict_def token_to_dict_def jreq_def)

lemma verify_sign_receipt:
  "sig_correct C \<Longrightarrow> sig_nonempty C \<Longrightarrow> verify_receipt C (ed_verify_key C sk) (sign_receipt C sk r)"
  using verify_sign_message [of C sk sk "ed_verify_key C sk" "receipt_data r"] sign_message_nonempty [of C sk]
  by (simp add: verify_receipt_def sign_receipt_def receipt_data_def generate_keypair_def)

text \<open>A token admitted at \<open>t0\<close> is either still in the cache or at least \<open>max_age\<close> old.\<close>

definition remembers :: "token_cache \<Rightarrow> datetime \<Rightarrow> string \<Rightarrow> datetime \<Rightarrow> bool" where
  "remembers c now h t0 \<longleftrightarrow>
     (\<exists>t \<ge> t0. (h, t) \<in> set (processed c)) \<or> t0 + seconds (max_age c) \<le> now"

lemma maybe_cleanup_sel [cache_simps]:
  "max_age (maybe_cleanup now c) = max_age c"
  by (simp add: maybe_cleanup_def)

lemma maybe_cleanup_remembers:
  "remembers c now h t0 \<Longrightarrow> now \<le> now' \<Longrightarrow> remembers (maybe_cleanup now' c) now' h t0"
  by (auto simp: remembers_def maybe_cleanup_def)

lemma dict_set_in: "(k, v) \<in> set (dict_set k v d)"
  by (induction k v d rule: dict_set.induct) auto

lemma dict_set_other: "(h, t) \<in> set d \<Longrightarrow> h \<noteq> k \<Longrightarrow> (h, t) \<in> set (dict_set k v d)"
  by (induction k v d rule: dict_set.induct) auto

lemma mark_remembers:
  "remembers c now h t0 \<Longrightarrow> t0 \<le> now \<Longrightarrow> remembers (c\<lparr>processed := dict_set k now (processed c)\<rparr>) now h t0"
  by (cases "h = k") (auto simp: remembers_def intro: dict_set_in dict_set_other)

lemma mark_remembers_new: "remembers (mark_processed now h c) now h now"
proof -
  have "remembers (c\<lparr>processed := dict_set h now (processed c)\<rparr>) now h now"
    by (auto simp: remembers_def intro: dict_set_in)
  then show ?thesis unfolding mark_processed_def by (rule maybe_cleanup_remembers) simp
qed

lemma admit_max_age [cache_simps]: "admit v now t c = (c', r) \<Longrightarrow> max_age c' = max_age c"
  by (auto simp: admit_def is_processed_def mark_processed_def Let_def cache_simps split: if_splits)

lemma admit_remembers:
  assumes "remembers c now h t0" "now \<le> now'" "t0 \<le> now" "admit v now' t c = (c', r)"
  shows "remembers c' now' h t0"
proof -
  have "remembers (maybe_cleanup now' c) now' h t0" using assms by (intro maybe_cleanup_remembers)
  moreover have "remembers (mark_processed now' k (maybe_cleanup now' c)) now' h t0" for k
    unfolding mark_processed_def using assms(2,3)
    by (intro maybe_cleanup_remembers [OF mark_remembers [OF calculation]]) auto
  ultimately show ?thesis using assms(4)
    by (auto simp: admit_def is_processed_def Let_def split: if_splits)
qed

lemma remembered_rejected:
  assumes "remembers c now (token_hash t) t0" "now \<le> now'"
    and "max_age c = 2 * v" "0 < v" "read_instant (replace_Z (tok_timestamp t)) = Inr i" "i \<le> t0"
  shows "snd (admit v now' t c) \<noteq> Inr ()"
proof -
  have r: "remembers (maybe_cleanup now' c) now' (token_hash t) t0"
    using assms(1,2) by (rule maybe_cleanup_remembers)
  show ?thesis
  proof (cases "token_hash t \<in> fst ` set (processed (maybe_cleanup now' c))")
    case False
    then have "t0 + seconds (2 * v) \<le> now'"
      using r assms(3) by (auto simp: remembers_def cache_simps image_iff)
    then have "token_expired v now' t"
      using assms(4-6) by (simp add: token_expired_def seconds_def)
    with False show ?thesis by (simp add: admit_def is_processed_def Let_def)
  qed (simp add: admit_def is_processed_def Let_def)
qed

lemma admit_all_rejects:
  assumes "remembers c now (token_hash t) t0" "t0 \<le> now" "max_age c = 2 * v" "0 < v"
    "read_instant (replace_Z (tok_timestamp t)) = Inr i" "i \<le> t0"
    "sorted (now # map fst ts)" "j < length ts" "snd (ts ! j) = t"
  shows "admit_all v ts c ! j \<noteq> Inr ()"
  using assms
proof (induction ts arbitrary: c now j)
  case (Cons x ts)
  obtain now' t' where x: "x = (now', t')" by (cases x)
  obtain c' r where a: "admit v now' t' c = (c', r)" by fastforce
  have le: "now \<le> now'" using Cons.prems(7) x by simp
  show ?case
  proof (cases j)
    case 0
    then show ?thesis
      using remembered_rejected [OF Cons.prems(1) le Cons.prems(3-6)] Cons.prems(9) a x by simp
  next
    case (Suc k)
    have "admit_all v ts c' ! k \<noteq> Inr ()"
    proof (rule Cons.IH)
      show "remembers c' now' (token_hash t) t0"
        using admit_remembers [OF Cons.prems(1) le Cons.prems(2) a] .
      show "max_age c' = 2 * v" using admit_max_age [OF a] Cons.prems(3) by simp
    qed (use Cons.prems Suc x in auto)
    then show ?thesis using Suc a x by simp
  qed
qed simp

lemma admit_all_no_replay:
  assumes "sorted (map fst ts)" "i < j" "j < length ts" "snd (ts ! i) = t" "snd (ts ! j) = t"
    "max_age c = 2 * v" "0 < v" "admit_all v ts c ! i = Inr ()"
    "read_instant (replace_Z (tok_timestamp t)) = Inr issued" "issued \<le> fst (ts ! i)"
  shows "admit_all v ts c ! j \<noteq> Inr ()"
  using assms
proof (induction ts arbitrary: c i j)
  case (Cons x ts)
  obtain now t' where x: "x = (now, t')" by (cases x)
  obtain c' r where a: "admit v now t' c = (c', r)" by fastforce
  obtain j' where j: "j = Suc j'" using Cons.prems(2) by (cases j) auto
  have m: "max_age c' = 2 * v" using admit_max_age [OF a] Cons.prems(6) by simp
  show ?case
  proof (cases i)
    case 0
    then have t: "t' = t" "r = Inr ()" using Cons.prems(4,8) a x by simp_all
    then have "c' = mark_processed now (token_hash t) (maybe_cleanup now c)"
      using a by (auto simp: admit_def is_processed_def Let_def split: if_splits)
    then have rm: "remembers c' now (token_hash t) now" using mark_remembers_new by simp
    have "admit_all v ts c' ! j' \<noteq> Inr ()"
      by (rule admit_all_rejects [OF rm order_refl m Cons.prems(7,9)])
         (use Cons.prems 0 x j in auto)
    then show ?thesis using a x j by simp
  next
    case (Suc i')
    have "admit_all v ts c' ! j' \<noteq> Inr ()"
      by (rule Cons.IH [of i']) (use Cons.prems Suc x j m a in auto)
    then show ?thesis using a x j by simp
  qed
qed simp

section \<open>Invariant of the tracker\<close>

definition tracker_ok :: "deletion_tracker \<Rightarrow> bool" where
  "tracker_ok k \<longleftrightarrow> (\<forall>h rs. map_of (receipts k) h = Some rs \<longrightarrow>
     distinct (map rc_peer_id rs) \<and> (\<forall>r \<in> set rs. rc_token_hash r = h)) \<and>
     dom (map_of (receipts k)) = dom (map_of (expected_peers k))"

lemma new_tracker_ok: "tracker_ok new_tracker"
  by (simp add: tracker_ok_def new_tracker_def)

lemma track_deletion_ok: "tracker_ok k \<Longrightarrow> tracker_ok (fst (track_deletion t ps k))"
  by (auto simp: tracker_ok_def track_deletion_def Let_def)

lemma add_receipt_ok: "tracker_ok k \<Longrightarrow> tracker_ok (add_receipt r k)"
  by (auto simp: tracker_ok_def add_receipt_def split: option.splits if_splits)

datatype tracker_op = Track deletion_token "string set" | Receipt deletion_receipt

definition tracker_step :: "tracker_op \<Rightarrow> deletion_tracker \<Rightarrow> deletion_tracker" where
  "tracker_step op k = (case op of Track t ps \<Rightarrow> fst (track_deletion t ps k) | Receipt r \<Rightarrow> add_receipt r k)"

lemma tracker_run_ok: "tracker_ok k \<Longrightarrow> tracker_ok (fold tracker_step ops k)"
  by (induction ops arbitrary: k)
     (auto simp: tracker_step_def track_deletion_ok add_receipt_ok split: tracker_op.split)

lemma complete_iff_no_pending:
  "map_of (expected_peers k) h = Some ex \<Longrightarrow> is_complete k h \<longleftrightarrow> get_pending_peers k h = {}"
  by (auto simp: is_complete_def get_pending_peers_def)

section \<open>Properties\<close>

text \<open>C8: A deletion token is processed at most once by a peer: however many tokens a peer sees,
  in any order and at any nondecreasing times, a token that was accepted and was not dated in the
  future is rejected (as a replay or as expired) every later time it arrives, even after the cache
  has evicted it.\<close>
theorem token_replay_rejected:
  assumes "sorted (map fst ts)" "i < j" "j < length ts" "snd (ts ! i) = snd (ts ! j)" "0 < v"
    and "admit_all v ts (new_cache start (2 * v)) ! i = Inr ()"
    and "read_instant (replace_Z (tok_timestamp (snd (ts ! i)))) = Inr issued" "issued \<le> fst (ts ! i)"
  shows "admit_all v ts (new_cache start (2 * v)) ! j \<in> {Inl ReplayAttackError, Inl TokenExpiredError}"
proof -
  have "admit_all v ts (new_cache start (2 * v)) ! j \<noteq> Inr ()"
    by (rule admit_all_no_replay [OF assms(1-3) refl assms(4) [symmetric] _ assms(5,6,7,8)])
       (simp add: new_cache_def)
  moreover have "snd (admit v now t c) \<in> {Inr (), Inl ReplayAttackError, Inl TokenExpiredError}" for now t c
    by (auto simp: admit_def is_processed_def Let_def)
  moreover have "\<exists>now t c. admit_all v ts c0 ! j = snd (admit v now t c)" if "j < length ts" for j c0
    using that
  proof (induction ts arbitrary: j c0)
    case (Cons x ts)
    then show ?case
      by (cases x; cases j) (force simp: Let_def case_prod_unfold)+
  qed simp
  ultimately show ?thesis using assms(3) by (metis insert_iff)
qed

definition token_A :: deletion_token where
  "token_A = \<lparr>tok_node_hash = ''n1'', originator_id = ''alice'', nonce = ''00ff'',
     tok_timestamp = isoformat 0, tok_signature = ''ab''\<rparr>"

theorem token_replay_rejected_witness:
  "admit_all 300 [(0, token_A), (seconds 700, token_A)] (new_cache 0 600) ! 1 \<in>
     {Inl ReplayAttackError, Inl TokenExpiredError}"
proof -
  have "dt_ok 0" by (simp add: dt_ok_def dt_min_def dt_max_def)
  then show ?thesis
    using token_replay_rejected [where ts = "[(0, token_A), (seconds 700, token_A)]" and i = 0 and j = 1
        and v = 300 and start = 0 and issued = 0]
    by (simp add: token_A_def seconds_def admit_def is_processed_def maybe_cleanup_def new_cache_def
        token_expired_def Let_def)
qed

text \<open>A token dated in the future escapes the replay protection: one dated 600 seconds ahead is
  accepted, evicted from the cache after twice the validity period, and accepted again.\<close>
lemma future_token_replayed:
  "admit_all 300 [(0, token_A\<lparr>tok_timestamp := isoformat (seconds 600)\<rparr>),
      (seconds 601, token_A\<lparr>tok_timestamp := isoformat (seconds 600)\<rparr>)] (new_cache 0 600) =
   [Inr (), Inr ()]"
proof -
  have "dt_ok (seconds 600)" by (simp add: dt_ok_def dt_min_def dt_max_def seconds_def)
  then show ?thesis
    by (simp add: seconds_def admit_def is_processed_def maybe_cleanup_def mark_processed_def new_cache_def
        token_expired_def Let_def)
qed

text \<open>The tracker counts each peer once: after any sequence of tracked deletions and receipts,
  the receipts kept for a token name distinct peers and that token, and a tracked deletion is
  complete exactly when no expected peer is still pending.\<close>
lemma tracker_counts_peers_once:
  assumes "k = fold tracker_step ops new_tracker" "map_of (expected_peers k) h = Some ex"
  shows "distinct (map rc_peer_id (get_receipts k h)) \<and>
    (\<forall>r \<in> set (get_receipts k h). rc_token_hash r = h) \<and>
    (is_complete k h \<longleftrightarrow> get_pending_peers k h = {}) \<and>
    total_received (get_deletion_status k h) = card (rc_peer_id ` set (get_receipts k h))"
proof -
  have ok: "tracker_ok k" using tracker_run_ok [OF new_tracker_ok] assms(1) by simp
  then have "h \<in> dom (map_of (receipts k))" using assms(2) by (auto simp: tracker_ok_def)
  then obtain rs where "map_of (receipts k) h = Some rs" by blast
  with ok have d: "distinct (map rc_peer_id (get_receipts k h))" "\<forall>r \<in> set (get_receipts k h). rc_token_hash r = h"
    by (auto simp: tracker_ok_def get_receipts_def)
  then have "length (get_receipts k h) = card (rc_peer_id ` set (get_receipts k h))"
    using distinct_card by fastforce
  with d complete_iff_no_pending [OF assms(2)] show ?thesis
    by (simp add: get_deletion_status_def Let_def)
qed

definition receipt_bob :: deletion_receipt where
  "receipt_bob = \<lparr>rc_token_hash = token_hash token_A, rc_peer_id = ''bob'', rc_timestamp = ''t'', success = True,
     rc_node_hash = ''n1'', rc_signature = ''00'', error_message = None\<rparr>"

end
