(* ===== verification/Network.thy ===== *)
theory Network
  imports Deletion
begin

text \<open>
  \<open>coc_framework/core/network_sim.py\<close>, \<open>coc_framework/interfaces/peer_discovery.py\<close> and the engine of
  \<open>coc_framework/core/deletion_engine.py\<close>: peers with their storage and offline queue, the
  registry, message routing, and the processing of deletion tokens. The whole simulation is one
  state; a message to an online peer becomes an asyncio task that is delivered after a random
  delay, so the tasks in flight are a collection any member of which may be delivered next.

  A stored node is an object shared between the storage and whoever holds it: \<open>add_child\<close> on a
  node that is in the storage changes the stored node, and the model writes that change out.
\<close>

section \<open>State\<close>

record message =
  sender_id :: string
  recipient_id :: string
  message_type :: string
  content :: json

record peer =
  peer_id :: string
  signing_key :: signing_key
  online :: bool
  storage :: mem_store
  offline_queue :: "(datetime \<times> message) list"
  last_online_timestamp :: datetime
  message_ttl_hours :: int
  in_network :: bool

datatype notice =
    DeletionRequested string string string
  | PeerStatusChanged string bool
  | QueueProcessed string nat

text \<open>The registry, the tasks in flight, and the deletion engine's own state.\<close>

record world =
  peers :: "string \<rightharpoonup> peer"
  inflight :: "message list"
  audit :: audit_log
  caches :: "string \<rightharpoonup> token_cache"
  token_validity_seconds :: int
  tombstone_grace_seconds :: int
  notices :: "notice list"

definition upd_peer :: "string \<Rightarrow> (peer \<Rightarrow> peer) \<Rightarrow> world \<Rightarrow> world" where
  "upd_peer pid f w =
     (case peers w pid of None \<Rightarrow> w | Some p \<Rightarrow> w\<lparr>peers := (peers w)(pid \<mapsto> f p)\<rparr>)"

definition upd_storage :: "string \<Rightarrow> (mem_store \<Rightarrow> mem_store) \<Rightarrow> world \<Rightarrow> world" where
  "upd_storage pid f w = upd_peer pid (\<lambda>p. p\<lparr>storage := f (storage p)\<rparr>) w"

definition log_event :: "datetime \<Rightarrow> string \<Rightarrow> string \<Rightarrow> string \<Rightarrow> string \<Rightarrow> world \<Rightarrow> world" where
  "log_event now ety actor target det w = w\<lparr>audit := file_log_event now ety actor target det (audit w)\<rparr>"

definition notify :: "notice \<Rightarrow> world \<Rightarrow> world" where
  "notify n w = w\<lparr>notices := notices w @ [n]\<rparr>"

section \<open>Peer discovery\<close>

definition find_peer :: "world \<Rightarrow> string \<Rightarrow> peer option" where
  "find_peer w pid = peers w pid"

definition register_peer :: "peer \<Rightarrow> world \<Rightarrow> world" where
  "register_peer p w = w\<lparr>peers := (peers w)(peer_id p \<mapsto> p)\<rparr>"

definition unregister_peer :: "string \<Rightarrow> world \<Rightarrow> world \<times> bool" where
  "unregister_peer pid w =
     (case peers w pid of
        None \<Rightarrow> (w, False)
      | Some p \<Rightarrow> (w\<lparr>peers := (peers w)(pid := None)\<rparr>, True))"

definition list_online_peers :: "world \<Rightarrow> string set" where
  "list_online_peers w = {pid \<in> dom (peers w). online (the (peers w pid))}"

definition get_peer_status :: "world \<Rightarrow> string \<Rightarrow> bool" where
  "get_peer_status w pid = (case find_peer w pid of None \<Rightarrow> False | Some p \<Rightarrow> online p)"

definition add_peer :: "peer \<Rightarrow> world \<Rightarrow> world" where
  "add_peer p w = register_peer (p\<lparr>in_network := True\<rparr>) w"

definition new_peer :: "crypto \<Rightarrow> datetime \<Rightarrow> string \<Rightarrow> bytes \<Rightarrow> int \<Rightarrow> peer" where
  "new_peer C now pid seed ttl =
     \<lparr>peer_id = pid, signing_key = fst (generate_keypair C seed), online = True, storage = mem_empty,
      offline_queue = [], last_online_timestamp = now, message_ttl_hours = ttl, in_network = False\<rparr>"

definition peer_verify_key :: "crypto \<Rightarrow> peer \<Rightarrow> verify_key" where
  "peer_verify_key C p = ed_verify_key C (signing_key p)"

section \<open>Sending\<close>

definition route_message :: "datetime \<Rightarrow> message \<Rightarrow> world \<Rightarrow> world" where
  "route_message now m w =
     (case find_peer w (recipient_id m) of
        None \<Rightarrow> w
      | Some p \<Rightarrow>
          if online p then w\<lparr>inflight := inflight w @ [m]\<rparr>
          else upd_peer (recipient_id m) (\<lambda>p. p\<lparr>offline_queue := offline_queue p @ [(now, m)]\<rparr>) w)"

definition send_message :: "datetime \<Rightarrow> peer \<Rightarrow> string \<Rightarrow> string \<Rightarrow> json \<Rightarrow> world \<Rightarrow> world" where
  "send_message now p rid ty c w =
     (if \<not> in_network p then w
      else route_message now
             \<lparr>sender_id = peer_id p, recipient_id = rid, message_type = ty, content = c\<rparr> w)"

section \<open>Roots and forwards\<close>

definition create_coc_root ::
  "crypto \<Rightarrow> datetime \<Rightarrow> peer \<Rightarrow> ustr \<Rightarrow> string list \<Rightarrow> mem_store \<times> coc_node" where
  "create_coc_root C now p c rs =
     (let ch = hash_content c;
          n = new_node C now ch (peer_id p) (signing_key p) rs None 0 NODE_SCHEMA_VERSION
      in (mem_add_content ch c (mem_add_node n (storage p)), n))"

definition forward_coc_message ::
  "crypto \<Rightarrow> datetime \<Rightarrow> peer \<Rightarrow> coc_node \<Rightarrow> string list \<Rightarrow> mem_store \<times> coc_node \<times> coc_node" where
  "forward_coc_message C now p parent rs =
     (let child = new_node C now (content_hash parent) (peer_id p) (signing_key p) rs
                    (Some (node_hash parent)) 0 NODE_SCHEMA_VERSION;
          (parent', child') = add_child parent child
      in (mem_add_node parent' (mem_add_node child' (storage p)), child', parent'))"

section \<open>DeletionEngine\<close>

definition get_token_cache :: "datetime \<Rightarrow> string \<Rightarrow> world \<Rightarrow> token_cache" where
  "get_token_cache now pid w =
     (case caches w pid of
        None \<Rightarrow> new_cache now (token_validity_seconds w * 2)
      | Some c \<Rightarrow> c)"

definition set_cache :: "string \<Rightarrow> token_cache \<Rightarrow> world \<Rightarrow> world" where
  "set_cache pid c w = w\<lparr>caches := (caches w)(pid \<mapsto> c)\<rparr>"

definition issue_token ::
  "crypto \<Rightarrow> datetime \<Rightarrow> string \<Rightarrow> coc_node \<Rightarrow> peer \<Rightarrow> world \<Rightarrow> world \<times> deletion_token result" where
  "issue_token C now nce n p w =
     (if owner_id n \<noteq> peer_id p then (w, Inl PermissionError)
      else (log_event now ''DELETE_ISSUE'' (peer_id p) (''Node: '' @ node_hash n) '''' w,
            Inr (sign_token C (signing_key p)
              \<lparr>tok_node_hash = node_hash n, originator_id = peer_id p, nonce = nce,
               tok_timestamp = isoformat now, tok_signature = ''''\<rparr>)))"

definition initiate_deletion ::
  "crypto \<Rightarrow> datetime \<Rightarrow> string \<Rightarrow> coc_node \<Rightarrow> peer \<Rightarrow> world \<Rightarrow> world \<times> unit result" where
  "initiate_deletion C now nce n p w =
     (case issue_token C now nce n p w of
        (w', Inl e) \<Rightarrow> (w', Inl e)
      | (w', Inr t) \<Rightarrow>
          (fold (\<lambda>rid. send_message now p rid ''deletion_token'' (token_to_dict t)) (recipient_ids n) w',
           Inr ()))"

text \<open>Initiating the deletion of each child in turn; an exception stops the loop.\<close>

fun initiate_all ::
  "crypto \<Rightarrow> datetime \<Rightarrow> (string \<Rightarrow> string) \<Rightarrow> coc_node list \<Rightarrow> peer \<Rightarrow> world \<Rightarrow> world \<times> unit result" where
  "initiate_all C now rnd [] p w = (w, Inr ())"
| "initiate_all C now rnd (n # ns) p w =
     (case initiate_deletion C now (rnd (node_hash n)) n p w of
        (w', Inl e) \<Rightarrow> (w', Inl e)
      | (w', Inr _) \<Rightarrow> initiate_all C now rnd ns p w')"

definition children_to_delete :: "mem_store \<Rightarrow> string \<Rightarrow> coc_node \<Rightarrow> coc_node list" where
  "children_to_delete s pid n =
     filter (\<lambda>c. owner_id c = pid) (List.map_filter (mem_get_node s) (children_hashes n))"

text \<open>Lines 279 to 291: the node goes, and its content with it when nothing else refers to it.\<close>

definition purge :: "'s backend \<Rightarrow> datetime \<Rightarrow> int \<Rightarrow> string \<Rightarrow> coc_node \<Rightarrow> 's \<Rightarrow> 's" where
  "purge B now grace origin n s =
     (let s1 = be_remove_node B (node_hash n) s
      in if be_is_content_referenced B s1 (content_hash n) then s1
         else be_add_tombstone B
                \<lparr>ts_content_hash = content_hash n, deleted_at = isoformat now,
                 delete_after = isoformat (now + seconds grace), ts_originator_id = origin,
                 ts_node_hash = node_hash n\<rparr>
                (be_remove_content B (content_hash n) s1))"

text \<open>\<open>rnd\<close> gives the nonce drawn for the token of each child; \<open>pid\<close> is the receiving peer.\<close>

definition process_token ::
  "crypto \<Rightarrow> datetime \<Rightarrow> (string \<Rightarrow> string) \<Rightarrow> deletion_token \<Rightarrow> peer \<Rightarrow> world \<Rightarrow> world \<times> bool result" where
  "process_token C now rnd t p w =
     (let pid = peer_id p;
          (c', r) = admit (token_validity_seconds w) now t (get_token_cache now pid w);
          w1 = set_cache pid c' w;
          tgt = ''Node: '' @ tok_node_hash t
      in case r of
           Inl ReplayAttackError \<Rightarrow>
             (log_event now ''DELETE_FAIL'' pid tgt ''Replay attack detected'' w1, Inl ReplayAttackError)
         | Inl e \<Rightarrow> (log_event now ''DELETE_FAIL'' pid tgt ''Token expired'' w1, Inl e)
         | Inr _ \<Rightarrow>
             (case find_peer w1 (originator_id t) of
                None \<Rightarrow> (w1, Inr False)
              | Some orig \<Rightarrow>
                  (case fromhex (tok_signature t) of
                     None \<Rightarrow> (w1, Inl ValueError)
                   | Some sig \<Rightarrow>
                       if \<not> verify_signature C (peer_verify_key C orig) (token_signing_data t) sig
                       then (log_event now ''DELETE_FAIL'' pid tgt ''Invalid signature'' w1, Inr False)
                       else (case mem_get_node (storage p) (tok_node_hash t) of
                               None \<Rightarrow> (w1, Inr False)
                             | Some n \<Rightarrow>
                                 let kids = children_to_delete (storage p) pid n;
                                     w2 = upd_storage pid
                                       (purge mem_backend now (tombstone_grace_seconds w) (originator_id t) n) w1;
                                     w3 = log_event now ''DELETE_SUCCESS'' pid (''Node: '' @ node_hash n) '''' w2;
                                     w4 = notify (DeletionRequested pid (tok_node_hash t) (originator_id t)) w3
                                 in case initiate_all C now rnd kids p w4 of
                                      (w5, Inl e) \<Rightarrow> (w5, Inl e)
                                    | (w5, Inr _) \<Rightarrow> (w5, Inr True)))))"

definition clear_token_cache :: "string option \<Rightarrow> world \<Rightarrow> world" where
  "clear_token_cache pid w =
     (case pid of
        None \<Rightarrow> w\<lparr>caches := Map.empty\<rparr>
      | Some q \<Rightarrow>
          if q = [] then w\<lparr>caches := Map.empty\<rparr>
          else w\<lparr>caches := (caches w)(q := map_option clear_cache (caches w q))\<rparr>)"

section \<open>Receiving\<close>

definition store_received :: "coc_node \<Rightarrow> ustr \<Rightarrow> mem_store \<Rightarrow> mem_store" where
  "store_received n c s =
     (let s1 = mem_add_content (content_hash n) c (mem_add_node n s)
      in case parent_hash n of
           None \<Rightarrow> s1
         | Some ph \<Rightarrow>
             if ph = [] then s1
             else (case mem_get_node s1 ph of
                     None \<Rightarrow> s1
                   | Some p \<Rightarrow>
                       let (p', n') = add_child p n;
                           p'' = (if ph = node_hash n then n'\<lparr>children_hashes := children_hashes p'\<rparr> else p')
                       in mem_add_node p'' (mem_add_node n' s1)))"

definition receive_message ::
  "crypto \<Rightarrow> datetime \<Rightarrow> (string \<Rightarrow> string) \<Rightarrow> message \<Rightarrow> string \<Rightarrow> world \<Rightarrow> world \<times> unit result" where
  "receive_message C now rnd m pid w =
     (case find_peer w pid of
        None \<Rightarrow> (w, Inr ())
      | Some p \<Rightarrow>
          if message_type m = ''coc_data'' then
            (case bindr (jreq (content m) ''node_data'') node_from_dict of
               Inl e \<Rightarrow> (w, Inl e)
             | Inr n \<Rightarrow>
                 (case bindr (jreq (content m) ''content'') as_ustr of
                    Inl e \<Rightarrow> (upd_storage pid (mem_add_node n) w, Inl e)
                  | Inr c \<Rightarrow> (upd_storage pid (store_received n c) w, Inr ())))
          else if message_type m = ''deletion_token'' then
            (case token_from_dict (content m) of
               Inl e \<Rightarrow> (w, Inl e)
             | Inr t \<Rightarrow>
                 (case process_token C now rnd t p w of
                    (w', Inl e) \<Rightarrow> (w', Inl e)
                  | (w', Inr _) \<Rightarrow> (w', Inr ())))
          else (w, Inr ()))"

section \<open>Going offline and online\<close>

definition go_offline :: "datetime \<Rightarrow> string \<Rightarrow> world \<Rightarrow> world" where
  "go_offline now pid w =
     notify (PeerStatusChanged pid False)
       (upd_peer pid (\<lambda>p. p\<lparr>online := False, last_online_timestamp := now\<rparr>) w)"

text \<open>The queue as it was when the peer came online, with the number of messages processed.\<close>

fun drain ::
  "crypto \<Rightarrow> datetime \<Rightarrow> (string \<Rightarrow> string) \<Rightarrow> int \<Rightarrow> string \<Rightarrow> (datetime \<times> message) list \<Rightarrow> nat \<Rightarrow> world
   \<Rightarrow> world \<times> nat result" where
  "drain C now rnd ttl pid [] k w = (w, Inr k)"
| "drain C now rnd ttl pid ((ts, m) # q) k w =
     (if now - ts \<le> seconds (3600 * ttl) then
        (case receive_message C now rnd m pid w of
           (w', Inl e) \<Rightarrow> (w', Inl e)
         | (w', Inr _) \<Rightarrow> drain C now rnd ttl pid q (k + 1) w')
      else drain C now rnd ttl pid q k w)"

definition go_online :: "crypto \<Rightarrow> datetime \<Rightarrow> (string \<Rightarrow> string) \<Rightarrow> string \<Rightarrow> world \<Rightarrow> world \<times> unit result" where
  "go_online C now rnd pid w =
     (case find_peer w pid of
        None \<Rightarrow> (w, Inr ())
      | Some p \<Rightarrow>
          let w1 = notify (PeerStatusChanged pid True) (upd_peer pid (\<lambda>p. p\<lparr>online := True\<rparr>) w)
          in case drain C now rnd (message_ttl_hours p) pid (offline_queue p) 0 w1 of
               (w2, Inl e) \<Rightarrow> (w2, Inl e)
             | (w2, Inr k) \<Rightarrow>
                 (notify (QueueProcessed pid k) (upd_peer pid (\<lambda>p. p\<lparr>offline_queue := []\<rparr>) w2), Inr ()))"

section \<open>What changes a storage\<close>

definition stores :: "world \<Rightarrow> string \<rightharpoonup> mem_store" where
  "stores w pid = map_option storage (peers w pid)"

text \<open>The identity a peer is registered under: its id and its key.\<close>

definition keys :: "world \<Rightarrow> string \<rightharpoonup> string \<times> signing_key" where
  "keys w pid = map_option (\<lambda>p. (peer_id p, signing_key p)) (peers w pid)"

lemma frame_simps [node_simps]:
  "stores (log_event now a b c d w) = stores w" "keys (log_event now a b c d w) = keys w"
  "peers (log_event now a b c d w) = peers w"
  "stores (notify x w) = stores w" "keys (notify x w) = keys w" "peers (notify x w) = peers w"
  "stores (set_cache pid k w) = stores w" "keys (set_cache pid k w) = keys w"
  "peers (set_cache pid k w) = peers w"
  by (simp_all add: stores_def keys_def log_event_def notify_def set_cache_def fun_eq_iff)

lemma stores_upd_storage [node_simps]:
  "stores (upd_storage pid f w) = (stores w)(pid := map_option f (stores w pid))"
  "keys (upd_storage pid f w) = keys w"
  by (auto simp: stores_def keys_def upd_storage_def upd_peer_def fun_eq_iff split: option.splits)

lemma upd_peer_frame:
  assumes "\<And>p. storage (f p) = storage p" "\<And>p. signing_key (f p) = signing_key p"
    "\<And>p. peer_id (f p) = peer_id p"
  shows "stores (upd_peer pid f w) = stores w" "keys (upd_peer pid f w) = keys w"
  using assms by (auto simp: stores_def keys_def upd_peer_def fun_eq_iff split: option.splits)

lemma route_frame [node_simps]:
  "stores (route_message now m w) = stores w" "keys (route_message now m w) = keys w"
proof -
  let ?f = "\<lambda>p. p\<lparr>offline_queue := offline_queue p @ [(now, m)]\<rparr>"
  have "stores (upd_peer (recipient_id m) ?f w) = stores w" "keys (upd_peer (recipient_id m) ?f w) = keys w"
    by (rule upd_peer_frame; simp)+
  moreover have "stores (w\<lparr>inflight := x\<rparr>) = stores w" "keys (w\<lparr>inflight := x\<rparr>) = keys w" for x
    by (simp_all add: stores_def keys_def fun_eq_iff)
  ultimately show "stores (route_message now m w) = stores w" "keys (route_message now m w) = keys w"
    by (auto simp: route_message_def split: option.splits)
qed

lemma send_frame [node_simps]:
  "stores (send_message now p rid ty c w) = stores w" "keys (send_message now p rid ty c w) = keys w"
  by (simp_all add: send_message_def node_simps)

lemma fold_send_frame [node_simps]:
  "stores (fold (\<lambda>rid. send_message now p rid ty c) rs w) = stores w"
  "keys (fold (\<lambda>rid. send_message now p rid ty c) rs w) = keys w"
  by (induction rs arbitrary: w) (simp_all add: node_simps)

lemma initiate_frame:
  assumes "initiate_deletion C now nce n p w = (w', r)"
  shows "stores w' = stores w" "keys w' = keys w" "r = Inr () \<longleftrightarrow> owner_id n = peer_id p"
  using assms by (auto simp: initiate_deletion_def issue_token_def node_simps split: if_splits)

lemma initiate_all_frame:
  "initiate_all C now rnd ns p w = (w', r) \<Longrightarrow> \<forall>n \<in> set ns. owner_id n = peer_id p \<Longrightarrow>
   stores w' = stores w \<and> keys w' = keys w \<and> r = Inr ()"
proof (induction ns arbitrary: w)
  case (Cons n ns)
  obtain w1 r1 where i: "initiate_deletion C now (rnd (node_hash n)) n p w = (w1, r1)" by fastforce
  note f = initiate_frame [OF i]
  then have "r1 = Inr ()" using Cons.prems(2) by simp
  with Cons.prems i have "initiate_all C now rnd ns p w1 = (w', r)" by simp
  with Cons.IH f Cons.prems(2) show ?case by simp
qed simp

section \<open>Purging a node\<close>

context storage_backend
begin

lemma purge_spec:
  fixes origin :: string
  assumes "inv s" "a_nodes (abs s) h = Some n" "dt_ok (now + seconds grace)"
  defines "s' \<equiv> purge B now grace origin n s"
  defines "shared \<equiv> \<exists>k m. k \<noteq> h \<and> a_nodes (abs s) k = Some m \<and> content_hash m = content_hash n"
  shows "inv s'" "a_nodes (abs s') = (a_nodes (abs s))(h := None)"
    "a_content (abs s') = (if shared then a_content (abs s) else (a_content (abs s))(content_hash n := None))"
    "shared \<Longrightarrow> a_tombs (abs s') = a_tombs (abs s)"
    "\<not> shared \<Longrightarrow> \<exists>t. a_tombs (abs s') = (a_tombs (abs s))(content_hash n \<mapsto> t) \<and> ts_node_hash t = h \<and>
       ts_originator_id t = origin \<and> (\<forall>u. tombstone_expired u t \<longleftrightarrow> u > now + seconds grace)"
proof -
  have h: "node_hash n = h" using keyed_law [OF assms(1,2)] .
  let ?s1 = "be_remove_node B h s"
  let ?t = "\<lparr>ts_content_hash = content_hash n, deleted_at = isoformat now,
    delete_after = isoformat (now + seconds grace), ts_originator_id = origin, ts_node_hash = h\<rparr>"
  note r = remove_node_law [OF assms(1), of h]
  have t: "tomb_ok ?t" using assms(3) by (auto simp: tomb_ok_def)
  have x: "tombstone_expired u ?t \<longleftrightarrow> u > now + seconds grace" for u
    using assms(3) by (simp add: tombstone_expired_def)
  have sh: "be_is_content_referenced B ?s1 (content_hash n) \<longleftrightarrow> shared"
    using referenced_law [of ?s1 "content_hash n"] r
    by (auto simp: abs_referenced_def shared_def split: if_splits)
  have s': "s' = (if shared then ?s1 else be_add_tombstone B ?t (be_remove_content B (content_hash n) ?s1))"
    by (simp add: s'_def purge_def Let_def h sh)
  note rc = remove_content_law [of ?s1 "content_hash n"]
  note at = add_tombstone_law [OF _ t, of "be_remove_content B (content_hash n) ?s1"]
  show "inv s'" "a_nodes (abs s') = (a_nodes (abs s))(h := None)"
    "a_content (abs s') = (if shared then a_content (abs s) else (a_content (abs s))(content_hash n := None))"
    "shared \<Longrightarrow> a_tombs (abs s') = a_tombs (abs s)"
    using r rc at by (simp_all add: s')
  show "\<exists>t. a_tombs (abs s') = (a_tombs (abs s))(content_hash n \<mapsto> t) \<and> ts_node_hash t = h \<and>
       ts_originator_id t = origin \<and> (\<forall>u. tombstone_expired u t \<longleftrightarrow> u > now + seconds grace)" if "\<not> shared"
    using that r rc at x by (intro exI [of _ ?t]) (simp add: s')
qed

end

lemma mem_purge:
  assumes "mem_inv s" "mem_get_node s h = Some n" "dt_ok (now + seconds grace)"
  shows "mem_inv (purge mem_backend now grace origin n s)"
    "mem_get_node (purge mem_backend now grace origin n s) k = (if k = h then None else mem_get_node s k)"
  using mem.purge_spec [of s h n now grace origin] assms by (simp_all add: mem_abs_def mem_get_node_def)

lemma mem_purge_content:
  fixes origin :: string
  assumes "mem_inv s" "mem_get_node s h = Some n" "dt_ok (now + seconds grace)"
  defines "s' \<equiv> purge mem_backend now grace origin n s"
  shows "if \<exists>k m. k \<noteq> h \<and> mem_get_node s k = Some m \<and> content_hash m = content_hash n
     then mem_content s' = mem_content s \<and> map_of (mem_tombs s') = map_of (mem_tombs s)
     else mem_get_content s' (content_hash n) = None \<and>
       (\<exists>ts. ts_node_hash ts = h \<and> ts_originator_id ts = origin \<and>
          (\<forall>u. snd (mem_get_tombstone u (content_hash n) s') =
             (if u > now + seconds grace then None else Some ts)))"
proof -
  let ?sh = "\<exists>k m. k \<noteq> h \<and> mem_get_node s k = Some m \<and> content_hash m = content_hash n"
  have n: "a_nodes (mem_abs s) h = Some n" using assms(2) by (simp add: mem_abs_def mem_get_node_def)
  note sp = mem.purge_spec [OF assms(1) n assms(3), of origin, folded s'_def]
  show ?thesis
  proof (cases ?sh)
    case True
    then show ?thesis using sp(3,4) by (simp add: mem_abs_def mem_get_node_def)
  next
    case False
    then have f: "\<not> (\<exists>k m. k \<noteq> h \<and> a_nodes (mem_abs s) k = Some m \<and> content_hash m = content_hash n)"
      by (simp add: mem_abs_def mem_get_node_def)
    obtain ts where ts: "map_of (mem_tombs s') (content_hash n) = Some ts" "ts_node_hash ts = h"
      "ts_originator_id ts = origin" "\<forall>u. tombstone_expired u ts \<longleftrightarrow> u > now + seconds grace"
      using sp(5) [OF f] by (auto simp: mem_abs_def)
    have "mem_content s' (content_hash n) = None" using sp(3) unfolding if_not_P [OF f] by (simp add: mem_abs_def)
    moreover from ts
    have "snd (mem_get_tombstone u (content_hash n) s') =
        (if u > now + seconds grace then None else Some ts)" for u
      by (simp add: mem_get_tombstone_def)
    ultimately show ?thesis using ts False by (auto simp: mem_get_content_def)
  qed
qed

lemma children_owned: "\<forall>c \<in> set (children_to_delete s pid n). owner_id c = pid"
  by (simp add: children_to_delete_def)

lemma process_token_cases:
  assumes "process_token C now rnd t p w = (w', r)"
  obtains (reject) "stores w' = stores w" "keys w' = keys w" "r \<noteq> Inr True"
  | (deleted) n orig sig where "mem_get_node (storage p) (tok_node_hash t) = Some n"
      "find_peer w (originator_id t) = Some orig" "fromhex (tok_signature t) = Some sig"
      "verify_signature C (peer_verify_key C orig) (token_signing_data t) sig"
      "snd (admit (token_validity_seconds w) now t (get_token_cache now (peer_id p) w)) = Inr ()"
      "stores w' = (stores w)(peer_id p := map_option
         (purge mem_backend now (tombstone_grace_seconds w) (originator_id t) n) (stores w (peer_id p)))"
      "keys w' = keys w" "r = Inr True"
proof -
  obtain c' a where ad: "admit (token_validity_seconds w) now t (get_token_cache now (peer_id p) w) = (c', a)"
    by fastforce
  let ?w1 = "set_cache (peer_id p) c' w"
  show ?thesis
  proof (cases a)
    case (Inl e)
    with ad assms have "stores w' = stores w" "keys w' = keys w" "r \<noteq> Inr True"
      by (cases e; auto simp: process_token_def Let_def node_simps)+
    then show ?thesis by (rule reject)
  next
    case (Inr u)
    show ?thesis
    proof (cases "\<exists>orig sig n. find_peer ?w1 (originator_id t) = Some orig \<and> fromhex (tok_signature t) = Some sig \<and>
        verify_signature C (peer_verify_key C orig) (token_signing_data t) sig \<and>
        mem_get_node (storage p) (tok_node_hash t) = Some n")
      case False
      with Inr ad assms have "stores w' = stores w" "keys w' = keys w" "r \<noteq> Inr True"
        by (auto simp: process_token_def Let_def node_simps split: option.splits if_splits)
      then show ?thesis by (rule reject)
    next
      case True
      then obtain orig sig n where o: "find_peer ?w1 (originator_id t) = Some orig"
        "fromhex (tok_signature t) = Some sig"
        "verify_signature C (peer_verify_key C orig) (token_signing_data t) sig"
        "mem_get_node (storage p) (tok_node_hash t) = Some n" by blast
      define w4 where "w4 = notify (DeletionRequested (peer_id p) (tok_node_hash t) (originator_id t))
        (log_event now ''DELETE_SUCCESS'' (peer_id p) (''Node: '' @ node_hash n) ''''
          (upd_storage (peer_id p) (purge mem_backend now (tombstone_grace_seconds w) (originator_id t) n) ?w1))"
      obtain w5 r5 where i: "initiate_all C now rnd (children_to_delete (storage p) (peer_id p) n) p w4 = (w5, r5)"
        by fastforce
      note f = initiate_all_frame [OF i children_owned]
      have "w' = w5 \<and> r = Inr True"
        using assms ad Inr o f i by (auto simp: process_token_def Let_def w4_def)
      with f o Inr ad show ?thesis
        by (intro deleted [of n orig sig]) (simp_all add: w4_def node_simps find_peer_def)
    qed
  qed
qed

lemma process_token_errors:
  assumes "process_token C now rnd t p w = (w', r)"
  shows "(r = Inl ReplayAttackError \<longleftrightarrow>
       snd (is_processed now (token_hash t) (get_token_cache now (peer_id p) w))) \<and>
    (r = Inl TokenExpiredError \<longleftrightarrow>
       \<not> snd (is_processed now (token_hash t) (get_token_cache now (peer_id p) w)) \<and>
       token_expired (token_validity_seconds w) now t)"
proof -
  obtain c seen where i: "is_processed now (token_hash t) (get_token_cache now (peer_id p) w) = (c, seen)" by fastforce
  have k: "initiate_all C now rnd (children_to_delete s (peer_id p) n) p v = (v', x) \<Longrightarrow> x = Inr ()" for s n v v' x
    using initiate_all_frame [OF _ children_owned] by blast
  show ?thesis
  proof (cases "seen \<or> token_expired (token_validity_seconds w) now t")
    case True
    then have "admit (token_validity_seconds w) now t (get_token_cache now (peer_id p) w) =
        (c, Inl (if seen then ReplayAttackError else TokenExpiredError))"
      using i by (auto simp: admit_def)
    with True assms i show ?thesis by (cases seen) (auto simp: process_token_def Let_def)
  next
    case False
    then have "admit (token_validity_seconds w) now t (get_token_cache now (peer_id p) w) =
        (mark_processed now (token_hash t) c, Inr ())"
      using i by (simp add: admit_def)
    then have "r \<noteq> Inl ReplayAttackError \<and> r \<noteq> Inl TokenExpiredError"
      using assms
      by (auto simp: process_token_def Let_def dest!: k split: option.splits if_splits prod.splits sum.splits)
    with False i show ?thesis by simp
  qed
qed

section \<open>Steps of the network\<close>

lemma mem_content_inv:
  "mem_inv s \<Longrightarrow> mem_inv (mem_add_content h c s)" "mem_inv s \<Longrightarrow> mem_inv (mem_remove_content h s)"
  "mem_inv s \<Longrightarrow> mem_inv (mem_add_tombstone t s)"
  by (simp_all add: mem_inv_def mem_add_content_def mem_remove_content_def mem_add_tombstone_def distinct_dict_set)

lemma mem_purge_inv: "mem_inv s \<Longrightarrow> mem_inv (purge mem_backend now grace origin n s)"
  by (simp add: purge_def mem_backend_def Let_def mem_content_inv mem_remove_node_inv)

lemma store_received_inv: "mem_inv s \<Longrightarrow> mem_inv (store_received n c s)"
  by (auto simp: store_received_def Let_def mem_add_node_inv mem_content_inv split: option.splits prod.splits)

lemma mem_get_add_node: "mem_get_node (mem_add_node n s) h = (if h = node_hash n then Some n else mem_get_node s h)"
  by (simp add: mem_get_node_def mem_add_node_def Let_def)

lemma mem_get_add_content [simp]: "mem_get_node (mem_add_content k c s) h = mem_get_node s h"
  by (simp add: mem_get_node_def mem_add_content_def)

lemma store_received_keeps: "mem_get_node s h \<noteq> None \<Longrightarrow> mem_get_node (store_received n c s) h \<noteq> None"
  by (auto simp: store_received_def Let_def mem_get_add_node split: option.splits prod.splits)

definition net_inv :: "world \<Rightarrow> bool" where
  "net_inv w \<longleftrightarrow> (\<forall>pid s. stores w pid = Some s \<longrightarrow> mem_inv s) \<and>
     (\<forall>pid k. keys w pid = Some k \<longrightarrow> fst k = pid)"

text \<open>
  A node leaves a peer's storage only through a token, in a message handed to that peer, that names
  the node and verifies under the key its originator is registered with. \<open>ms\<close> are the messages
  handed over on the way from \<open>w\<close> to \<open>w'\<close>, each with the peer that got it.
\<close>

definition token_for :: "crypto \<Rightarrow> world \<Rightarrow> string \<Rightarrow> deletion_token \<Rightarrow> bool" where
  "token_for C w h t \<longleftrightarrow> tok_node_hash t = h \<and>
     (\<exists>k sig. keys w (originator_id t) = Some k \<and> fromhex (tok_signature t) = Some sig \<and>
        verify_signature C (ed_verify_key C (snd k)) (token_signing_data t) sig)"

definition carries :: "crypto \<Rightarrow> world \<Rightarrow> string \<Rightarrow> message \<Rightarrow> bool" where
  "carries C w h m \<longleftrightarrow> message_type m = ''deletion_token'' \<and>
     (\<exists>t. token_from_dict (content m) = Inr t \<and> token_for C w h t)"

definition removals_signed :: "crypto \<Rightarrow> (string \<times> message) set \<Rightarrow> world \<Rightarrow> world \<Rightarrow> bool" where
  "removals_signed C ms w w' \<longleftrightarrow>
     (\<forall>pid s s' h. stores w pid = Some s \<and> stores w' pid = Some s' \<and>
        mem_get_node s h \<noteq> None \<and> mem_get_node s' h = None \<longrightarrow> (\<exists>m. (pid, m) \<in> ms \<and> carries C w h m))"

lemma dom_stores_keys: "dom (stores w) = dom (keys w)"
  by (auto simp: stores_def keys_def dom_def)

lemma removals_refl: "stores w' = stores w \<Longrightarrow> removals_signed C ms w w'"
  by (auto simp: removals_signed_def)

lemma removals_trans:
  assumes "removals_signed C ms w w1" "removals_signed C ms' w1 w2" "keys w1 = keys w"
  shows "removals_signed C (ms \<union> ms') w w2"
  unfolding removals_signed_def
proof (intro allI impI, elim conjE)
  fix pid s s2 h
  assume h: "stores w pid = Some s" "stores w2 pid = Some s2" "mem_get_node s h \<noteq> None" "mem_get_node s2 h = None"
  then have "pid \<in> dom (stores w1)" using dom_stores_keys assms(3) by (metis domI)
  then obtain s1 where s1: "stores w1 pid = Some s1" by blast
  show "\<exists>m. (pid, m) \<in> ms \<union> ms' \<and> carries C w h m"
  proof (cases "mem_get_node s1 h = None")
    case True
    with h s1 assms(1) show ?thesis unfolding removals_signed_def by blast
  next
    case False
    with h s1 assms(2) have "\<exists>m. (pid, m) \<in> ms' \<and> carries C w1 h m" unfolding removals_signed_def by blast
    with assms(3) show ?thesis by (auto simp: carries_def token_for_def)
  qed
qed

lemma removals_mono: "removals_signed C ms w w' \<Longrightarrow> ms \<subseteq> ms' \<Longrightarrow> removals_signed C ms' w w'"
  unfolding removals_signed_def by (meson subsetD)

lemma process_token_safe:
  assumes "process_token C now rnd t p w = (w', r)" "net_inv w" "peers w pid = Some p"
    and "message_type m = ''deletion_token''" "token_from_dict (content m) = Inr t"
  shows "net_inv w'" "keys w' = keys w" "removals_signed C {(pid, m)} w w'"
proof -
  have pid: "peer_id p = pid" and st: "stores w pid = Some (storage p)" and inv: "mem_inv (storage p)"
    using assms(2,3) by (auto simp: net_inv_def stores_def keys_def)
  have "net_inv w' \<and> keys w' = keys w \<and> removals_signed C {(pid, m)} w w'"
    using assms(1)
  proof (cases rule: process_token_cases)
    case reject
    with assms(2) show ?thesis by (simp add: net_inv_def removals_refl)
  next
    case (deleted n orig sig)
    let ?f = "purge mem_backend now (tombstone_grace_seconds w) (originator_id t) n"
    have h: "node_hash n = tok_node_hash t"
      using inv deleted(1) by (auto simp: mem_inv_def mem_get_node_def)
    have s': "stores w' = (stores w)(pid \<mapsto> ?f (storage p))" using deleted(6) pid st by simp
    have keep: "mem_get_node (?f (storage p)) k = mem_get_node (storage p) k" if "k \<noteq> tok_node_hash t" for k
      using that h
      by (auto simp: purge_def mem_backend_def Let_def mem_remove_content_def mem_add_tombstone_def
          mem_get_node_def mem_remove_node_def split: option.splits)
    have tok: "carries C w (tok_node_hash t) m"
      using deleted(2-4) assms(4,5) by (auto simp: carries_def token_for_def keys_def find_peer_def peer_verify_key_def)
    have "removals_signed C {(pid, m)} w w'"
      unfolding removals_signed_def using keep tok st by (auto simp: s' split: if_splits) (metis option.discI)
    with s' deleted(7) assms(2) mem_purge_inv [OF inv] show ?thesis
      by (auto simp: net_inv_def split: if_splits)
  qed
  then show "net_inv w'" "keys w' = keys w" "removals_signed C {(pid, m)} w w'" by simp_all
qed

lemma upd_storage_safe:
  assumes "net_inv w" "\<And>s. mem_inv s \<Longrightarrow> mem_inv (f s)"
    "\<And>s h. mem_get_node s h \<noteq> None \<Longrightarrow> mem_get_node (f s) h \<noteq> None"
  shows "net_inv (upd_storage pid f w) \<and> keys (upd_storage pid f w) = keys w \<and>
    removals_signed C ms w (upd_storage pid f w)"
proof (intro conjI)
  show "net_inv (upd_storage pid f w)" "keys (upd_storage pid f w) = keys w"
    using assms(1,2) by (auto simp: net_inv_def node_simps split: if_splits)
  show "removals_signed C ms w (upd_storage pid f w)"
    unfolding removals_signed_def node_simps
  proof (intro allI impI, elim conjE)
    fix q s s' h
    assume "stores w q = Some s" "((stores w)(pid := map_option f (stores w pid))) q = Some s'"
      "mem_get_node s h \<noteq> None" "mem_get_node s' h = None"
    then show "\<exists>m. (q, m) \<in> ms \<and> carries C w h m" using assms(3) [of s h] by (cases "q = pid") auto
  qed
qed

lemma receive_message_safe:
  assumes "receive_message C now rnd m pid w = (w', r)" "net_inv w"
  shows "net_inv w' \<and> keys w' = keys w \<and> removals_signed C {(pid, m)} w w'"
proof (cases "peers w pid")
  case None
  with assms show ?thesis by (auto simp: receive_message_def find_peer_def removals_refl)
next
  case (Some p)
  have tok: "net_inv w1 \<and> keys w1 = keys w \<and> removals_signed C {(pid, m)} w w1"
    if "message_type m = ''deletion_token''" "token_from_dict (content m) = Inr t"
      "process_token C now rnd t p w = (w1, b)" for t w1 b
    using process_token_safe [OF that(3) assms(2) Some that(1,2)] by simp
  have n: "net_inv (upd_storage pid (mem_add_node n) w) \<and> keys (upd_storage pid (mem_add_node n) w) = keys w \<and>
      removals_signed C {(pid, m)} w (upd_storage pid (mem_add_node n) w)" for n
    by (rule upd_storage_safe [OF assms(2)]) (simp_all add: mem_add_node_inv mem_get_add_node)
  have sr: "net_inv (upd_storage pid (store_received n c) w) \<and> keys (upd_storage pid (store_received n c) w) = keys w \<and>
      removals_signed C {(pid, m)} w (upd_storage pid (store_received n c) w)" for n c
    by (rule upd_storage_safe [OF assms(2)]) (rule store_received_inv store_received_keeps, assumption)+
  show ?thesis using assms tok n sr Some
    by (auto simp: receive_message_def find_peer_def removals_refl split: if_splits sum.splits prod.splits)
qed

definition queued :: "world \<Rightarrow> string \<Rightarrow> (string \<times> message) set" where
  "queued w pid = (case peers w pid of None \<Rightarrow> {} | Some p \<Rightarrow> (\<lambda>(ts, m). (pid, m)) ` set (offline_queue p))"

lemma drain_safe:
  "drain C now rnd ttl pid q k w = (w', r) \<Longrightarrow> net_inv w \<Longrightarrow>
   net_inv w' \<and> keys w' = keys w \<and> removals_signed C ((\<lambda>(ts, m). (pid, m)) ` set q) w w'"
proof (induction q arbitrary: k w)
  case Nil
  then show ?case by (auto simp: removals_refl)
next
  case (Cons x q)
  obtain ts m where x: "x = (ts, m)" by (cases x)
  obtain w1 r1 where rm: "receive_message C now rnd m pid w = (w1, r1)" by fastforce
  note safe = receive_message_safe [OF rm Cons.prems(2)]
  show ?case
  proof (cases "now - ts \<le> seconds (3600 * ttl)")
    case True
    show ?thesis
    proof (cases r1)
      case (Inl e)
      with True Cons.prems x rm safe show ?thesis by (auto intro: removals_mono)
    next
      case (Inr u)
      with True Cons.prems(1) x rm have "drain C now rnd ttl pid q (k + 1) w1 = (w', r)" by simp
      with Cons.IH safe have d: "net_inv w'" "keys w' = keys w1"
        "removals_signed C ((\<lambda>(ts, m). (pid, m)) ` set q) w1 w'" by blast+
      have "net_inv w' \<and> keys w' = keys w" using d safe by simp
      moreover have "removals_signed C ({(pid, m)} \<union> (\<lambda>(ts, m). (pid, m)) ` set q) w w'"
        using removals_trans [OF _ d(3)] safe by blast
      ultimately show ?thesis using x by simp
    qed
  next
    case False
    with Cons.prems x have "drain C now rnd ttl pid q k w = (w', r)" by simp
    from Cons.IH [OF this Cons.prems(2)] show ?thesis by (auto intro: removals_mono)
  qed
qed

lemma same_stores_later:
  assumes "stores w3 = stores w2" "keys w3 = keys w2" "keys w2 = keys w"
    and "net_inv w2 \<and> keys w2 = keys w \<and> removals_signed C ms w w2"
  shows "net_inv w3 \<and> keys w3 = keys w \<and> removals_signed C ms w w3"
proof -
  have "removals_signed C ms w w3 = removals_signed C ms w w2" "net_inv w3 = net_inv w2"
    using assms(1,2) by (simp_all add: net_inv_def removals_signed_def)
  with assms show ?thesis by simp
qed

lemma go_online_safe:
  assumes "go_online C now rnd pid w = (w', r)" "net_inv w"
  shows "net_inv w' \<and> keys w' = keys w \<and> removals_signed C (queued w pid) w w'"
proof (cases "peers w pid")
  case None
  with assms show ?thesis by (auto simp: go_online_def find_peer_def removals_refl)
next
  case (Some p)
  define w1 where "w1 = notify (PeerStatusChanged pid True) (upd_peer pid (\<lambda>p. p\<lparr>online := True\<rparr>) w)"
  have f1: "stores w1 = stores w" "keys w1 = keys w"
    unfolding w1_def frame_simps by (rule upd_peer_frame; simp)+
  then have i1: "net_inv w1" using assms(2) by (simp add: net_inv_def)
  obtain w2 r2 where d: "drain C now rnd (message_ttl_hours p) pid (offline_queue p) 0 w1 = (w2, r2)" by fastforce
  have q: "queued w pid = (\<lambda>(ts, m). (pid, m)) ` set (offline_queue p)" by (simp add: queued_def Some)
  note safe = drain_safe [OF d i1, folded q]
  then have s2: "net_inv w2 \<and> keys w2 = keys w \<and> removals_signed C (queued w pid) w w2"
    using f1 removals_trans [OF removals_refl [OF f1(1), of C "{}"]] by auto
  let ?w3 = "\<lambda>k. notify (QueueProcessed pid k) (upd_peer pid (\<lambda>p. p\<lparr>offline_queue := []\<rparr>) w2)"
  have f3: "stores (?w3 k) = stores w2" "keys (?w3 k) = keys w2" for k
    unfolding frame_simps by (rule upd_peer_frame; simp)+
  then have "net_inv (?w3 k) \<and> keys (?w3 k) = keys w \<and> removals_signed C (queued w pid) w (?w3 k)" for k
    by (intro same_stores_later [OF f3 s2 [THEN conjunct2, THEN conjunct1] s2])
  with s2 assms(1) Some d show ?thesis
    by (auto simp: go_online_def find_peer_def w1_def [symmetric] Let_def split: sum.splits)
qed

text \<open>
  One step: a task in flight is delivered (any of them, and whether or not its recipient is
  still online), or a peer acts. \<open>Send\<close> lets a peer send any message at all, so the relation
  covers peers that do not follow the code. A step is labelled with the messages it hands over.
\<close>

inductive net_step :: "crypto \<Rightarrow> world \<Rightarrow> (string \<times> message) set \<Rightarrow> world \<Rightarrow> bool" for C where
  Deliver: "inflight w = xs @ m # ys \<Longrightarrow>
     receive_message C now rnd m (recipient_id m) (w\<lparr>inflight := xs @ ys\<rparr>) = (w', r) \<Longrightarrow>
     net_step C w {(recipient_id m, m)} w'"
| Root: "peers w pid = Some p \<Longrightarrow> create_coc_root C now p c rs = (s', n) \<Longrightarrow>
     net_step C w {} (upd_storage pid (\<lambda>_. s') w)"
| Forward: "peers w pid = Some p \<Longrightarrow> mem_get_node (storage p) h = Some parent \<Longrightarrow>
     forward_coc_message C now p parent rs = (s', n, parent') \<Longrightarrow> net_step C w {} (upd_storage pid (\<lambda>_. s') w)"
| Send: "peers w pid = Some p \<Longrightarrow> net_step C w {} (send_message now p rid ty c w)"
| Delete: "peers w pid = Some p \<Longrightarrow> initiate_deletion C now nce n p w = (w', r) \<Longrightarrow> net_step C w {} w'"
| Offline: "net_step C w {} (go_offline now pid w)"
| Online: "go_online C now rnd pid w = (w', r) \<Longrightarrow> net_step C w (queued w pid) w'"
| Clear: "net_step C w {} (clear_token_cache q w)"

inductive reachable :: "crypto \<Rightarrow> world \<Rightarrow> (string \<times> message) set \<Rightarrow> world \<Rightarrow> bool" for C w0 where
  reachable_init: "reachable C w0 {} w0"
| reachable_step: "reachable C w0 ms w \<Longrightarrow> net_step C w ms' w' \<Longrightarrow> reachable C w0 (ms \<union> ms') w'"

inductive_cases net_stepE: "net_step C w ms w'"

lemma same_stores_safe:
  "stores w' = stores w \<Longrightarrow> keys w' = keys w \<Longrightarrow> net_inv w \<Longrightarrow>
   net_inv w' \<and> keys w' = keys w \<and> removals_signed C ms w w'"
  by (simp add: net_inv_def removals_refl)

lemma set_storage_safe:
  assumes "net_inv w" "peers w pid = Some p" "mem_inv s'"
    "\<And>h. mem_get_node (storage p) h \<noteq> None \<Longrightarrow> mem_get_node s' h \<noteq> None"
  shows "net_inv (upd_storage pid (\<lambda>_. s') w) \<and> keys (upd_storage pid (\<lambda>_. s') w) = keys w \<and>
    removals_signed C ms w (upd_storage pid (\<lambda>_. s') w)"
proof (intro conjI)
  have st: "stores w pid = Some (storage p)" using assms(2) by (simp add: stores_def)
  show "net_inv (upd_storage pid (\<lambda>_. s') w)" "keys (upd_storage pid (\<lambda>_. s') w) = keys w"
    using assms(1,3) by (auto simp: net_inv_def node_simps split: if_splits)
  show "removals_signed C ms w (upd_storage pid (\<lambda>_. s') w)"
    unfolding removals_signed_def node_simps
  proof (intro allI impI, elim conjE)
    fix q s t h
    assume "stores w q = Some s" "((stores w)(pid := map_option (\<lambda>_. s') (stores w pid))) q = Some t"
      "mem_get_node s h \<noteq> None" "mem_get_node t h = None"
    then show "\<exists>m. (q, m) \<in> ms \<and> carries C w h m" using assms(4) [of h] st by (cases "q = pid") auto
  qed
qed

lemma net_step_safe:
  assumes "net_step C w ms w'" "net_inv w"
  shows "net_inv w' \<and> keys w' = keys w \<and> removals_signed C ms w w'"
  using assms(1)
proof cases
  case (Deliver xs m ys now rnd r)
  have f: "stores (w\<lparr>inflight := xs @ ys\<rparr>) = stores w" "keys (w\<lparr>inflight := xs @ ys\<rparr>) = keys w"
    by (simp_all add: stores_def keys_def fun_eq_iff)
  then have "net_inv (w\<lparr>inflight := xs @ ys\<rparr>)" using assms(2) by (simp add: net_inv_def)
  from receive_message_safe [OF Deliver(3) this] f show ?thesis
    using Deliver(1) by (simp add: removals_signed_def carries_def token_for_def)
next
  case (Root pid p now c rs s' n)
  have "mem_inv (storage p)" using assms(2) Root(3) by (auto simp: net_inv_def stores_def)
  with Root show ?thesis unfolding Root(1,2)
    by (intro set_storage_safe [OF assms(2)])
       (auto simp: create_coc_root_def Let_def mem_add_node_inv mem_content_inv mem_get_add_node)
next
  case (Forward pid p h parent now rs s' n parent')
  have "mem_inv (storage p)" using assms(2) Forward(3) by (auto simp: net_inv_def stores_def)
  with Forward show ?thesis unfolding Forward(1,2)
    by (intro set_storage_safe [OF assms(2)])
       (auto simp: forward_coc_message_def Let_def mem_add_node_inv mem_get_add_node split: prod.splits)
next
  case (Send pid p now rid ty c)
  then show ?thesis using assms(2) by (intro same_stores_safe) (simp_all add: node_simps)
next
  case (Delete pid p now nce n r)
  then show ?thesis using assms(2) by (intro same_stores_safe) (simp_all add: initiate_frame)
next
  case (Offline now pid)
  have "stores w' = stores w" "keys w' = keys w"
    unfolding Offline(2) go_offline_def frame_simps by (rule upd_peer_frame; simp)+
  then show ?thesis using assms(2) by (intro same_stores_safe) simp_all
next
  case (Online now rnd pid r)
  then show ?thesis using go_online_safe assms(2) by blast
next
  case (Clear q)
  have "stores w' = stores w" "keys w' = keys w"
    by (auto simp: Clear(2) clear_token_cache_def stores_def keys_def fun_eq_iff split: option.splits)
  then show ?thesis using assms(2) by (intro same_stores_safe) simp_all
qed

lemma reachable_safe:
  "reachable C w0 ms w \<Longrightarrow> net_inv w0 \<Longrightarrow> net_inv w \<and> keys w = keys w0 \<and> removals_signed C ms w0 w"
proof (induction rule: reachable.induct)
  case reachable_init
  then show ?case by (simp add: removals_refl)
next
  case (reachable_step ms w ms' w')
  then show ?case using net_step_safe [of C w ms' w'] removals_trans by metis
qed

section \<open>Properties\<close>

definition peer_named :: "string \<Rightarrow> bytes \<Rightarrow> peer" where
  "peer_named pid seed = (new_peer toy_crypto 0 pid seed 24)\<lparr>in_network := True\<rparr>"

text \<open>Bob holds Alice's node; Mallory is registered too.\<close>

definition alice_node :: coc_node where
  "alice_node = new_node toy_crypto 0 ''c1'' ''alice'' [1] [''bob''] None 0 NODE_SCHEMA_VERSION"

definition sample_world :: world where
  "sample_world = \<lparr>peers = [''alice'' \<mapsto> peer_named ''alice'' [1], ''mallory'' \<mapsto> peer_named ''mallory'' [2],
       ''bob'' \<mapsto> (peer_named ''bob'' [3])\<lparr>storage := mem_add_content ''c1'' [104] (mem_add_node alice_node mem_empty)\<rparr>],
     inflight = [], audit = \<lparr>log_file = None, last_hash = ''''\<rparr>, caches = Map.empty,
     token_validity_seconds = 300, tombstone_grace_seconds = 300, notices = []\<rparr>"

lemma mem_empty_inv: "mem_inv mem_empty"
  using mem.empty_law by simp

lemma sample_world_inv: "net_inv sample_world"
  by (auto simp: net_inv_def sample_world_def stores_def keys_def peer_named_def new_peer_def
      mem_empty_inv mem_add_node_inv mem_content_inv split: if_splits)



text \<open>A token Mallory signs for Alice's node, and the message that carries it to Bob.\<close>

definition mallory_token :: deletion_token where
  "mallory_token = sign_token toy_crypto [2]
     \<lparr>tok_node_hash = node_hash alice_node, originator_id = ''mallory'', nonce = ''00'',
      tok_timestamp = isoformat 0, tok_signature = ''''\<rparr>"

lemma fresh_cache_admits:
  assumes "caches w pid = None" "dt_ok i" "tok_timestamp t = isoformat i" "now - i \<le> seconds (token_validity_seconds w)"
  shows "\<exists>c. admit (token_validity_seconds w) now t (get_token_cache now pid w) = (c, Inr ())"
  using assms by (simp add: admit_def is_processed_def get_token_cache_def new_cache_def maybe_cleanup_def
      token_expired_def Let_def)

lemma process_token_accepts:
  assumes "sig_correct C" "net_inv w" "peers w pid = Some p" "peers w (originator_id t) = Some orig"
    and "mem_get_node (storage p) (tok_node_hash t) = Some n"
    and "tok_signature t = bytes_hex (sign_message C (signing_key orig) (token_signing_data t))"
    and "snd (admit (token_validity_seconds w) now t (get_token_cache now pid w)) = Inr ()"
  shows "\<exists>w'. process_token C now rnd t p w = (w', Inr True)"
proof -
  obtain w' r where pt: "process_token C now rnd t p w = (w', r)" by fastforce
  have pid: "peer_id p = pid" using assms(2,3) by (auto simp: net_inv_def keys_def)
  obtain c' where ad: "admit (token_validity_seconds w) now t (get_token_cache now (peer_id p) w) = (c', Inr ())"
    using assms(7) pid by (metis prod.collapse)
  have v: "verify_signature C (peer_verify_key C orig) (token_signing_data t)
      (sign_message C (signing_key orig) (token_signing_data t))"
    using verify_sign_message [OF assms(1)] by (simp add: peer_verify_key_def generate_keypair_def)
  obtain w5 r5 where "initiate_all C now rnd (children_to_delete (storage p) (peer_id p) n) p
      (notify (DeletionRequested (peer_id p) (tok_node_hash t) (originator_id t))
        (log_event now ''DELETE_SUCCESS'' (peer_id p) (''Node: '' @ node_hash n) ''''
          (upd_storage (peer_id p) (purge mem_backend now (tombstone_grace_seconds w) (originator_id t) n)
             (set_cache (peer_id p) c' w)))) = (w5, r5)" by fastforce
  moreover from this have "r5 = Inr ()" using initiate_all_frame children_owned by blast
  ultimately show ?thesis
    using ad assms(4-6) v by (auto simp: process_token_def Let_def find_peer_def frame_simps)
qed

lemma registered_token_deletes:
  assumes "sig_correct C" "net_inv w" "peers w pid = Some p" "peers w (originator_id t) = Some orig"
    and "mem_get_node (storage p) (tok_node_hash t) = Some n"
    and "tok_signature t = bytes_hex (sign_message C (signing_key orig) (token_signing_data t))"
    and "caches w pid = None" "dt_ok i" "tok_timestamp t = isoformat i"
    and "now - i \<le> seconds (token_validity_seconds w)" "dt_ok (now + seconds (tombstone_grace_seconds w))"
  shows "\<exists>w' q. process_token C now rnd t p w = (w', Inr True) \<and> peers w' pid = Some q \<and>
    mem_get_node (storage q) (tok_node_hash t) = None"
proof -
  have "snd (admit (token_validity_seconds w) now t (get_token_cache now pid w)) = Inr ()"
    using fresh_cache_admits [OF assms(7-10)] by auto
  then obtain w' where w': "process_token C now rnd t p w = (w', Inr True)"
    using process_token_accepts [OF assms(1-6)] by blast
  have inv: "mem_inv (storage p)" and pid: "peer_id p = pid"
    using assms(2,3) by (auto simp: net_inv_def stores_def keys_def)
  from w' have "\<exists>s. stores w' pid = Some s \<and> mem_get_node s (tok_node_hash t) = None"
  proof (cases rule: process_token_cases)
    case (deleted n' orig' sig')
    then show ?thesis
      using assms(3) pid mem_purge(2) [OF inv deleted(1) assms(11)] by (simp add: stores_def)
  qed simp
  with w' show ?thesis by (auto simp: stores_def)
qed

lemma sample_world_sel:
  "peers sample_world ''mallory'' = Some (peer_named ''mallory'' [2])"
  "peers sample_world ''bob'' = Some ((peer_named ''bob'' [3])
     \<lparr>storage := mem_add_content ''c1'' [104] (mem_add_node alice_node mem_empty)\<rparr>)"
  "caches sample_world = Map.empty" "token_validity_seconds sample_world = 300"
  "tombstone_grace_seconds sample_world = 300"
  by (simp_all add: sample_world_def)

text \<open>C10: A node never disappears from a peer's storage without a signed deletion token: between any
  state and any later one, if a peer no longer has a node it had, then a message was handed to that
  very peer on the way whose token names this node and verifies under the key its originator is
  registered with.\<close>
theorem removal_needs_signed_token:
  assumes "reachable C w0 ms w" "net_inv w0"
    and "peers w0 pid = Some p" "peers w pid = Some q"
    and "mem_get_node (storage p) h \<noteq> None" "mem_get_node (storage q) h = None"
  shows "\<exists>m t orig sig. (pid, m) \<in> ms \<and> message_type m = ''deletion_token'' \<and>
    token_from_dict (content m) = Inr t \<and> tok_node_hash t = h \<and>
    peers w0 (originator_id t) = Some orig \<and> fromhex (tok_signature t) = Some sig \<and>
    verify_signature C (peer_verify_key C orig) (token_signing_data t) sig"
proof -
  have "removals_signed C ms w0 w" using reachable_safe [OF assms(1,2)] by simp
  moreover have "stores w0 pid = Some (storage p)" "stores w pid = Some (storage q)"
    using assms(3,4) by (simp_all add: stores_def)
  ultimately have "\<exists>m. (pid, m) \<in> ms \<and> carries C w0 h m"
    unfolding removals_signed_def using assms(5,6) by blast
  then show ?thesis by (auto simp: carries_def token_for_def keys_def peer_verify_key_def)
qed

lemma bob_obeys_mallory:
  "\<exists>w' q. process_token toy_crypto 0 id mallory_token (the (peers sample_world ''bob'')) sample_world = (w', Inr True) \<and>
     peers w' ''bob'' = Some q \<and> mem_get_node (storage q) (node_hash alice_node) = None"
proof -
  have "dt_ok 0" "dt_ok (0 + seconds 300)" by (simp_all add: dt_ok_def dt_min_def dt_max_def seconds_def)
  moreover have "mem_get_node (storage (the (peers sample_world ''bob''))) (node_hash alice_node) = Some alice_node"
    by (simp add: sample_world_sel mem_get_add_node)
  ultimately show ?thesis
    using registered_token_deletes [of toy_crypto sample_world "''bob''" "the (peers sample_world ''bob'')"
        mallory_token "peer_named ''mallory'' [2]" alice_node 0 0 id] sample_world_inv
    by (simp add: sample_world_sel mallory_token_def sign_token_def token_signing_data_def
        peer_named_def new_peer_def generate_keypair_def seconds_def)
qed

definition mallory_message :: message where
  "mallory_message = \<lparr>sender_id = ''mallory'', recipient_id = ''bob'', message_type = ''deletion_token'',
     content = token_to_dict mallory_token\<rparr>"

theorem removal_needs_signed_token_witness:
  "\<exists>t orig sig. token_from_dict (content mallory_message) = Inr t \<and> tok_node_hash t = node_hash alice_node \<and>
    peers sample_world (originator_id t) = Some orig \<and> fromhex (tok_signature t) = Some sig \<and>
    verify_signature toy_crypto (peer_verify_key toy_crypto orig) (token_signing_data t) sig"
proof -
  let ?w = "sample_world\<lparr>inflight := [mallory_message]\<rparr>" and ?bob = "the (peers sample_world ''bob'')"
  have inv: "net_inv ?w" using sample_world_inv by (simp add: net_inv_def stores_def keys_def)
  have bob: "peers sample_world ''bob'' = Some ?bob" by (simp add: sample_world_sel)
  have has: "mem_get_node (storage ?bob) (node_hash alice_node) = Some alice_node"
    by (simp add: sample_world_sel mem_get_add_node)
  obtain w' q where w': "process_token toy_crypto 0 id mallory_token ?bob sample_world = (w', Inr True)"
    "peers w' ''bob'' = Some q" "mem_get_node (storage q) (node_hash alice_node) = None"
    using bob_obeys_mallory by blast
  have "receive_message toy_crypto 0 id mallory_message ''bob'' sample_world = (w', Inr ())"
    unfolding receive_message_def find_peer_def using w'(1)
    by (subst bob) (simp add: mallory_message_def token_from_to_dict)
  then have "net_step toy_crypto ?w {(''bob'', mallory_message)} w'"
    using net_step.Deliver [of ?w "[]" mallory_message "[]" toy_crypto 0 id w' "Inr ()"]
    by (auto simp: mallory_message_def sample_world_def)
  then have r: "reachable toy_crypto ?w {(''bob'', mallory_message)} w'"
    using reachable_step [OF reachable_init] by fastforce
  show ?thesis
    using removal_needs_signed_token [OF r inv, of "''bob''" ?bob q "node_hash alice_node"] has w'(2,3) bob by simp
qed



text \<open>What an accepted token does to the storage of the peer that receives it: the node it names
  is gone and every other node is still there; its content is gone exactly when no other node of the
  storage has the same content hash, and then a tombstone for it is active until the grace period
  is over.\<close>
lemma accepted_token_effect:
  assumes "process_token C now rnd t p w = (w', Inr True)" "net_inv w" "peers w pid = Some p"
    and "peers w' pid = Some q" "dt_ok (now + seconds (tombstone_grace_seconds w))"
  shows "\<exists>n. mem_get_node (storage p) (tok_node_hash t) = Some n \<and>
    (\<forall>k. mem_get_node (storage q) k = (if k = tok_node_hash t then None else mem_get_node (storage p) k)) \<and>
    (if \<exists>k m. k \<noteq> tok_node_hash t \<and> mem_get_node (storage p) k = Some m \<and> content_hash m = content_hash n
     then mem_content (storage q) = mem_content (storage p) \<and> map_of (mem_tombs (storage q)) = map_of (mem_tombs (storage p))
     else mem_get_content (storage q) (content_hash n) = None \<and>
       (\<exists>ts. ts_node_hash ts = tok_node_hash t \<and> ts_originator_id ts = originator_id t \<and>
          (\<forall>u. snd (mem_get_tombstone u (content_hash n) (storage q)) =
             (if u > now + seconds (tombstone_grace_seconds w) then None else Some ts))))"
  using assms(1)
proof (cases rule: process_token_cases)
  case reject
  then show ?thesis by simp
next
  case (deleted n orig sig)
  have p: "peer_id p = pid" "mem_inv (storage p)"
    using assms(2,3) by (auto simp: net_inv_def stores_def keys_def)
  let ?s = "purge mem_backend now (tombstone_grace_seconds w) (originator_id t) n (storage p)"
  have q: "storage q = ?s"
    using deleted(6) assms(3,4) p(1) by (auto simp: stores_def dest: fun_cong [of _ _ pid])
  show ?thesis
    using deleted(1) mem_purge(2) [OF p(2) deleted(1) assms(5)]
      mem_purge_content [OF p(2) deleted(1) assms(5), of "originator_id t"]
    unfolding q by (intro exI [of _ n]) simp
qed

text \<open>A token that is not accepted changes no storage: whatever the reason (a replay, an expired
  or unreadable date, an unknown originator, a malformed or wrong signature, a node the peer does
  not have), every storage and every identity in the network is as before, and exactly the replayed
  and the expired tokens raise their errors.\<close>
lemma rejected_token_changes_no_storage:
  assumes "process_token C now rnd t p w = (w', r)" "r \<noteq> Inr True"
  shows "stores w' = stores w \<and> keys w' = keys w \<and>
    (r = Inl ReplayAttackError \<longleftrightarrow>
       snd (is_processed now (token_hash t) (get_token_cache now (peer_id p) w))) \<and>
    (r = Inl TokenExpiredError \<longleftrightarrow>
       \<not> snd (is_processed now (token_hash t) (get_token_cache now (peer_id p) w)) \<and>
       token_expired (token_validity_seconds w) now t)"
proof -
  have "stores w' = stores w \<and> keys w' = keys w"
    using assms(1) by (cases rule: process_token_cases) (use assms(2) in simp_all)
  with process_token_errors [OF assms(1)] show ?thesis by blast
qed

text \<open>One malformed message blocks a peer's queue for good: if the oldest message still within its
  lifetime cannot be read, going online raises its error, no later message is delivered, and the
  queue is left as it was, so the next attempt meets the same message first.\<close>
lemma malformed_message_blocks_queue:
  assumes "peers w pid = Some p" "offline_queue p = (ts, m) # q"
    and "now - ts \<le> seconds (3600 * message_ttl_hours p)"
    and "message_type m = ''coc_data''" "jreq (content m) ''node_data'' = Inl e"
  shows "\<exists>w' p'. go_online C now rnd pid w = (w', Inl e) \<and> peers w' pid = Some p' \<and>
    offline_queue p' = (ts, m) # q \<and> stores w' = stores w"
proof -
  let ?w1 = "notify (PeerStatusChanged pid True) (upd_peer pid (\<lambda>p. p\<lparr>online := True\<rparr>) w)"
  have p1: "peers ?w1 pid = Some (p\<lparr>online := True\<rparr>)" using assms(1) by (simp add: notify_def upd_peer_def)
  have "receive_message C now rnd m pid ?w1 = (?w1, Inl e)"
    using p1 assms(4,5) by (simp add: receive_message_def find_peer_def)
  then have "go_online C now rnd pid w = (?w1, Inl e)"
    using assms(1-3) by (simp add: go_online_def find_peer_def)
  moreover have "stores ?w1 = stores w" unfolding frame_simps by (rule upd_peer_frame) simp_all
  ultimately show ?thesis using p1 assms(2) by (intro exI [of _ ?w1] exI [of _ "p\<lparr>online := True\<rparr>"]) simp
qed

definition stuck_world :: world where
  "stuck_world = upd_peer ''bob'' (\<lambda>p. p\<lparr>online := False, offline_queue :=
     [(0, \<lparr>sender_id = ''mallory'', recipient_id = ''bob'', message_type = ''coc_data'', content = JObj []\<rparr>),
      (1, mallory_message)]\<rparr>) sample_world"

end
