(* ===== verification/Residues.thy ===== *)
theory Residues
  imports Main
begin

text \<open>
  Arithmetic modulo an integer, for the secret sharing component: congruence, polynomials given by
  their coefficients (lowest first), their division by a linear factor, roots, and interpolation
  over nodes whose differences are units. The modulus need not be prime: every lemma asks for the
  differences it divides by to be coprime to it.
\<close>

section \<open>Congruence\<close>

definition eqm :: "int \<Rightarrow> int \<Rightarrow> int \<Rightarrow> bool" where
  "eqm m a b \<longleftrightarrow> m dvd a - b"

named_theorems eqm_intros

lemma eqm_mod: "eqm m a b \<longleftrightarrow> a mod m = b mod m"
  by (simp add: eqm_def mod_eq_dvd_iff)

lemma eqm_refl [simp, eqm_intros]: "eqm m a a"
  by (simp add: eqm_def)

lemma eqm_sym: "eqm m a b \<Longrightarrow> eqm m b a"
  by (simp add: eqm_mod)

lemma eqm_trans [trans]: "eqm m a b \<Longrightarrow> eqm m b c \<Longrightarrow> eqm m a c"
  by (simp add: eqm_mod)

lemma eqm_eq_trans [trans]: "eqm m a b \<Longrightarrow> b = c \<Longrightarrow> eqm m a c" "a = b \<Longrightarrow> eqm m b c \<Longrightarrow> eqm m a c"
  by simp_all

lemma eqm_add [eqm_intros]: "eqm m a b \<Longrightarrow> eqm m c d \<Longrightarrow> eqm m (a + c) (b + d)"
  unfolding eqm_mod by (rule mod_add_cong)

lemma eqm_mult [eqm_intros]: "eqm m a b \<Longrightarrow> eqm m c d \<Longrightarrow> eqm m (a * c) (b * d)"
  unfolding eqm_mod by (rule mod_mult_cong)

lemma eqm_diff [eqm_intros]: "eqm m a b \<Longrightarrow> eqm m c d \<Longrightarrow> eqm m (a - c) (b - d)"
  unfolding eqm_mod by (rule mod_diff_cong)

lemma eqm_modr [simp]: "eqm m (a mod m) b \<longleftrightarrow> eqm m a b" "eqm m a (b mod m) \<longleftrightarrow> eqm m a b"
  by (simp_all add: eqm_mod)

lemma eqm_sum: "(\<And>x. x \<in> A \<Longrightarrow> eqm m (f x) (g x)) \<Longrightarrow> eqm m (\<Sum>x\<in>A. f x) (\<Sum>x\<in>A. g x)"
  by (induction A rule: infinite_finite_induct) (auto intro: eqm_add)

lemma eqm_cancel: "coprime d m \<Longrightarrow> eqm m (a * d) (b * d) \<Longrightarrow> eqm m a b"
  unfolding eqm_def by (metis coprime_commute coprime_dvd_mult_left_iff left_diff_distrib)

lemma eqm_range: "eqm m a b \<Longrightarrow> 0 \<le> a \<Longrightarrow> a < m \<Longrightarrow> 0 \<le> b \<Longrightarrow> b < m \<Longrightarrow> a = b"
  by (simp add: eqm_mod)

section \<open>Polynomials\<close>

fun peval :: "int list \<Rightarrow> int \<Rightarrow> int" where
  "peval [] x = 0"
| "peval (c # cs) x = c + x * peval cs x"

lemma peval_snoc: "peval (cs @ [c]) x = peval cs x + c * x ^ length cs"
  by (induction cs) (simp_all add: algebra_simps)

lemma peval_0: "cs \<noteq> [] \<Longrightarrow> peval cs 0 = hd cs"
  by (cases cs) simp_all

lemma peval_eqm: "list_all2 (eqm m) cs ds \<Longrightarrow> eqm m (peval cs x) (peval ds x)"
  by (induction rule: list_all2_induct) (auto intro!: eqm_intros)

text \<open>The quotient of \<open>x * f x - a * f a\<close> by \<open>x - a\<close>.\<close>

fun pquot :: "int \<Rightarrow> int list \<Rightarrow> int list" where
  "pquot a [] = []"
| "pquot a (c # cs) = peval (c # cs) a # pquot a cs"

lemma length_pquot [simp]: "length (pquot a cs) = length cs"
  by (induction cs) simp_all

lemma pquot_spec: "x * peval cs x - a * peval cs a = (x - a) * peval (pquot a cs) x"
proof (induction cs)
  case (Cons c cs)
  have "x * peval (c # cs) x - a * peval (c # cs) a =
      (x - a) * peval (c # cs) a + x * (x * peval cs x - a * peval cs a)" by (simp add: algebra_simps)
  also have "\<dots> = (x - a) * peval (pquot a (c # cs)) x" by (simp only: Cons) (simp add: algebra_simps)
  finally show ?case .
qed simp

lemma peval_split: "peval (c # cs) x = peval (c # cs) a + (x - a) * peval (pquot a cs) x"
  using pquot_spec [of x cs a] by simp

text \<open>The polynomial \<open>r + (x - a) * f x\<close>.\<close>

fun plin :: "int \<Rightarrow> int \<Rightarrow> int list \<Rightarrow> int list" where
  "plin a r [] = [r]"
| "plin a r (c # cs) = (r - a * c) # plin a c cs"

lemma length_plin [simp]: "length (plin a r cs) = Suc (length cs)"
  by (induction a r cs rule: plin.induct) simp_all

lemma peval_plin: "peval (plin a r cs) x = r + (x - a) * peval cs x"
proof (induction a r cs rule: plin.induct)
  case (2 a r c cs)
  show ?case by (simp add: "2.IH") (simp add: algebra_simps)
qed simp

section \<open>Roots and interpolation\<close>

definition unit_nodes :: "int \<Rightarrow> int set \<Rightarrow> bool" where
  "unit_nodes m X \<longleftrightarrow> finite X \<and> (\<forall>x\<in>X. \<forall>y\<in>X. x \<noteq> y \<longrightarrow> coprime (x - y) m)"

lemma unit_nodes_sub: "unit_nodes m X \<Longrightarrow> Y \<subseteq> X \<Longrightarrow> unit_nodes m Y"
  by (auto simp: unit_nodes_def intro: finite_subset)

lemma peval_zero: "\<forall>e\<in>set cs. eqm m e 0 \<Longrightarrow> eqm m (peval cs a) 0"
  by (induction cs) (auto simp: eqm_def)

lemma pquot_zero: "\<forall>e\<in>set (pquot a cs). eqm m e 0 \<Longrightarrow> \<forall>e\<in>set cs. eqm m e 0"
proof (induction cs)
  case (Cons c cs)
  then have z: "\<forall>e\<in>set cs. eqm m e 0" "eqm m (c + a * peval cs a) 0" by simp_all
  then have "eqm m (a * peval cs a) (a * 0)" using peval_zero by (intro eqm_mult) simp_all
  with z(2) have "eqm m (c + a * peval cs a - a * peval cs a) (0 - a * 0)" by (rule eqm_diff)
  with z(1) show ?case by simp
qed simp

text \<open>A polynomial with as many roots as coefficients is zero.\<close>

lemma roots_zero:
  "unit_nodes m X \<Longrightarrow> length cs \<le> card X \<Longrightarrow> \<forall>x\<in>X. eqm m (peval cs x) 0 \<Longrightarrow> \<forall>c\<in>set cs. eqm m c 0"
proof (induction "length cs" arbitrary: cs X)
  case (Suc n)
  then obtain c cs' where cs: "cs = c # cs'" "length cs' = n" by (cases cs) auto
  have "X \<noteq> {}" using Suc.prems(2) cs by auto
  then obtain a where a: "a \<in> X" by blast
  have q: "eqm m (peval (pquot a cs') x) 0" if x: "x \<in> X - {a}" for x
  proof -
    have "eqm m (peval (c # cs') x - peval (c # cs') a) (0 - 0)"
      using x a Suc.prems(3) unfolding cs(1) by (intro eqm_diff) auto
    moreover have "peval (c # cs') x - peval (c # cs') a = peval (pquot a cs') x * (x - a)"
      using peval_split [of c cs' x a] by simp
    ultimately have "eqm m (peval (pquot a cs') x * (x - a)) (0 * (x - a))" by simp
    moreover have "coprime (x - a) m" using x a Suc.prems(1) by (auto simp: unit_nodes_def)
    ultimately show ?thesis by (rule eqm_cancel [rotated])
  qed
  have "card (X - {a}) = card X - 1" using a Suc.prems(1) by (simp add: unit_nodes_def)
  then have "\<forall>e\<in>set (pquot a cs'). eqm m e 0"
    using Suc.hyps(1) [of "pquot a cs'" "X - {a}"] cs Suc.prems(1,2) q unit_nodes_sub [of m X "X - {a}"] by auto
  then have z: "\<forall>e\<in>set cs'. eqm m e 0" by (rule pquot_zero)
  have "eqm m (peval cs' a) 0" using z by (rule peval_zero)
  then have "eqm m (c + a * peval cs' a - a * peval cs' a) (0 - a * 0)"
    using Suc.prems(3) a unfolding cs(1) by (intro eqm_diff eqm_mult) auto
  with z cs(1) show ?case by simp
qed simp

text \<open>There is a polynomial through any points over such nodes.\<close>

lemma interpolation_exists:
  assumes "\<And>d. coprime d m \<Longrightarrow> eqm m (d * iv d) 1" "unit_nodes m X"
  shows "\<exists>cs. length cs = card X \<and> (\<forall>x\<in>X. eqm m (peval cs x) (v x))"
proof -
  have "finite X" using assms(2) by (simp add: unit_nodes_def)
  then show ?thesis using assms(2)
  proof (induction X arbitrary: v rule: finite_induct)
    case (insert a X)
    let ?u = "\<lambda>x. (v x - v a) * iv (x - a)"
    obtain cs where cs: "length cs = card X" "\<forall>x\<in>X. eqm m (peval cs x) (?u x)"
      using insert.IH [of ?u] unit_nodes_sub insert.prems by blast
    have "eqm m (peval (plin a (v a) cs) x) (v x)" if x: "x \<in> insert a X" for x
    proof (cases "x = a")
      case False
      then have "coprime (x - a) m" using x insert.prems by (auto simp: unit_nodes_def)
      then have "eqm m ((x - a) * iv (x - a) * (v x - v a)) (1 * (v x - v a))"
        using assms(1) by (intro eqm_mult) simp_all
      moreover have "eqm m ((x - a) * peval cs x) ((x - a) * ?u x)"
        using False x cs(2) by (intro eqm_mult) auto
      moreover have "(x - a) * ?u x = (x - a) * iv (x - a) * (v x - v a)" by (simp only: ac_simps)
      ultimately have "eqm m ((x - a) * peval cs x) (v x - v a)" using eqm_trans by (simp only: mult_1)
      then have "eqm m (v a + (x - a) * peval cs x) (v a + (v x - v a))" by (intro eqm_add) simp_all
      then show ?thesis by (simp add: peval_plin)
    qed (simp add: peval_plin)
    then show ?case using cs(1) insert.hyps by (intro exI [of _ "plin a (v a) cs"]) simp
  qed simp
qed

text \<open>Lagrange's coefficient of the node \<open>x\<close> at zero, with inverses given by \<open>iv\<close>.\<close>

definition lag :: "(int \<Rightarrow> int) \<Rightarrow> int set \<Rightarrow> int \<Rightarrow> int" where
  "lag iv X x = (\<Prod>y\<in>X - {x}. - y) * iv (\<Prod>y\<in>X - {x}. x - y)"

lemma unit_nodes_prod: "unit_nodes m X \<Longrightarrow> x \<in> X \<Longrightarrow> coprime (\<Prod>y\<in>X - {x}. x - y) m"
  by (intro prod_coprime_left) (auto simp: unit_nodes_def)

lemma lag_spec:
  assumes "\<And>d. coprime d m \<Longrightarrow> eqm m (d * iv d) 1" "unit_nodes m X" "x \<in> X"
  shows "eqm m (lag iv X x * (\<Prod>y\<in>X - {x}. x - y)) (\<Prod>y\<in>X - {x}. - y)"
proof -
  let ?D = "\<Prod>y\<in>X - {x}. x - y" and ?N = "\<Prod>y\<in>X - {x}. - y"
  have "eqm m (?N * (?D * iv ?D)) (?N * 1)"
    using assms(1) unit_nodes_prod [OF assms(2,3)] by (intro eqm_mult) simp_all
  then show ?thesis by (simp add: lag_def mult.assoc mult.commute [of "iv ?D"])
qed

lemma lag_step:
  assumes "\<And>d. coprime d m \<Longrightarrow> eqm m (d * iv d) 1" "unit_nodes m X" "x \<in> X" "a \<in> X" "x \<noteq> a"
  shows "eqm m (lag iv X x * (x - a)) (lag iv (X - {a}) x * (- a))"
proof -
  let ?D = "\<Prod>y\<in>X - {a} - {x}. x - y" and ?N = "\<Prod>y\<in>X - {a} - {x}. - y"
  have fin: "finite (X - {x})" using assms(2) by (simp add: unit_nodes_def)
  have sets: "X - {x} = insert a (X - {a} - {x})" "a \<notin> X - {a} - {x}" using assms(4,5) by auto
  have u: "unit_nodes m (X - {a})" using unit_nodes_sub [OF assms(2)] by blast
  have "(\<Prod>y\<in>X - {x}. x - y) = (x - a) * ?D" "(\<Prod>y\<in>X - {x}. - y) = (- a) * ?N"
    using fin sets by (simp_all only: sets finite_insert prod.insert)
  with lag_spec [OF assms(1-3)]
  have 1: "eqm m (lag iv X x * ((x - a) * ?D)) ((- a) * ?N)" by simp
  have "eqm m (lag iv (X - {a}) x * ?D) ?N"
    using lag_spec [OF assms(1) u, of x] assms(3,5) by simp
  then have "eqm m ((- a) * (lag iv (X - {a}) x * ?D)) ((- a) * ?N)" by (intro eqm_mult) simp_all
  from eqm_trans [OF 1 eqm_sym [OF this]]
  have "eqm m (lag iv X x * (x - a) * ?D) (lag iv (X - {a}) x * (- a) * ?D)"
    by (simp only: ac_simps)
  moreover have "coprime ?D m" using unit_nodes_prod [OF u, of x] assms(3,5) by simp
  ultimately show ?thesis by (rule eqm_cancel [rotated])
qed

lemma lag_linear:
  assumes "\<And>d. coprime d m \<Longrightarrow> eqm m (d * iv d) 1" "unit_nodes m X" "a \<in> X"
  shows "eqm m (\<Sum>x\<in>X. (x - a) * f x * lag iv X x) (- a * (\<Sum>x\<in>X - {a}. f x * lag iv (X - {a}) x))"
proof -
  have fin: "finite X" using assms(2) by (simp add: unit_nodes_def)
  have "(\<Sum>x\<in>X. (x - a) * f x * lag iv X x) = (\<Sum>x\<in>X - {a}. f x * (lag iv X x * (x - a)))"
    by (simp add: sum.remove [OF fin assms(3)] algebra_simps)
  also have "eqm m \<dots> (\<Sum>x\<in>X - {a}. f x * (lag iv (X - {a}) x * (- a)))"
    using lag_step [OF assms(1,2)] assms(3) by (intro eqm_sum eqm_mult [OF eqm_refl]) auto
  also have "\<dots> = - a * (\<Sum>x\<in>X - {a}. f x * lag iv (X - {a}) x)"
    by (simp add: sum_distrib_left algebra_simps)
  finally show ?thesis .
qed

lemma lag_sum_one:
  assumes iv: "\<And>d. coprime d m \<Longrightarrow> eqm m (d * iv d) 1"
  shows "unit_nodes m X \<Longrightarrow> X \<noteq> {} \<Longrightarrow> eqm m (\<Sum>x\<in>X. lag iv X x) 1"
proof (induction "card X" arbitrary: X rule: less_induct)
  case less
  have fin: "finite X" using less.prems(1) by (simp add: unit_nodes_def)
  obtain a where a: "a \<in> X" using less.prems(2) by blast
  show ?case
  proof (cases "X = {a}")
    case True
    then show ?thesis using iv [of 1] by (simp add: lag_def)
  next
    case False
    then obtain b where b: "b \<in> X" "b \<noteq> a" using a by blast
    let ?S = "\<lambda>Y. \<Sum>x\<in>Y. lag iv Y x"
    have s: "eqm m (?S (X - {c})) 1" if "c \<in> X" "d \<in> X" "c \<noteq> d" for c d
      using less.hyps [of "X - {c}"] that fin unit_nodes_sub [OF less.prems(1)]
      by (metis Diff_subset card_Diff1_less empty_iff insert_Diff insert_iff)
    have l: "eqm m (\<Sum>x\<in>X. (x - c) * 1 * lag iv X x) (- c * ?S (X - {c}))" if "c \<in> X" for c
      using lag_linear [OF iv less.prems(1) that, of "\<lambda>_. 1"] by simp
    have c: "eqm m (\<Sum>x\<in>X. (x - c) * 1 * lag iv X x) (- c * 1)" if "c \<in> X" "d \<in> X" "c \<noteq> d" for c d
      using l [OF that(1)] s [OF that] by (blast intro: eqm_trans eqm_mult eqm_refl)
    have "?S X * (b - a) = (\<Sum>x\<in>X. (x - a) * 1 * lag iv X x) - (\<Sum>x\<in>X. (x - b) * 1 * lag iv X x)"
      by (simp only: sum_subtractf [symmetric] sum_distrib_right) (simp add: algebra_simps)
    also have "eqm m \<dots> (- a * 1 - - b * 1)" using c a b by (intro eqm_diff) blast+
    also have "\<dots> = 1 * (b - a)" by simp
    finally have "eqm m (?S X * (b - a)) (1 * (b - a))" .
    moreover have "coprime (b - a) m" using less.prems(1) a b by (auto simp: unit_nodes_def)
    ultimately show ?thesis by (rule eqm_cancel [rotated])
  qed
qed

text \<open>Interpolation at zero recovers the constant coefficient.\<close>

lemma lag_poly:
  assumes iv: "\<And>d. coprime d m \<Longrightarrow> eqm m (d * iv d) 1"
  shows "unit_nodes m X \<Longrightarrow> X \<noteq> {} \<Longrightarrow> length cs \<le> card X \<Longrightarrow>
    eqm m (\<Sum>x\<in>X. peval cs x * lag iv X x) (peval cs 0)"
proof (induction "length cs" arbitrary: cs X)
  case (Suc n)
  then obtain c cs' where cs: "cs = c # cs'" "length cs' = n" by (cases cs) auto
  obtain a where a: "a \<in> X" using Suc.prems(2) by blast
  have fin: "finite X" using Suc.prems(1) by (simp add: unit_nodes_def)
  let ?q = "pquot a cs'" and ?Y = "X - {a}"
  have q: "eqm m (- a * (\<Sum>x\<in>?Y. peval ?q x * lag iv ?Y x)) (- a * peval ?q 0)"
  proof (cases "?Y = {}")
    case True
    then have "card X = 1" using a by (metis Diff_eq_empty_iff card.empty card_insert_disjoint empty_iff finite.emptyI insert_absorb insert_subset One_nat_def singleton_iff subset_singletonD)
    then have "?q = []" using Suc.prems(3) cs by simp
    then show ?thesis using True by simp
  next
    case False
    have "card ?Y = card X - 1" using a fin by simp
    then have "eqm m (\<Sum>x\<in>?Y. peval ?q x * lag iv ?Y x) (peval ?q 0)"
      using Suc.hyps(1) [of ?q ?Y] cs Suc.prems(3) False unit_nodes_sub [OF Suc.prems(1), of ?Y] by auto
    then show ?thesis by (intro eqm_mult) simp_all
  qed
  have "(\<Sum>x\<in>X. peval cs x * lag iv X x) =
      peval cs a * (\<Sum>x\<in>X. lag iv X x) + (\<Sum>x\<in>X. (x - a) * peval ?q x * lag iv X x)"
    unfolding cs(1) by (subst peval_split [where a = a])
      (simp only: distrib_right sum.distrib sum_distrib_left mult.assoc)
  also have "eqm m \<dots> (peval cs a * 1 + - a * peval ?q 0)"
    using lag_sum_one [OF iv Suc.prems(1,2)] eqm_trans [OF lag_linear [OF iv Suc.prems(1) a] q]
    by (intro eqm_add eqm_mult) simp_all
  also have "\<dots> = peval cs 0" using peval_split [of c cs' 0 a] cs(1) by simp
  finally show ?case .
qed simp

end
