(* ===== verification/Modulus.thy ===== *)
theory Modulus
  imports Residues
begin

text \<open>
  The modulus \<open>2 ^ 256 - 189\<close> of \<open>coc_framework/core/secret_sharing.py\<close>, and that it has no factor
  below 256: the differences of the indices of up to 256 shares are units modulo it. This is what
  the reconstruction of a shared secret rests on; the primality of the modulus is not needed.
\<close>

definition PRIME :: int where
  "PRIME = 2 ^ 256 - 189"

definition sqm :: "int \<Rightarrow> int \<Rightarrow> int" where
  "sqm d a = a * a mod d"

definition two256 :: "int \<Rightarrow> int" where
  "two256 d = sqm d (sqm d (sqm d (sqm d (65536 mod d))))"

definition small_primes :: "int list" where
  "small_primes = [2, 3, 5, 7, 11, 13, 17, 19, 23, 29, 31, 37, 41, 43, 47, 53, 59, 61, 67, 71, 73, 79, 83, 89, 97, 101,
     103, 107, 109, 113, 127, 131, 137, 139, 149, 151, 157, 163, 167, 173, 179, 181, 191, 193, 197, 199, 211, 223, 227,
     229, 233, 239, 241, 251]"

lemma two256_mod: "two256 d = 2 ^ 256 mod d"
proof -
  have s: "sqm d (a mod d) = a ^ 2 mod d" for a by (simp add: sqm_def mod_mult_eq power2_eq_square)
  have "two256 d = (((65536 ^ 2) ^ 2) ^ 2) ^ 2 mod d" by (simp only: two256_def s)
  also have "(((65536 ^ 2) ^ 2) ^ 2) ^ 2 = (2 :: int) ^ 256" by simp
  finally show ?thesis .
qed

lemma small_primes_no_factor: "list_all (\<lambda>d. two256 d \<noteq> 189 mod d) small_primes"
  by code_simp

lemma small_or_composite:
  "list_all (\<lambda>d. list_ex (\<lambda>p. p < d \<and> d mod p = 0) [2, 3, 5, 7, 11, 13] \<or> List.member small_primes d) [2..255]"
  by code_simp

lemma small_primes_not_dvd: "p \<in> set small_primes \<Longrightarrow> \<not> p dvd PRIME"
  using small_primes_no_factor by (auto simp: list_all_iff two256_mod PRIME_def mod_eq_dvd_iff)

lemma no_small_factor: "2 \<le> d \<Longrightarrow> d < 256 \<Longrightarrow> \<not> d dvd PRIME"
proof -
  assume d: "2 \<le> d" "d < 256"
  then have "d \<in> set [2..255]" unfolding set_upto by simp
  with small_or_composite [unfolded list_all_iff] have "list_ex (\<lambda>p. p < d \<and> d mod p = 0) [2, 3, 5, 7, 11, 13] \<or> d \<in> set small_primes"
    unfolding List.member_iff by blast
  moreover have "set [2, 3, 5, 7, 11, 13] \<subseteq> set small_primes" by (simp add: small_primes_def)
  ultimately have "\<exists>p \<in> set small_primes. p dvd d"
    unfolding list_ex_iff by (meson dvd_refl mod_eq_0_iff_dvd subsetD)
  then show ?thesis using small_primes_not_dvd dvd_trans by blast
qed

lemma prime_unit:
  assumes "0 < d" "d < 256"
  shows "coprime d PRIME"
proof -
  have "gcd d PRIME \<le> d" using assms(1) by (simp add: gcd_le1_int)
  moreover have "1 \<le> gcd d PRIME" using assms(1) by (simp add: gcd_pos_int int_one_le_iff_zero_less)
  ultimately have "gcd d PRIME = 1"
    using no_small_factor [of "gcd d PRIME"] assms(2) by force
  then show ?thesis by (simp add: coprime_iff_gcd_eq_1)
qed

lemma prime_gt1: "1 < PRIME"
  by (simp add: PRIME_def)

lemma unit_nodes_indices: "X \<subseteq> {0..<256} \<Longrightarrow> unit_nodes PRIME X"
proof -
  assume X: "X \<subseteq> {0..<256}"
  have "coprime (x - y) PRIME" if that: "x \<in> X" "y \<in> X" "x \<noteq> y" for x y
  proof (cases "y < x")
    case True
    moreover have "0 \<le> x" "x < 256" "0 \<le> y" "y < 256" using X that by auto
    ultimately show ?thesis by (intro prime_unit) simp_all
  next
    case False
    moreover have "0 \<le> x" "x < 256" "0 \<le> y" "y < 256" using X that by auto
    ultimately have "coprime (y - x) PRIME" using that(3) by (intro prime_unit) simp_all
    then show ?thesis by (metis coprime_minus_left_iff minus_diff_eq)
  qed
  then show ?thesis using X by (auto simp: unit_nodes_def intro: finite_subset)
qed

end
