(* ===== verification/SecretSharing.thy ===== *)
theory SecretSharing
  imports Crypto Json Modulus
begin

text \<open>
  \<open>coc_framework/core/secret_sharing.py\<close>: Shamir's scheme over the residues modulo
  \<open>2 ^ 256 - 189\<close>, with a message authentication code per share, the hybrid path that encrypts
  long content and shares the key, and the engine that remembers keys, holders and thresholds.

  The random draws of \<open>split_secret\<close> (the coefficients, the keys, the nonce, the share id) are
  arguments. Modulus checks that the modulus has no factor below 256, which is what makes the
  scheme correct for up to 255 shares; its primality is not needed.
\<close>

section \<open>Arithmetic\<close>

function ext_gcd :: "int \<Rightarrow> int \<Rightarrow> int \<times> int \<times> int" where
  "ext_gcd a b =
     (if a = 0 then (b, 0, 1)
      else let (g, x1, y1) = ext_gcd (b mod a) a in (g, y1 - (b div a) * x1, x1))"
  by pat_completeness auto
termination
  by (relation "measure (\<lambda>(a, b). nat \<bar>a\<bar>)") (simp_all add: abs_mod_less)

declare ext_gcd.simps [simp del]

definition mod_inverse :: "int \<Rightarrow> int \<Rightarrow> int" where
  "mod_inverse a p = (let (_, x, _) = ext_gcd (a mod p) p in (x mod p + p) mod p)"

definition evaluate_polynomial :: "int list \<Rightarrow> int \<Rightarrow> int \<Rightarrow> int" where
  "evaluate_polynomial coefficients x p =
     foldl (\<lambda>r (i, c). (r + c * (x ^ i mod p)) mod p) 0 (enumerate 0 coefficients)"

definition lagrange_coeff :: "(int \<times> int) list \<Rightarrow> nat \<Rightarrow> int \<Rightarrow> int" where
  "lagrange_coeff shares i p =
     (let xi = fst (shares ! i);
          (numerator, denominator) =
            fold (\<lambda>j (n, d). if i \<noteq> j then ((n * - fst (shares ! j)) mod p, (d * (xi - fst (shares ! j))) mod p)
                            else (n, d)) [0..<length shares] (1, 1)
      in (numerator * mod_inverse denominator p) mod p)"

definition lagrange_interpolation :: "(int \<times> int) list \<Rightarrow> int \<Rightarrow> int" where
  "lagrange_interpolation shares p =
     fold (\<lambda>i secret. (secret + snd (shares ! i) * lagrange_coeff shares i p) mod p) [0..<length shares] 0"

section \<open>Correctness of the arithmetic\<close>

lemma ext_gcd_bezout: "ext_gcd a b = (g, x, y) \<Longrightarrow> a * x + b * y = g"
proof (induction a b arbitrary: g x y rule: ext_gcd.induct)
  case (1 a b)
  show ?case
  proof (cases "a = 0")
    case True
    with "1.prems" show ?thesis by (simp add: ext_gcd.simps)
  next
    case False
    obtain g' x' y' where r: "ext_gcd (b mod a) a = (g', x', y')" by (cases "ext_gcd (b mod a) a")
    with False "1.prems" have e: "g = g'" "x = y' - (b div a) * x'" "y = x'"
      by (auto simp: ext_gcd.simps [of a b])
    have "(b mod a) * x' + a * y' = g'" using "1.IH" [OF False r] .
    moreover have "b mod a = b - a * (b div a)" by (simp add: minus_mult_div_eq_mod [symmetric])
    ultimately show ?thesis by (simp add: e algebra_simps)
  qed
qed

lemma ext_gcd_gcd: "ext_gcd a b = (g, x, y) \<Longrightarrow> 0 \<le> a \<Longrightarrow> 0 \<le> b \<Longrightarrow> g = gcd a b"
proof (induction a b arbitrary: g x y rule: ext_gcd.induct)
  case (1 a b)
  show ?case
  proof (cases "a = 0")
    case True
    with "1.prems" show ?thesis by (simp add: ext_gcd.simps)
  next
    case False
    obtain g' x' y' where r: "ext_gcd (b mod a) a = (g', x', y')" by (cases "ext_gcd (b mod a) a")
    with False "1.prems" have "g = g'" by (simp add: ext_gcd.simps [of a b])
    moreover have "g' = gcd (b mod a) a"
      using "1.IH" [OF False r] "1.prems"(2) False by simp
    ultimately show ?thesis by (metis gcd.commute gcd_red_int)
  qed
qed

lemma mod_inverse_unit: "1 < p \<Longrightarrow> coprime d p \<Longrightarrow> eqm p (d * mod_inverse d p) 1"
proof -
  assume p: "1 < p" "coprime d p"
  obtain g x y where e: "ext_gcd (d mod p) p = (g, x, y)" by (cases "ext_gcd (d mod p) p")
  have "g = gcd (d mod p) p" using ext_gcd_gcd [OF e] p(1) by simp
  then have "g = 1" using p(2) by (metis coprime_imp_gcd_eq_1 gcd.commute gcd_red_int)
  with ext_gcd_bezout [OF e] have "(d mod p) * x - 1 = - (p * y)" by simp
  then have "eqm p ((d mod p) * x) 1" by (simp add: eqm_def)
  moreover have "eqm p (d * mod_inverse d p) ((d mod p) * x)"
    using e by (intro eqm_mult) (simp_all add: mod_inverse_def)
  ultimately show ?thesis by (rule eqm_trans [rotated])
qed

lemma mod_inverse_cong: "eqm p a b \<Longrightarrow> mod_inverse a p = mod_inverse b p"
  by (simp add: mod_inverse_def eqm_mod)

lemma evaluate_peval: "evaluate_polynomial cs x p = peval cs x mod p"
proof -
  have "foldl (\<lambda>r (i, c). (r + c * (x ^ i mod p)) mod p) 0 (enumerate 0 cs) = peval cs x mod p"
  proof (induction cs rule: rev_induct)
    case (snoc c cs)
    then show ?case
      by (simp add: enumerate_append_eq peval_snoc mod_simps) (metis mod_add_right_eq mod_mult_right_eq)
  qed simp
  then show ?thesis by (simp add: evaluate_polynomial_def)
qed

lemma fold_products:
  "distinct js \<Longrightarrow>
   fold (\<lambda>j (n, d). if i \<noteq> j then ((n * f j) mod p, (d * g j) mod p) else (n, d)) js (n, d) = (n', d') \<Longrightarrow>
   eqm p n' (n * (\<Prod>j\<in>set js - {i}. f j)) \<and> eqm p d' (d * (\<Prod>j\<in>set js - {i}. g j))"
proof (induction js arbitrary: n d)
  case (Cons j js)
  show ?case
  proof (cases "i = j")
    case True
    with Cons show ?thesis by simp
  next
    case False
    then have s: "set (j # js) - {i} = insert j (set js - {i})" "j \<notin> set js - {i}" using Cons.prems(1) by auto
    have p: "(\<Prod>k\<in>set (j # js) - {i}. h k) = h j * (\<Prod>k\<in>set js - {i}. h k)" for h :: "_ \<Rightarrow> int"
      using s by simp
    have "eqm p n' ((n * f j) mod p * (\<Prod>j\<in>set js - {i}. f j)) \<and>
        eqm p d' ((d * g j) mod p * (\<Prod>j\<in>set js - {i}. g j))"
      using Cons False by simp
    moreover have "eqm p ((a * b) mod p * c) (a * (b * c))" for a b c
      by (simp add: eqm_mod mod_mult_left_eq mult.assoc)
    ultimately show ?thesis unfolding p by (blast intro: eqm_trans)
  qed
qed simp

text \<open>A product over the positions of a distinct list is a product over its elements.\<close>

lemma prod_positions:
  assumes "distinct xs" "i < length xs"
  shows "(\<Prod>j\<in>set [0..<length xs] - {i}. f (xs ! j)) = (\<Prod>y\<in>set xs - {xs ! i}. f y)"
proof -
  have "inj_on ((!) xs) (set [0..<length xs] - {i})"
    using assms(1) by (auto simp: inj_on_def nth_eq_iff_index_eq)
  moreover have "(!) xs ` (set [0..<length xs] - {i}) = set xs - {xs ! i}"
    using assms by (force simp: set_conv_nth nth_eq_iff_index_eq)
  ultimately show ?thesis by (metis (no_types, lifting) prod.reindex_cong)
qed

lemma lagrange_coeff_lag:
  assumes "distinct (map fst ss)" "i < length ss"
  shows "eqm p (lagrange_coeff ss i p) (lag (\<lambda>d. mod_inverse d p) (set (map fst ss)) (fst (ss ! i)))"
proof -
  let ?xs = "map fst ss" and ?F = "\<lambda>j (n, d). if i \<noteq> j then ((n * - fst (ss ! j)) mod p,
     (d * (fst (ss ! i) - fst (ss ! j))) mod p) else (n, d)"
  obtain n d where nd: "fold ?F [0..<length ss] (1, 1) = (n, d)" by fastforce
  have s: "(\<Prod>j\<in>set [0..<length ss] - {i}. f (fst (ss ! j))) = (\<Prod>y\<in>set ?xs - {?xs ! i}. f y)"
    for f :: "int \<Rightarrow> int"
    using prod_positions [OF assms(1), of i f] assms(2) by (simp cong: prod.cong_simp)
  have "eqm p n (\<Prod>y\<in>set ?xs - {?xs ! i}. - y)" "eqm p d (\<Prod>y\<in>set ?xs - {?xs ! i}. ?xs ! i - y)"
    using fold_products [OF _ nd] assms(2) s [of uminus] s [of "(-) (?xs ! i)"] by simp_all
  then have "eqm p (n * mod_inverse d p) (lag (\<lambda>d. mod_inverse d p) (set ?xs) (?xs ! i))"
    unfolding lag_def using mod_inverse_cong [of p d] by (metis (no_types, lifting) eqm_mult eqm_refl)
  then show ?thesis using nd assms(2) by (simp add: lagrange_coeff_def)
qed

lemma fold_add_mod: "eqm p (fold (\<lambda>i s. (s + f i) mod p) is s) (s + sum_list (map f is))"
proof (induction "is" arbitrary: s)
  case (Cons i "is")
  have "eqm p ((s + f i) mod p + sum_list (map f is)) (s + f i + sum_list (map f is))"
    by (intro eqm_add) simp_all
  with Cons [of "(s + f i) mod p"] show ?case by (simp add: add.assoc) (rule eqm_trans)
qed simp

lemma fold_mod_range: "0 < p \<Longrightarrow> 0 \<le> s \<Longrightarrow> s < p \<Longrightarrow>
  0 \<le> fold (\<lambda>i s. (s + f i) mod p) is s \<and> fold (\<lambda>i s. (s + f i) mod p) is s < (p :: int)"
  by (induction "is" arbitrary: s) simp_all

lemma lagrange_range: "0 < p \<Longrightarrow> 0 \<le> lagrange_interpolation ss p \<and> lagrange_interpolation ss p < p"
  unfolding lagrange_interpolation_def by (rule fold_mod_range) simp_all

text \<open>Interpolation at enough distinct nodes gives the constant coefficient back.\<close>

lemma lagrange_correct:
  assumes "1 < p" "distinct xs" "unit_nodes p (set xs)" "xs \<noteq> []" "length cs \<le> length xs"
  shows "lagrange_interpolation (map (\<lambda>x. (x, evaluate_polynomial cs x p)) xs) p = peval cs 0 mod p"
proof -
  let ?ss = "map (\<lambda>x. (x, evaluate_polynomial cs x p)) xs" and ?L = "lag (\<lambda>d. mod_inverse d p) (set xs)"
  have fst: "map fst ?ss = xs" by (simp add: comp_def)
  let ?S = "\<Sum>i\<leftarrow>[0..<length xs]. snd (?ss ! i) * lagrange_coeff ?ss i p"
    and ?T = "\<Sum>i\<leftarrow>[0..<length xs]. peval cs (xs ! i) * ?L (xs ! i)"
  have 1: "eqm p (lagrange_interpolation ?ss p) ?S"
    using fold_add_mod [of p "\<lambda>i. snd (?ss ! i) * lagrange_coeff ?ss i p" "[0..<length xs]" 0]
    by (simp add: lagrange_interpolation_def)
  have "eqm p (snd (?ss ! i) * lagrange_coeff ?ss i p) (peval cs (xs ! i) * ?L (xs ! i))" if "i < length xs" for i
    using lagrange_coeff_lag [of ?ss i p] that assms(2)
    by (intro eqm_mult) (simp_all add: comp_def evaluate_peval)
  then have 2: "eqm p ?S ?T" by (simp add: interv_sum_list_conv_sum_set_nat) (intro eqm_sum, simp)
  have "map (\<lambda>i. peval cs (xs ! i) * ?L (xs ! i)) [0..<length xs] = map (\<lambda>x. peval cs x * ?L x) xs"
    by (rule nth_equalityI) simp_all
  then have "?T = (\<Sum>x\<in>set xs. peval cs x * ?L x)" using assms(2) by (simp only: sum_list_distinct_conv_sum_set)
  then have 3: "eqm p ?T (peval cs 0)"
    using lag_poly [OF mod_inverse_unit [OF assms(1)] assms(3), of cs] assms(4,5) distinct_card [OF assms(2)] by simp
  have "lagrange_interpolation ?ss p mod p = peval cs 0 mod p"
    using eqm_trans [OF eqm_trans [OF 1 2] 3] by (simp only: eqm_mod)
  then show ?thesis using lagrange_range [of p ?ss] assms(1) by simp
qed

section \<open>Shares\<close>

record share =
  sh_index :: int
  sh_value :: string
  share_id :: string
  sh_content_hash :: string
  sh_threshold :: int
  total_shares :: int
  sh_mac :: string
  is_hybrid :: bool
  sh_ciphertext :: string
  sh_nonce :: string

definition share_to_dict :: "share \<Rightarrow> json" where
  "share_to_dict s = JObj
     [(''index'', JInt (sh_index s)), (''value'', jstr (sh_value s)), (''share_id'', jstr (share_id s)),
      (''content_hash'', jstr (sh_content_hash s)), (''threshold'', JInt (sh_threshold s)),
      (''total_shares'', JInt (total_shares s)), (''mac'', jstr (sh_mac s)),
      (''is_hybrid'', JBool (is_hybrid s)), (''ciphertext'', jstr (sh_ciphertext s)),
      (''nonce'', jstr (sh_nonce s))]"

text \<open>\<open>Share(**data)\<close>: an unknown or a missing argument is a \<open>TypeError\<close>; the last four have defaults.\<close>

definition share_fields :: "string list" where
  "share_fields = [''index'', ''value'', ''share_id'', ''content_hash'', ''threshold'', ''total_shares'',
     ''mac'', ''is_hybrid'', ''ciphertext'', ''nonce'']"

definition share_arg :: "json \<Rightarrow> string \<Rightarrow> json result" where
  "share_arg d k = (case jfield d k of None \<Rightarrow> Inl TypeError | Some j \<Rightarrow> Inr j)"

definition share_from_dict :: "json \<Rightarrow> share result" where
  "share_from_dict d =
     (case d of
        JObj ms \<Rightarrow>
          if \<not> set (map fst ms) \<subseteq> set share_fields then Inl TypeError
          else
            bindr (bindr (share_arg d ''index'') as_int) (\<lambda>i.
            bindr (bindr (share_arg d ''value'') as_str) (\<lambda>v.
            bindr (bindr (share_arg d ''share_id'') as_str) (\<lambda>sid.
            bindr (bindr (share_arg d ''content_hash'') as_str) (\<lambda>ch.
            bindr (bindr (share_arg d ''threshold'') as_int) (\<lambda>t.
            bindr (bindr (share_arg d ''total_shares'') as_int) (\<lambda>n.
            bindr (as_str (jdefault d ''mac'' (jstr ''''))) (\<lambda>m.
            bindr (as_bool (jdefault d ''is_hybrid'' (JBool False))) (\<lambda>h.
            bindr (as_str (jdefault d ''ciphertext'' (jstr ''''))) (\<lambda>c.
            bindr (as_str (jdefault d ''nonce'' (jstr ''''))) (\<lambda>nc.
            Inr \<lparr>sh_index = i, sh_value = v, share_id = sid, sh_content_hash = ch, sh_threshold = t,
              total_shares = n, sh_mac = m, is_hybrid = h, sh_ciphertext = c, sh_nonce = nc\<rparr>))))))))))
      | _ \<Rightarrow> Inl TypeError)"

definition compute_share_mac :: "string \<Rightarrow> int \<Rightarrow> string \<Rightarrow> bytes \<Rightarrow> string" where
  "compute_share_mac v i ch key = hmac_sha256 key (encode (str_int i @ ''|'' @ v @ ''|'' @ ch))"

text \<open>\<open>hmac.compare_digest\<close> refuses strings that are not ASCII.\<close>

definition verify_share_mac :: "share \<Rightarrow> bytes \<Rightarrow> bool result" where
  "verify_share_mac s key =
     (if sh_mac s = [] then Inr False
      else if \<exists>c \<in> set (sh_mac s). 128 \<le> (of_char c :: nat) then Inl TypeError
      else Inr (sh_mac s = compute_share_mac (sh_value s) (sh_index s) (sh_content_hash s) key))"

definition verify_share :: "share \<Rightarrow> string \<Rightarrow> bool" where
  "verify_share s ch = (sh_content_hash s = ch)"

section \<open>Splitting\<close>

definition HYBRID_THRESHOLD_BYTES :: nat where
  "HYBRID_THRESHOLD_BYTES = 256"

function chunks_of :: "nat \<Rightarrow> bytes \<Rightarrow> bytes list" where
  "chunks_of k data =
     (if data = [] \<or> k = 0 then []
      else let c = take k data in (c @ replicate (k - length c) 0) # chunks_of k (drop k data))"
  by pat_completeness auto
termination
  by (relation "measure (\<lambda>(k, data). length data)") auto

declare chunks_of.simps [simp del]

definition split_into_chunks :: "bytes \<Rightarrow> bytes list result" where
  "split_into_chunks data =
     bindr (nat_to_bytes (length data) 4) (\<lambda>header.
     Inr ((header @ replicate (31 - 4) 0) # chunks_of 31 data))"

definition aes_encrypt :: "crypto \<Rightarrow> bytes \<Rightarrow> bytes \<Rightarrow> bytes \<Rightarrow> bytes \<times> bytes \<times> bytes" where
  "aes_encrypt C key nonce data = (key, nonce, aes_enc C key nonce data)"

definition aes_decrypt :: "crypto \<Rightarrow> bytes \<Rightarrow> bytes \<Rightarrow> bytes \<Rightarrow> bytes option" where
  "aes_decrypt C key nonce c = aes_dec C key nonce c"

text \<open>
  What a run of \<open>split_secret\<close> draws: the authentication key, the content key and its nonce, the
  coefficient \<open>dr_coeff c j\<close> of degree \<open>j + 1\<close> for chunk \<open>c\<close>, and the base of the share ids.
\<close>

record draws =
  dr_hmac_key :: bytes
  dr_aes_key :: bytes
  dr_aes_nonce :: bytes
  dr_coeff :: "nat \<Rightarrow> nat \<Rightarrow> int"
  dr_share_id :: string

definition chunk_coefficients :: "draws \<Rightarrow> int \<Rightarrow> nat \<Rightarrow> bytes \<Rightarrow> int list" where
  "chunk_coefficients dr t c chunk = int (bytes_to_nat chunk) # map (dr_coeff dr c) [0..<nat (t - 1)]"

definition chunk_shares :: "draws \<Rightarrow> int \<Rightarrow> int \<Rightarrow> nat \<times> bytes \<Rightarrow> (int \<times> int) list" where
  "chunk_shares dr t n = (\<lambda>(c, chunk).
     map (\<lambda>x. (x, evaluate_polynomial (chunk_coefficients dr t c chunk) x PRIME)) [1..n])"

definition make_share ::
  "draws \<Rightarrow> string \<Rightarrow> int \<Rightarrow> int \<Rightarrow> bool \<Rightarrow> bytes \<Rightarrow> bytes \<Rightarrow> (int \<times> int) list list \<Rightarrow> nat \<Rightarrow> share" where
  "make_share dr ch t n hybrid nonce ciphertext all_shares i =
     (let v = join ''|'' (map (\<lambda>cs. hexstr (nat (snd (cs ! i)))) all_shares)
      in \<lparr>sh_index = int i + 1, sh_value = v, share_id = dr_share_id dr @ ''_'' @ str_int (int i + 1),
          sh_content_hash = ch, sh_threshold = t, total_shares = n,
          sh_mac = compute_share_mac v (int i + 1) ch (dr_hmac_key dr), is_hybrid = hybrid,
          sh_ciphertext = (if hybrid then bytes_hex ciphertext else []),
          sh_nonce = (if hybrid then bytes_hex nonce else [])\<rparr>)"

definition split_secret :: "crypto \<Rightarrow> draws \<Rightarrow> ustr \<Rightarrow> int \<Rightarrow> int \<Rightarrow> (share list \<times> bytes) result" where
  "split_secret C dr content t n =
     (if t > n then Inl ValueError
      else if t < 2 then Inl ValueError
      else if n < 2 then Inl ValueError
      else
        let content_bytes = utf8 content;
            ch = sha256 content_bytes;
            hybrid = length content_bytes > HYBRID_THRESHOLD_BYTES;
            (secret, nonce, ciphertext) =
              (if hybrid then aes_encrypt C (dr_aes_key dr) (dr_aes_nonce dr) content_bytes
               else (content_bytes, [], []))
        in bindr (split_into_chunks secret) (\<lambda>chunks.
             Inr (map (make_share dr ch t n hybrid nonce ciphertext
                        (map (chunk_shares dr t n) (enumerate 0 chunks))) [0..<nat n],
                  dr_hmac_key dr)))"

section \<open>Reconstruction\<close>

text \<open>The slice \<open>xs[:k]\<close>.\<close>

definition py_take :: "int \<Rightarrow> 'a list \<Rightarrow> 'a list" where
  "py_take k xs = (if 0 \<le> k then take (nat k) xs else take (nat (int (length xs) + k)) xs)"

fun check_shares :: "share \<Rightarrow> bytes option \<Rightarrow> share list \<Rightarrow> unit result" where
  "check_shares s0 key [] = Inr ()"
| "check_shares s0 key (s # ss) =
     (if sh_content_hash s \<noteq> sh_content_hash s0 then Inl ValueError
      else if sh_threshold s \<noteq> sh_threshold s0 then Inl ValueError
      else if is_hybrid s \<noteq> is_hybrid s0 then Inl ValueError
      else case key of
             None \<Rightarrow> check_shares s0 key ss
           | Some k \<Rightarrow>
               bindr (verify_share_mac s k) (\<lambda>ok.
               if \<not> ok then Inl ShareIntegrityError else check_shares s0 key ss))"

definition read_point :: "nat \<Rightarrow> share \<Rightarrow> (int \<times> int) result" where
  "read_point c s =
     (let vs = split ''|'' (sh_value s)
      in if c < length vs then (case int16 (vs ! c) of None \<Rightarrow> Inl ValueError | Some y \<Rightarrow> Inr (sh_index s, y))
         else Inl IndexError)"

definition reconstruct_chunk :: "share list \<Rightarrow> nat \<Rightarrow> bytes result" where
  "reconstruct_chunk ss c =
     bindr (mapr (read_point c) ss) (\<lambda>pts.
     nat_to_bytes (nat (lagrange_interpolation pts PRIME)) 31)"

definition reconstruct_secret :: "crypto \<Rightarrow> share list \<Rightarrow> bytes option \<Rightarrow> ustr option result" where
  "reconstruct_secret C ss key =
     (case ss of
        [] \<Rightarrow> Inl ValueError
      | s0 # _ \<Rightarrow>
          if int (length ss) < sh_threshold s0 then Inl ValueError
          else
            bindr (check_shares s0 key ss) (\<lambda>_.
            bindr (mapr (reconstruct_chunk (py_take (sh_threshold s0) ss))
                     [0..<length (split ''|'' (sh_value s0))]) (\<lambda>chunks.
            let original_length = bytes_to_nat (take 4 (hd chunks));
                secret = take original_length (concat (tl chunks));
                finish = (\<lambda>b. case decode_utf8 b of
                   None \<Rightarrow> Inr None
                 | Some content \<Rightarrow>
                     if sha256 b \<noteq> sh_content_hash s0 then Inr None else Inr (Some content))
            in if is_hybrid s0 then
                 (case fromhex (sh_ciphertext s0) of
                    None \<Rightarrow> Inl ValueError
                  | Some ciphertext \<Rightarrow>
                      (case fromhex (sh_nonce s0) of
                         None \<Rightarrow> Inl ValueError
                       | Some nonce \<Rightarrow>
                           (case aes_decrypt C secret nonce ciphertext of
                              None \<Rightarrow> Inr None
                            | Some b \<Rightarrow> finish b)))
               else finish secret)))"

section \<open>Round trip\<close>

lemma chunks_of_spec:
  "0 < k \<Longrightarrow> (\<forall>c \<in> set (chunks_of k data). length c = k) \<and> (\<exists>z. concat (chunks_of k data) = data @ z)"
proof (induction k data rule: chunks_of.induct)
  case (1 k data)
  show ?case
  proof (cases "data = []")
    case True
    then show ?thesis by (simp add: chunks_of.simps)
  next
    case False
    let ?c = "take k data" and ?cs = "chunks_of k (drop k data)"
    have u: "chunks_of k data = (?c @ replicate (k - length ?c) 0) # ?cs"
      using False "1.prems" by (subst chunks_of.simps) (simp add: Let_def)
    have "(\<forall>c \<in> set ?cs. length c = k) \<and> (\<exists>z. concat ?cs = drop k data @ z)"
      using "1.IH" [OF _ refl "1.prems"] False "1.prems" by blast
    then obtain z where z: "\<forall>c \<in> set ?cs. length c = k" "concat ?cs = drop k data @ z" by blast
    have len: "length (?c @ replicate (k - length ?c) 0) = k" by simp
    have "concat (chunks_of k data) = data @ (if k \<le> length data then z else replicate (k - length data) 0 @ z)"
      unfolding u using z(2) by simp
    then show ?thesis using len z(1) unfolding u by (metis set_ConsD)
  qed
qed

lemma bytes_chunk_less: "length c = 31 \<Longrightarrow> int (bytes_to_nat c) < PRIME"
proof -
  assume "length c = 31"
  then have "int (bytes_to_nat c) < int (256 ^ 31)" using bytes_to_nat_less [of c] by simp
  also have "\<dots> < PRIME" by (simp add: PRIME_def)
  finally show ?thesis .
qed

lemma chunk_coefficients_simps [simp]:
  "2 \<le> t \<Longrightarrow> length (chunk_coefficients dr t c chunk) = nat t"
  "peval (chunk_coefficients dr t c chunk) 0 = int (bytes_to_nat chunk)"
  by (simp_all add: chunk_coefficients_def)

text \<open>Any \<open>t\<close> of the points of a chunk give the chunk back.\<close>

lemma chunk_interpolates:
  assumes "2 \<le> t" "distinct xs" "set xs \<subseteq> {1..255}" "t \<le> int (length xs)" "length chunk = 31"
  shows "nat_to_bytes (nat (lagrange_interpolation
      (map (\<lambda>x. (x, evaluate_polynomial (chunk_coefficients dr t c chunk) x PRIME)) xs) PRIME)) 31 = Inr chunk"
proof -
  have "unit_nodes PRIME (set xs)" using assms(3) by (intro unit_nodes_indices) auto
  then have "lagrange_interpolation
      (map (\<lambda>x. (x, evaluate_polynomial (chunk_coefficients dr t c chunk) x PRIME)) xs) PRIME =
      int (bytes_to_nat chunk) mod PRIME"
    using lagrange_correct [OF prime_gt1 assms(2), of "chunk_coefficients dr t c chunk"] assms(1,4) by fastforce
  then show ?thesis
    using nat_to_bytes_of_bytes [of chunk] bytes_chunk_less [OF assms(5)] assms(5) by simp
qed

lemma evaluate_range: "0 \<le> evaluate_polynomial cs x PRIME" "evaluate_polynomial cs x PRIME < PRIME"
  using prime_gt1 by (simp_all add: evaluate_peval)

lemma split_share_value:
  assumes "all_shares \<noteq> []"
  shows "split ''|'' (sh_value (make_share dr ch t n hy nc ct all_shares i)) =
    map (\<lambda>cs. hexstr (nat (snd (cs ! i)))) all_shares"
  unfolding make_share_def Let_def share.simps
  using assms by (intro split_join_char) (auto simp: hexstr_notin_bar)

text \<open>What a share that was made by splitting says about chunk \<open>c\<close>.\<close>

lemma read_point_make_share:
  assumes "i < nat n" "c < length chunks"
  shows "read_point c (make_share dr ch t n hy nc ct (map (chunk_shares dr t n) (enumerate 0 chunks)) i) =
    Inr (int i + 1, evaluate_polynomial (chunk_coefficients dr t c (chunks ! c)) (int i + 1) PRIME)"
proof -
  let ?all = "map (chunk_shares dr t n) (enumerate 0 chunks)"
  have "length ?all = length chunks" by simp
  then have "?all \<noteq> []" using assms(2) by force
  note s = split_share_value [OF this, of dr ch t n hy nc ct i]
  have "?all ! c ! i = (int i + 1, evaluate_polynomial (chunk_coefficients dr t c (chunks ! c)) (int i + 1) PRIME)"
    using assms by (simp add: chunk_shares_def nth_enumerate_eq add.commute split: prod.splits)
  then show ?thesis
    unfolding read_point_def Let_def s using assms(2) evaluate_range
    by (simp del: map_map) (simp add: make_share_def Let_def)
qed

lemma make_share_simps [simp]:
  "sh_index (make_share dr ch t n hy nc ct all_shares i) = int i + 1"
  "sh_content_hash (make_share dr ch t n hy nc ct all_shares i) = ch"
  "sh_threshold (make_share dr ch t n hy nc ct all_shares i) = t"
  "is_hybrid (make_share dr ch t n hy nc ct all_shares i) = hy"
  "sh_ciphertext (make_share dr ch t n hy nc ct all_shares i) = (if hy then bytes_hex ct else [])"
  "sh_nonce (make_share dr ch t n hy nc ct all_shares i) = (if hy then bytes_hex nc else [])"
  by (simp_all add: make_share_def Let_def)

lemma hmac_ascii: "c \<in> set (hmac_sha256 k m) \<Longrightarrow> (of_char c :: nat) < 128"
  using bytes_hex_notin [of c] by (force simp: hmac_sha256_def Let_def sha256_def)

lemma verify_make_share:
  "verify_share_mac (make_share dr ch t n hy nc ct all_shares i) (dr_hmac_key dr) = Inr True"
  using hmac_ascii by (fastforce simp: verify_share_mac_def make_share_def Let_def compute_share_mac_def not_le)

lemma check_make_shares:
  assumes "key = None \<or> key = Some (dr_hmac_key dr)"
    and "\<forall>s \<in> set ss. s \<in> range (make_share dr ch t n hy nc ct all_shares)" "s0 \<in> range (make_share dr ch t n hy nc ct all_shares)"
  shows "check_shares s0 key ss = Inr ()"
  using assms(2)
proof (induction ss)
  case (Cons s ss)
  then obtain i where s: "s = make_share dr ch t n hy nc ct all_shares i" by auto
  from assms(3) obtain j where "s0 = make_share dr ch t n hy nc ct all_shares j" by auto
  with s Cons assms(1) show ?case by (auto simp: verify_make_share)
qed simp

lemma mapr_map: "\<forall>x \<in> set xs. f x = Inr (g x) \<Longrightarrow> mapr f xs = Inr (map g xs)"
  by (induction xs) simp_all

text \<open>Enough distinct shares give all chunks back.\<close>

lemma reconstruct_chunk_ok:
  assumes "2 \<le> t" "distinct is" "set is \<subseteq> {..<nat n}" "n \<le> 255" "t \<le> int (length is)"
    and "c < length chunks" "length (chunks ! c) = 31"
  shows "reconstruct_chunk (map (make_share dr ch t n hy nc ct (map (chunk_shares dr t n) (enumerate 0 chunks))) is) c =
    Inr (chunks ! c)"
proof -
  let ?sh = "make_share dr ch t n hy nc ct (map (chunk_shares dr t n) (enumerate 0 chunks))"
  let ?xs = "map (\<lambda>i. int i + 1) is"
  let ?pt = "\<lambda>x. (x, evaluate_polynomial (chunk_coefficients dr t c (chunks ! c)) x PRIME)"
  have "mapr (read_point c) (map ?sh is) = Inr (map ?pt ?xs)"
    using assms(3,6) read_point_make_share [of _ n c chunks] by (induction "is") auto
  moreover have "distinct ?xs" using assms(2) by (simp add: distinct_map inj_on_def)
  moreover have "set ?xs \<subseteq> {1..255}" using assms(3,4) by auto
  ultimately show ?thesis
    using chunk_interpolates [OF assms(1), of ?xs "chunks ! c" dr c] assms(5,7)
    by (simp add: reconstruct_chunk_def)
qed

lemma split_into_chunks_ok:
  assumes "length data < 256 ^ 4"
  shows "\<exists>chunks. split_into_chunks data = Inr chunks \<and> chunks \<noteq> [] \<and> (\<forall>c \<in> set chunks. length c = 31) \<and>
    take (bytes_to_nat (take 4 (hd chunks))) (concat (tl chunks)) = data"
proof -
  obtain z where "concat (chunks_of 31 data) = data @ z" using chunks_of_spec [of 31 data] by auto
  then show ?thesis
    using chunks_of_spec [of 31 data] assms by (simp add: split_into_chunks_def nat_to_bytes_def)
qed

lemma subset_of_shares:
  assumes "distinct ss" "set ss \<subseteq> f ` {..<k}" "\<And>i. g (f i) = i"
  shows "\<exists>is. ss = map f is \<and> distinct is \<and> set is \<subseteq> {..<k}"
proof (intro exI conjI)
  have m: "f (g s) = s" if "s \<in> set ss" for s using assms(2,3) that by fastforce
  then show "ss = map f (map g ss)" by (simp add: map_idI)
  show "distinct (map g ss)" using assms(1) m by (metis distinct_map inj_onI)
  show "set (map g ss) \<subseteq> {..<k}" using assms(2,3) by fastforce
qed

definition secret_of :: "crypto \<Rightarrow> draws \<Rightarrow> ustr \<Rightarrow> bytes" where
  "secret_of C dr content =
     (if length (utf8 content) > HYBRID_THRESHOLD_BYTES then dr_aes_key dr else utf8 content)"

lemma split_secret_spec:
  assumes "2 \<le> t" "t \<le> n" "split_into_chunks (secret_of C dr content) = Inr chunks"
  defines "hy \<equiv> length (utf8 content) > HYBRID_THRESHOLD_BYTES"
  shows "split_secret C dr content t n =
    Inr (map (make_share dr (sha256 (utf8 content)) t n hy (if hy then dr_aes_nonce dr else [])
          (if hy then aes_enc C (dr_aes_key dr) (dr_aes_nonce dr) (utf8 content) else [])
          (map (chunk_shares dr t n) (enumerate 0 chunks))) [0..<nat n], dr_hmac_key dr)"
  using assms(1-3)
  by (cases "HYBRID_THRESHOLD_BYTES < length (utf8 content)")
     (simp_all add: split_secret_def secret_of_def aes_encrypt_def Let_def hy_def)

lemma secret_of_short: "length (dr_aes_key dr) = 32 \<Longrightarrow> length (secret_of C dr content) < 256 ^ 4"
  by (simp add: secret_of_def HYBRID_THRESHOLD_BYTES_def)

lemma reconstruct_ok:
  assumes "2 \<le> t" "t \<le> n" "n \<le> 255" "scalar_text content" "aes_correct C" "length (dr_aes_key dr) = 32"
    and "split_secret C dr content t n = Inr (shares, key)"
    and "distinct ss" "set ss \<subseteq> set shares" "t \<le> int (length ss)" "k = None \<or> k = Some key"
  shows "reconstruct_secret C ss k = Inr (Some content)"
proof -
  obtain chunks where ch: "split_into_chunks (secret_of C dr content) = Inr chunks" "chunks \<noteq> []"
    "\<forall>c \<in> set chunks. length c = 31"
    "take (bytes_to_nat (take 4 (hd chunks))) (concat (tl chunks)) = secret_of C dr content"
    using split_into_chunks_ok [OF secret_of_short [OF assms(6)]] by blast
  define hy where "hy = (length (utf8 content) > HYBRID_THRESHOLD_BYTES)"
  define sh where "sh = make_share dr (sha256 (utf8 content)) t n hy (if hy then dr_aes_nonce dr else [])
          (if hy then aes_enc C (dr_aes_key dr) (dr_aes_nonce dr) (utf8 content) else [])
          (map (chunk_shares dr t n) (enumerate 0 chunks))"
  have sk: "shares = map sh [0..<nat n]" "key = dr_hmac_key dr"
    using split_secret_spec [OF assms(1,2) ch(1)] assms(7) by (simp_all add: sh_def hy_def)
  have "set ss \<subseteq> sh ` {..<nat n}" using assms(9) sk(1) by (simp add: lessThan_atLeast0)
  moreover have "nat (sh_index (sh i) - 1) = i" for i by (simp add: sh_def)
  ultimately obtain "is" where im: "ss = map sh is" "distinct is" "set is \<subseteq> {..<nat n}"
    using subset_of_shares [OF assms(8), of sh "nat n" "\<lambda>s. nat (sh_index s - 1)"] by auto
  have len: "length is = length ss" using im by simp
  then obtain i0 is' where i0: "is = i0 # is'" using assms(1,10) by (cases "is") auto
  have pt: "py_take t ss = map sh (take (nat t) is)" using assms(1) im(1) by (simp add: py_take_def take_map)
  have "reconstruct_chunk (py_take t ss) c = Inr (chunks ! c)" if "c < length chunks" for c
    unfolding pt sh_def
    using im(2,3) assms(1,3,10) len that ch(3)
    by (intro reconstruct_chunk_ok) (auto dest: in_set_takeD)
  then have rc: "mapr (reconstruct_chunk (py_take t ss)) [0..<length chunks] = Inr chunks"
    using mapr_map [of "[0..<length chunks]" _ "(!) chunks"] by (simp add: map_nth)
  have sp: "length (split ''|'' (sh_value (sh i))) = length chunks" for i
  proof -
    have "length (map (chunk_shares dr t n) (enumerate 0 chunks)) = length chunks" by simp
    then have "map (chunk_shares dr t n) (enumerate 0 chunks) \<noteq> []" using ch(2) by force
    from split_share_value [OF this] show ?thesis unfolding sh_def by simp
  qed
  have mem: "\<forall>s \<in> set ss. s \<in> range sh" "sh i0 \<in> range sh" using im(1) by auto
  have "check_shares (sh i0) k ss = Inr ()"
    by (rule check_make_shares [OF _ mem [unfolded sh_def], folded sh_def]) (use assms(11) sk(2) in simp)
  moreover have "sh_threshold (sh i0) = t" "is_hybrid (sh i0) = hy" "sh_content_hash (sh i0) = sha256 (utf8 content)"
    by (simp_all add: sh_def)
  moreover have "ss = sh i0 # map sh is'" using im(1) i0 by simp
  moreover have "decode_utf8 (utf8 content) = Some content" using assms(4) by (rule decode_utf8_utf8)
  moreover have "aes_dec C (dr_aes_key dr) (dr_aes_nonce dr)
      (aes_enc C (dr_aes_key dr) (dr_aes_nonce dr) (utf8 content)) = Some (utf8 content)"
    using assms(5,6) by (simp add: aes_correct_def)
  moreover have "hy \<Longrightarrow> sh_ciphertext (sh i0) = bytes_hex (aes_enc C (dr_aes_key dr) (dr_aes_nonce dr) (utf8 content))"
    "hy \<Longrightarrow> sh_nonce (sh i0) = bytes_hex (dr_aes_nonce dr)"
    by (simp_all add: sh_def)
  moreover have "secret_of C dr content = (if hy then dr_aes_key dr else utf8 content)"
    by (simp add: secret_of_def hy_def)
  ultimately show ?thesis
    using assms(10) rc ch(4) sp
    by (cases hy) (simp_all add: reconstruct_secret_def aes_decrypt_def Let_def)
qed

section \<open>Secrecy\<close>

lemma peval_diff: "length cs = length ds \<Longrightarrow> peval (map2 (-) cs ds) x = peval cs x - peval ds x"
proof (induction cs ds rule: list_induct2)
  case (Cons c cs d ds)
  then show ?case by (simp only: list.map zip_Cons_Cons peval.simps prod.case) (simp add: algebra_simps)
qed simp

lemma evaluate_eqm: "0 \<le> y \<Longrightarrow> y < PRIME \<Longrightarrow> evaluate_polynomial cs x PRIME = y \<longleftrightarrow> eqm PRIME (peval cs x) y"
  by (simp add: evaluate_peval eqm_mod)

lemma coefficients_exist:
  assumes "unit_nodes PRIME (insert 0 X)" "0 \<notin> X" "0 \<le> s" "s < PRIME"
  shows "\<exists>cs. length cs = card X \<and> (\<forall>c \<in> set cs. 0 \<le> c \<and> c < PRIME) \<and>
    (\<forall>x \<in> X. eqm PRIME (peval (s # cs) x) (v x))"
proof -
  have fin: "finite X" using assms(1) by (simp add: unit_nodes_def)
  obtain ds where ds: "length ds = card (insert 0 X)"
    "\<forall>x \<in> insert 0 X. eqm PRIME (peval ds x) ((v(0 := s)) x)"
    using interpolation_exists [OF mod_inverse_unit [OF prime_gt1] assms(1)] by blast
  then obtain d ds' where d: "ds = d # ds'" "length ds' = card X" using fin assms(2) by (cases ds) auto
  let ?cs = "map (\<lambda>c. c mod PRIME) ds'"
  have "eqm PRIME s d" using ds(2) d(1) by (auto intro: eqm_sym)
  moreover have "list_all2 (eqm PRIME) ?cs ds'" by (simp add: list_all2_conv_all_nth)
  ultimately have e: "eqm PRIME (peval (s # ?cs) x) (peval ds x)" for x unfolding d(1) by (intro peval_eqm) simp
  have "eqm PRIME (peval (s # ?cs) x) (v x)" if "x \<in> X" for x
  proof -
    have "eqm PRIME (peval ds x) (v x)" using ds(2) that assms(2) by (metis fun_upd_other insertCI)
    with e [of x] show ?thesis by (rule eqm_trans)
  qed
  then show ?thesis using d(2) prime_gt1 by (intro exI [of _ ?cs]) auto
qed

lemma coefficients_unique:
  assumes "unit_nodes PRIME (insert 0 X)" "0 \<notin> X" "length cs = card X" "length ds = card X"
    and "\<forall>c \<in> set cs \<union> set ds. 0 \<le> c \<and> c < PRIME" "\<forall>x \<in> X. eqm PRIME (peval (s # cs) x) (peval (s # ds) x)"
  shows "cs = ds"
proof -
  have fin: "finite X" using assms(1) by (simp add: unit_nodes_def)
  let ?es = "map2 (-) cs ds"
  have "eqm PRIME (peval (0 # ?es) x) 0" if "x \<in> insert 0 X" for x
  proof -
    have "peval (0 # ?es) x = peval (s # cs) x - peval (s # ds) x"
      using assms(3,4) by (simp add: peval_diff right_diff_distrib)
    moreover have "eqm PRIME (peval (s # cs) x - peval (s # ds) x) 0"
      using that assms(6) by (cases "x = 0") (simp_all add: eqm_def)
    ultimately show ?thesis by simp
  qed
  then have r: "\<forall>x \<in> insert 0 X. eqm PRIME (peval (0 # ?es) x) 0" by blast
  have "length (0 # ?es) \<le> card (insert 0 X)" using assms(2,3,4) fin by simp
  then have "\<forall>e \<in> set (0 # ?es). eqm PRIME e 0" by (rule roots_zero [OF assms(1) _ r])
  moreover have "?es ! i \<in> set (0 # ?es)" if "i < length cs" for i
    using that assms(3,4) by (intro list.set_intros(2) nth_mem) simp
  ultimately have z: "\<forall>i < length cs. eqm PRIME (?es ! i) 0" by blast
  have "cs ! i = ds ! i" if i: "i < length cs" for i
  proof -
    have "cs ! i \<in> set cs" "ds ! i \<in> set ds" using i assms(3,4) by simp_all
    then have "0 \<le> cs ! i" "cs ! i < PRIME" "0 \<le> ds ! i" "ds ! i < PRIME" using assms(5) by blast+
    moreover have "eqm PRIME (cs ! i) (ds ! i)" using z i assms(3,4) by (simp add: eqm_def)
    ultimately show ?thesis by (intro eqm_range [of PRIME])
  qed
  then show ?thesis using assms(3,4) by (intro nth_equalityI) simp_all
qed

section \<open>The engine\<close>

record sharing_engine =
  default_threshold :: int
  default_shares :: int
  share_registry :: "string \<rightharpoonup> string list"
  hmac_keys :: "string \<rightharpoonup> bytes"
  authorized_recipients :: "string \<rightharpoonup> string set"
  thresholds :: "string \<rightharpoonup> int"

definition new_sharing_engine :: "int \<Rightarrow> int \<Rightarrow> sharing_engine" where
  "new_sharing_engine t n = \<lparr>default_threshold = t, default_shares = n, share_registry = Map.empty,
     hmac_keys = Map.empty, authorized_recipients = Map.empty, thresholds = Map.empty\<rparr>"

text \<open>The dictionary \<open>{peer_id: shares[i]}\<close>: a peer named twice keeps its last share.\<close>

definition share_map :: "string list \<Rightarrow> share list \<Rightarrow> (string \<times> share) list" where
  "share_map rids shares = fold (\<lambda>(i, pid). dict_set pid (shares ! i)) (enumerate 0 rids) []"

definition split_content ::
  "crypto \<Rightarrow> draws \<Rightarrow> ustr \<Rightarrow> string list \<Rightarrow> int option \<Rightarrow> sharing_engine
   \<Rightarrow> sharing_engine \<times> (string \<times> share) list result" where
  "split_content C dr content rids threshold e =
     (let n = int (length rids);
          t = (case threshold of None \<Rightarrow> max 2 (n div 2 + 1) | Some t \<Rightarrow> t)
      in if n < 2 then (e, Inl ValueError)
         else case split_secret C dr content t n of
                Inl x \<Rightarrow> (e, Inl x)
              | Inr (shares, key) \<Rightarrow>
                  let ch = sh_content_hash (hd shares)
                  in (e\<lparr>share_registry := (share_registry e)(ch \<mapsto> rids),
                        hmac_keys := (hmac_keys e)(ch \<mapsto> key),
                        authorized_recipients := (authorized_recipients e)(ch \<mapsto> set rids),
                        thresholds := (thresholds e)(ch \<mapsto> t)\<rparr>, Inr (share_map rids shares)))"

definition reconstruct_content :: "crypto \<Rightarrow> share list \<Rightarrow> bool \<Rightarrow> sharing_engine \<Rightarrow> ustr option result" where
  "reconstruct_content C ss verify e =
     (case ss of
        [] \<Rightarrow> Inr None
      | s0 # _ \<Rightarrow> reconstruct_secret C ss (if verify then hmac_keys e (sh_content_hash s0) else None))"

definition get_share_holders :: "sharing_engine \<Rightarrow> string \<Rightarrow> string list" where
  "get_share_holders e ch = (case share_registry e ch of None \<Rightarrow> [] | Some ps \<Rightarrow> ps)"

definition get_hmac_key :: "sharing_engine \<Rightarrow> string \<Rightarrow> bytes option" where
  "get_hmac_key e ch = hmac_keys e ch"

definition is_authorized :: "sharing_engine \<Rightarrow> string \<Rightarrow> string \<Rightarrow> bool" where
  "is_authorized e ch pid = (case authorized_recipients e ch of None \<Rightarrow> False | Some S \<Rightarrow> pid \<in> S)"

definition add_authorized_recipient :: "string \<Rightarrow> string \<Rightarrow> sharing_engine \<Rightarrow> sharing_engine" where
  "add_authorized_recipient ch pid e =
     e\<lparr>authorized_recipients := (authorized_recipients e)
        (ch \<mapsto> insert pid (case authorized_recipients e ch of None \<Rightarrow> {} | Some S \<Rightarrow> S))\<rparr>"

definition remove_authorized_recipient :: "string \<Rightarrow> string \<Rightarrow> sharing_engine \<Rightarrow> sharing_engine" where
  "remove_authorized_recipient ch pid e =
     e\<lparr>authorized_recipients := (authorized_recipients e)
        (ch := map_option (\<lambda>S. S - {pid}) (authorized_recipients e ch))\<rparr>"

definition get_threshold :: "sharing_engine \<Rightarrow> string \<Rightarrow> int" where
  "get_threshold e ch = (case thresholds e ch of None \<Rightarrow> default_threshold e | Some t \<Rightarrow> t)"

definition can_reconstruct :: "sharing_engine \<Rightarrow> string \<Rightarrow> string list option \<Rightarrow> bool" where
  "can_reconstruct e ch available =
     (let holders = get_share_holders e ch;
          present = (case available of None \<Rightarrow> holders | Some av \<Rightarrow> filter (\<lambda>p. p \<in> set av) holders)
      in get_threshold e ch \<le> int (length present))"

section \<open>Lemmas about the engine\<close>

lemma check_shares_Inr:
  "check_shares s0 (Some k) ss = Inr () \<Longrightarrow> s \<in> set ss \<Longrightarrow>
   sh_content_hash s = sh_content_hash s0 \<and> sh_threshold s = sh_threshold s0 \<and> is_hybrid s = is_hybrid s0 \<and>
   sh_mac s = compute_share_mac (sh_value s) (sh_index s) (sh_content_hash s) k"
proof (induction ss)
  case (Cons s' ss)
  then show ?case
    by (auto simp: verify_share_mac_def bindr_eq_Inr split: if_splits)
qed simp

lemma share_map_distinct:
  assumes "distinct rids" "length rids \<le> length shares"
  shows "map_of (share_map rids shares) = map_of (zip rids shares)"
proof -
  have "map_of (fold (\<lambda>(i, pid). dict_set pid (shares ! i)) (enumerate 0 rids) []) = map_of (zip rids shares)"
    using assms
  proof (induction rids rule: rev_induct)
    case (snoc r rids)
    have "zip (rids @ [r]) shares = zip rids shares @ [(r, shares ! length rids)]"
      using snoc.prems(2) by (intro nth_equalityI) (auto simp: nth_append less_Suc_eq)
    moreover have "r \<notin> dom (map_of (zip rids shares))" using snoc.prems by (auto dest!: map_of_SomeD set_zip_leftD)
    ultimately show ?case
      using snoc by (simp add: enumerate_append_eq map_add_comm)
  qed simp
  then show ?thesis by (simp add: share_map_def)
qed

lemma split_ok:
  assumes "2 \<le> t" "t \<le> n" "length (dr_aes_key dr) = 32"
  shows "\<exists>shares. split_secret C dr content t n = Inr (shares, dr_hmac_key dr) \<and> length shares = nat n \<and>
    distinct shares \<and> (\<forall>s \<in> set shares. sh_content_hash s = sha256 (utf8 content) \<and> sh_threshold s = t)"
proof -
  obtain chunks where "split_into_chunks (secret_of C dr content) = Inr chunks"
    using split_into_chunks_ok [OF secret_of_short [OF assms(3)]] by blast
  note sp = split_secret_spec [OF assms(1,2) this]
  have d: "distinct (map (make_share dr ch t n hy nc ct all) [0..<k])" for ch hy nc ct all k
  proof -
    have "inj (make_share dr ch t n hy nc ct all)" by (rule inj_on_inverseI [where g = "\<lambda>s. nat (sh_index s - 1)"]) simp
    then show ?thesis by (auto simp: distinct_map intro: inj_on_subset)
  qed
  show ?thesis by (subst sp) (use d in auto)
qed

text \<open>Picking the shares of distinct holders out of the map.\<close>

lemma pick_shares:
  assumes "distinct rids" "length rids = length shares" "distinct shares" "distinct ps" "set ps \<subseteq> set rids"
  defines "ss \<equiv> map (the \<circ> map_of (zip rids shares)) ps"
  shows "distinct ss" "set ss \<subseteq> set shares" "length ss = length ps"
proof -
  have pos: "\<exists>i < length rids. p = rids ! i \<and> the (map_of (zip rids shares) p) = shares ! i" if "p \<in> set ps" for p
  proof -
    from that assms(5) obtain i where i: "i < length rids" "p = rids ! i" by (metis in_set_conv_nth subsetD)
    then show ?thesis using map_of_zip_nth [OF assms(2,1) _ ] assms(2) by fastforce
  qed
  show "length ss = length ps" by (simp add: ss_def)
  show "set ss \<subseteq> set shares" using pos assms(2) by (auto simp: ss_def) (metis nth_mem)
  have "inj_on (the \<circ> map_of (zip rids shares)) (set ps)"
  proof (rule inj_onI)
    fix p q assume "p \<in> set ps" "q \<in> set ps" "(the \<circ> map_of (zip rids shares)) p = (the \<circ> map_of (zip rids shares)) q"
    then show "p = q" using pos [of p] pos [of q] assms(2,3) by (auto simp: nth_eq_iff_index_eq)
  qed
  then show "distinct ss" using assms(4) by (simp add: ss_def distinct_map)
qed

lemma filter_holders: "distinct rids \<Longrightarrow> distinct ps \<Longrightarrow> set ps \<subseteq> set rids \<Longrightarrow>
  length (filter (\<lambda>p. p \<in> set ps) rids) = length ps"
proof -
  assume "distinct rids" "distinct ps" "set ps \<subseteq> set rids"
  then have "card (set (filter (\<lambda>p. p \<in> set ps) rids)) = card (set ps)" by (intro arg_cong [of _ _ card]) auto
  then show ?thesis using \<open>distinct rids\<close> \<open>distinct ps\<close> by (simp only: distinct_card distinct_filter)
qed

section \<open>Properties\<close>

definition sample_draws :: draws where
  "sample_draws = \<lparr>dr_hmac_key = [1, 2, 3], dr_aes_key = replicate 32 7, dr_aes_nonce = replicate 12 5,
     dr_coeff = (\<lambda>c j. 1000 + int c + int j), dr_share_id = ''00ff''\<rparr>"

text \<open>C13: Sharing and reconstruction are inverse: for a threshold of at least two and at most 255
  shares, splitting succeeds, and any choice of distinct shares that reaches the threshold gives
  the content back, with or without the authentication key, on the direct path as well as on the
  hybrid one.\<close>
theorem shares_reconstruct:
  assumes "2 \<le> t" "t \<le> n" "n \<le> 255" "scalar_text content" "aes_correct C" "length (dr_aes_key dr) = 32"
  shows "\<exists>shares. split_secret C dr content t n = Inr (shares, dr_hmac_key dr) \<and> length shares = nat n \<and>
    distinct shares \<and>
    (\<forall>ss k. distinct ss \<and> set ss \<subseteq> set shares \<and> t \<le> int (length ss) \<and> k \<in> {None, Some (dr_hmac_key dr)} \<longrightarrow>
       reconstruct_secret C ss k = Inr (Some content))"
proof -
  obtain shares where s: "split_secret C dr content t n = Inr (shares, dr_hmac_key dr)" "length shares = nat n"
    "distinct shares" using split_ok [OF assms(1,2,6)] by blast
  then show ?thesis using reconstruct_ok [OF assms s(1)] by (intro exI [of _ shares]) blast
qed

theorem shares_reconstruct_witness:
  "\<exists>shares. split_secret toy_crypto sample_draws [104, 228, 8364] 2 3 = Inr (shares, [1, 2, 3]) \<and>
     reconstruct_secret toy_crypto (rev (tl shares)) (Some [1, 2, 3]) = Inr (Some [104, 228, 8364])"
proof -
  have "scalar_text [104, 228, 8364]" by (simp add: scalar_text_def scalar_def)
  then obtain shares where s: "split_secret toy_crypto sample_draws [104, 228, 8364] 2 3 = Inr (shares, [1, 2, 3])"
    "length shares = 3" "distinct shares"
    "\<forall>ss k. distinct ss \<and> set ss \<subseteq> set shares \<and> 2 \<le> int (length ss) \<and> k \<in> {None, Some [1, 2, 3]} \<longrightarrow>
       reconstruct_secret toy_crypto ss k = Inr (Some [104, 228, 8364])"
    using shares_reconstruct [of 2 3 "[104, 228, 8364]" toy_crypto sample_draws] by (auto simp: sample_draws_def)
  moreover have "set (rev (tl shares)) \<subseteq> set shares" by (cases shares) auto
  ultimately show ?thesis by (intro exI [of _ shares]) (simp add: distinct_tl)
qed



text \<open>C15: A reconstruction that is given the authentication key returns only if every share carries
  the code of its own index, value and content hash under that key and all shares agree on the
  content hash and the threshold; and a content it returns decodes from bytes with that hash.\<close>
theorem reconstruction_authenticated:
  assumes "reconstruct_secret C (s0 # ss) (Some k) = Inr r"
  shows "sh_threshold s0 \<le> int (length (s0 # ss)) \<and>
    (\<forall>s \<in> set (s0 # ss). sh_mac s = compute_share_mac (sh_value s) (sh_index s) (sh_content_hash s) k \<and>
       sh_content_hash s = sh_content_hash s0 \<and> sh_threshold s = sh_threshold s0) \<and>
    (\<forall>content. r = Some content \<longrightarrow> (\<exists>b. decode_utf8 b = Some content \<and> sha256 b = sh_content_hash s0))"
proof -
  have "check_shares s0 (Some k) (s0 # ss) = Inr ()"
    using assms unfolding reconstruct_secret_def by (auto simp: bindr_eq_Inr split: if_splits simp del: check_shares.simps)
  then have "\<forall>s \<in> set (s0 # ss). sh_mac s = compute_share_mac (sh_value s) (sh_index s) (sh_content_hash s) k \<and>
       sh_content_hash s = sh_content_hash s0 \<and> sh_threshold s = sh_threshold s0"
    using check_shares_Inr by blast
  moreover have "sh_threshold s0 \<le> int (length (s0 # ss))"
    using assms unfolding reconstruct_secret_def by (auto split: if_splits)
  moreover have "\<exists>b. decode_utf8 b = Some content \<and> sha256 b = sh_content_hash s0" if "r = Some content" for content
    using assms that unfolding reconstruct_secret_def
    by (auto simp: bindr_eq_Inr Let_def simp del: check_shares.simps split: if_splits option.splits)
  ultimately show ?thesis by blast
qed

theorem reconstruction_authenticated_witness:
  "\<exists>s0 ss. split_secret toy_crypto sample_draws [104] 2 2 = Inr (s0 # ss, [1, 2, 3]) \<and>
     (\<forall>s \<in> set (s0 # ss). sh_mac s = compute_share_mac (sh_value s) (sh_index s) (sh_content_hash s) [1, 2, 3])"
proof -
  obtain shares where s: "split_secret toy_crypto sample_draws [104] 2 2 = Inr (shares, [1, 2, 3])"
    "length shares = 2" "distinct shares"
    using split_ok [of 2 2 sample_draws toy_crypto "[104]"] by (auto simp: sample_draws_def)
  then obtain s0 ss where ss: "shares = s0 # ss" by (cases shares) auto
  have "reconstruct_secret toy_crypto shares (Some [1, 2, 3]) = Inr (Some [104])"
    using reconstruct_ok [OF _ _ _ _ _ _ s(1), of shares "Some [1, 2, 3]"] s(2,3)
    by (simp add: scalar_text_def scalar_def sample_draws_def)
  then show ?thesis
    using reconstruction_authenticated [of toy_crypto s0 ss "[1, 2, 3]" "Some [104]"] s(1) unfolding ss by blast
qed

text \<open>The engine's forecast is right for distinct recipients: after a split, \<open>can_reconstruct\<close>
  holds of a set of peers exactly when they reach the threshold, and then the shares they were
  given do reconstruct the content through the engine.\<close>
lemma can_reconstruct_is_right:
  assumes "distinct rids" "2 \<le> length rids" "length rids \<le> 255" "scalar_text content" "aes_correct C"
    and "length (dr_aes_key dr) = 32" "\<forall>t. threshold = Some t \<longrightarrow> 2 \<le> t \<and> t \<le> int (length rids)"
    and "distinct ps" "set ps \<subseteq> set rids"
  shows "\<exists>e' m. split_content C dr content rids threshold e = (e', Inr m) \<and>
    (can_reconstruct e' (sha256 (utf8 content)) (Some ps) \<longleftrightarrow>
       get_threshold e' (sha256 (utf8 content)) \<le> int (length ps)) \<and>
    (can_reconstruct e' (sha256 (utf8 content)) (Some ps) \<longrightarrow>
       reconstruct_content C (map (the \<circ> map_of m) ps) True e' = Inr (Some content))"
proof -
  let ?n = "int (length rids)" and ?h = "sha256 (utf8 content)"
  define t where "t = (case threshold of None \<Rightarrow> max 2 (?n div 2 + 1) | Some t \<Rightarrow> t)"
  have t: "2 \<le> t" "t \<le> ?n" using assms(2,7) by (auto simp: t_def split: option.splits)
  obtain shares where s: "split_secret C dr content t ?n = Inr (shares, dr_hmac_key dr)" "length shares = length rids"
    "distinct shares" "\<forall>s \<in> set shares. sh_content_hash s = ?h"
    using split_ok [OF t assms(6), of C content] by auto
  define e' where "e' = e\<lparr>share_registry := (share_registry e)(?h \<mapsto> rids), hmac_keys := (hmac_keys e)(?h \<mapsto> dr_hmac_key dr),
    authorized_recipients := (authorized_recipients e)(?h \<mapsto> set rids), thresholds := (thresholds e)(?h \<mapsto> t)\<rparr>"
  have "shares \<noteq> []" using s(2) assms(2) by auto
  then have sc: "split_content C dr content rids threshold e = (e', Inr (share_map rids shares))"
    using s(1,4) assms(2) by (simp add: split_content_def t_def [symmetric] e'_def Let_def)
  have cr: "can_reconstruct e' ?h (Some ps) \<longleftrightarrow> t \<le> int (length ps)" "get_threshold e' ?h = t"
    using filter_holders [OF assms(1,8,9)]
    by (simp_all add: can_reconstruct_def get_share_holders_def get_threshold_def e'_def Let_def)
  let ?ss = "map (the \<circ> map_of (share_map rids shares)) ps"
  note p = pick_shares [OF assms(1) s(2) [symmetric] s(3) assms(8,9)]
  have m: "map_of (share_map rids shares) = map_of (zip rids shares)"
    using s(2) by (intro share_map_distinct [OF assms(1)]) simp
  have "reconstruct_content C ?ss True e' = Inr (Some content)" if "t \<le> int (length ps)"
  proof -
    have "ps \<noteq> []" using that t(1) by auto
    then obtain s0 ss where ss: "?ss = s0 # ss" by (cases ps) auto
    have "sh_content_hash s0 = ?h" using ss p(2) s(4) unfolding m by force
    moreover have "reconstruct_secret C ?ss (Some (dr_hmac_key dr)) = Inr (Some content)"
      unfolding m using assms(3-6) p that by (intro reconstruct_ok [OF t _ _ _ _ s(1)]) simp_all
    ultimately show ?thesis unfolding ss by (simp add: reconstruct_content_def e'_def)
  qed
  then show ?thesis using sc cr by auto
qed

text \<open>With a repeated recipient the forecast is wrong: after a split for the recipients
  \<open>[a, a]\<close> there is a single share, and the engine still answers that the content can be
  reconstructed.\<close>
lemma repeated_recipient_overcounted:
  assumes "length (dr_aes_key dr) = 32"
  shows "\<exists>e' s. split_content C dr content [a, a] None e = (e', Inr [(a, s)]) \<and>
    can_reconstruct e' (sha256 (utf8 content)) None \<and> reconstruct_content C [s] True e' = Inl ValueError"
proof -
  obtain shares where s: "split_secret C dr content 2 2 = Inr (shares, dr_hmac_key dr)" "length shares = 2"
    "\<forall>s \<in> set shares. sh_content_hash s = sha256 (utf8 content) \<and> sh_threshold s = 2"
    using split_ok [of 2 2 dr C content] assms by auto
  then obtain s0 s1 where "shares = [s0, s1]" by (metis (no_types) One_nat_def Suc_1 length_0_conv length_Suc_conv)
  with s show ?thesis
    by (simp add: split_content_def share_map_def Let_def can_reconstruct_def get_share_holders_def
        get_threshold_def reconstruct_content_def reconstruct_secret_def)
qed

lemma share_from_to_dict [simp]: "share_from_dict (share_to_dict s) = Inr s"
  by (simp add: share_from_dict_def share_to_dict_def share_fields_def share_arg_def jdefault_def)

end
