(* ===== verification/Timelock.thy ===== *)
theory Timelock
  imports Crypto Json
begin

text \<open>
  \<open>coc_framework/core/timelock.py\<close>: content encrypted under a key that the key store forgets when
  its time is over, the engine on top of it, and the service with a manual clock that tests use.

  Every operation takes the reading of the clock as an argument. The cleanup thread of the key
  store is the operation \<open>cleanup_expired\<close>, which may run between any two others; the lock of the
  store makes each operation atomic. \<open>crypto_available\<close> is the module's flag that the encryption
  package was importable. The metadata of an encrypted content is the very object the engine
  stores; decryption reads only its lock id and content hash, which never change, so a copy is
  enough.
\<close>

section \<open>Data\<close>

datatype timelock_status = ACTIVE | EXPIRED | DESTROYED

record timelock_metadata =
  tm_lock_id :: string
  tm_content_hash :: string
  tm_created_at :: string
  tm_expires_at :: string
  tm_ttl_seconds :: int
  tm_status :: string

definition metadata_to_dict :: "timelock_metadata \<Rightarrow> json" where
  "metadata_to_dict m = JObj
     [(''lock_id'', jstr (tm_lock_id m)), (''content_hash'', jstr (tm_content_hash m)),
      (''created_at'', jstr (tm_created_at m)), (''expires_at'', jstr (tm_expires_at m)),
      (''ttl_seconds'', JInt (tm_ttl_seconds m)), (''status'', jstr (tm_status m))]"

definition metadata_fields :: "string list" where
  "metadata_fields = [''lock_id'', ''content_hash'', ''created_at'', ''expires_at'', ''ttl_seconds'', ''status'']"

definition metadata_arg :: "json \<Rightarrow> string \<Rightarrow> json result" where
  "metadata_arg d k = (case jfield d k of None \<Rightarrow> Inl TypeError | Some j \<Rightarrow> Inr j)"

definition metadata_from_dict :: "json \<Rightarrow> timelock_metadata result" where
  "metadata_from_dict d =
     (case d of
        JObj ms \<Rightarrow>
          if \<not> set (map fst ms) \<subseteq> set metadata_fields then Inl TypeError
          else
            bindr (bindr (metadata_arg d ''lock_id'') as_str) (\<lambda>l.
            bindr (bindr (metadata_arg d ''content_hash'') as_str) (\<lambda>h.
            bindr (bindr (metadata_arg d ''created_at'') as_str) (\<lambda>c.
            bindr (bindr (metadata_arg d ''expires_at'') as_str) (\<lambda>x.
            bindr (bindr (metadata_arg d ''ttl_seconds'') as_int) (\<lambda>t.
            bindr (as_str (jdefault d ''status'' (jstr ''ACTIVE''))) (\<lambda>s.
            Inr \<lparr>tm_lock_id = l, tm_content_hash = h, tm_created_at = c, tm_expires_at = x,
              tm_ttl_seconds = t, tm_status = s\<rparr>))))))
      | _ \<Rightarrow> Inl TypeError)"

definition metadata_is_expired :: "datetime \<Rightarrow> timelock_metadata \<Rightarrow> bool result" where
  "metadata_is_expired now m =
     bindr (read_instant (tm_expires_at m)) (\<lambda>x. Inr (now > x))"

record encrypted_content =
  ec_ciphertext :: bytes
  ec_nonce :: bytes
  ec_metadata :: timelock_metadata

definition encrypted_to_dict :: "encrypted_content \<Rightarrow> json" where
  "encrypted_to_dict e = JObj
     [(''ciphertext'', jstr (bytes_hex (ec_ciphertext e))), (''nonce'', jstr (bytes_hex (ec_nonce e))),
      (''metadata'', metadata_to_dict (ec_metadata e))]"

definition hex_arg :: "json \<Rightarrow> string \<Rightarrow> bytes result" where
  "hex_arg d k = bindr (bindr (jreq d k) as_str)
     (\<lambda>s. case fromhex s of None \<Rightarrow> Inl ValueError | Some b \<Rightarrow> Inr b)"

definition encrypted_from_dict :: "json \<Rightarrow> encrypted_content result" where
  "encrypted_from_dict d =
     bindr (hex_arg d ''ciphertext'') (\<lambda>c.
     bindr (hex_arg d ''nonce'') (\<lambda>n.
     bindr (bindr (jreq d ''metadata'') metadata_from_dict) (\<lambda>m.
     Inr \<lparr>ec_ciphertext = c, ec_nonce = n, ec_metadata = m\<rparr>)))"

section \<open>KeyStore\<close>

type_synonym key_store = "(string \<times> bytes \<times> datetime) list"

text \<open>Overwriting a key with fresh bytes \<open>r\<close> before it is deleted.\<close>

definition secure_wipe :: "bytes \<Rightarrow> string \<Rightarrow> key_store \<Rightarrow> key_store" where
  "secure_wipe r l ks =
     (case map_of ks l of None \<Rightarrow> ks | Some (k, x) \<Rightarrow> dict_set l (r, x) ks)"

definition cleanup_expired :: "datetime \<Rightarrow> (string \<Rightarrow> bytes) \<Rightarrow> key_store \<Rightarrow> key_store" where
  "cleanup_expired now rnd ks =
     (let expired = map fst (filter (\<lambda>(l, k, x). now > x) ks)
      in fold (\<lambda>l ks. dict_del l (secure_wipe (rnd l) l ks)) expired ks)"

definition store_key :: "string \<Rightarrow> bytes \<Rightarrow> datetime \<Rightarrow> key_store \<Rightarrow> key_store" where
  "store_key l k x ks = dict_set l (k, x) ks"

definition get_key :: "datetime \<Rightarrow> bytes \<Rightarrow> string \<Rightarrow> key_store \<Rightarrow> key_store \<times> bytes option" where
  "get_key now r l ks =
     (case map_of ks l of
        None \<Rightarrow> (ks, None)
      | Some (k, x) \<Rightarrow> if now > x then (dict_del l (secure_wipe r l ks), None) else (ks, Some k))"

definition destroy_key :: "bytes \<Rightarrow> string \<Rightarrow> key_store \<Rightarrow> key_store \<times> bool" where
  "destroy_key r l ks =
     (case map_of ks l of
        None \<Rightarrow> (ks, False)
      | Some _ \<Rightarrow> (dict_del l (secure_wipe r l ks), True))"

definition has_key :: "datetime \<Rightarrow> bytes \<Rightarrow> string \<Rightarrow> key_store \<Rightarrow> key_store \<times> bool" where
  "has_key now r l ks = (let (ks', k) = get_key now r l ks in (ks', k \<noteq> None))"

definition get_expiry :: "string \<Rightarrow> key_store \<Rightarrow> datetime option" where
  "get_expiry l ks = map_option snd (map_of ks l)"

section \<open>TimeLockEngine\<close>

record timelock_engine =
  te_keys :: key_store
  te_metadata :: "string \<rightharpoonup> timelock_metadata"
  te_callbacks :: "string set"
  crypto_available :: bool

definition new_timelock_engine :: "bool \<Rightarrow> timelock_engine" where
  "new_timelock_engine av =
     \<lparr>te_keys = [], te_metadata = Map.empty, te_callbacks = {}, crypto_available = av\<rparr>"

text \<open>The values \<open>encrypt\<close> draws.\<close>

record lock_draws =
  ld_lock_id :: string
  ld_key :: bytes
  ld_nonce :: bytes

definition encrypt ::
  "crypto \<Rightarrow> datetime \<Rightarrow> lock_draws \<Rightarrow> ustr \<Rightarrow> int \<Rightarrow> bool \<Rightarrow> timelock_engine
   \<Rightarrow> timelock_engine \<times> encrypted_content result" where
  "encrypt C now d content ttl on_expire e =
     (let expires = now + seconds ttl; plaintext = utf8 content
      in if \<not> dt_ok expires then (e, Inl OverflowError)
         else if \<not> crypto_available e then (e, Inl CryptoUnavailableError)
         else
           let ciphertext = aes_enc C (ld_key d) (ld_nonce d) plaintext;
               m = \<lparr>tm_lock_id = ld_lock_id d, tm_content_hash = sha256 plaintext,
                    tm_created_at = isoformat now, tm_expires_at = isoformat expires,
                    tm_ttl_seconds = ttl, tm_status = ''ACTIVE''\<rparr>
           in (e\<lparr>te_keys := store_key (ld_lock_id d) (ld_key d) expires (te_keys e),
                 te_metadata := (te_metadata e)(ld_lock_id d \<mapsto> m),
                 te_callbacks := (if on_expire then insert (ld_lock_id d) (te_callbacks e) else te_callbacks e)\<rparr>,
               Inr \<lparr>ec_ciphertext = ciphertext, ec_nonce = ld_nonce d, ec_metadata = m\<rparr>))"

definition mark_expired :: "string \<Rightarrow> timelock_engine \<Rightarrow> timelock_engine" where
  "mark_expired l e =
     (case te_metadata e l of
        None \<Rightarrow> e
      | Some m \<Rightarrow>
          if tm_status m \<noteq> ''DESTROYED''
          then e\<lparr>te_metadata := (te_metadata e)(l \<mapsto> m\<lparr>tm_status := ''EXPIRED''\<rparr>)\<rparr> else e)"

definition decrypt ::
  "crypto \<Rightarrow> datetime \<Rightarrow> bytes \<Rightarrow> encrypted_content \<Rightarrow> timelock_engine \<Rightarrow> timelock_engine \<times> ustr option" where
  "decrypt C now r enc e =
     (let l = tm_lock_id (ec_metadata enc);
          (ks, key) = get_key now r l (te_keys e);
          e1 = e\<lparr>te_keys := ks\<rparr>
      in case key of
           None \<Rightarrow> (mark_expired l e1, None)
         | Some k \<Rightarrow>
             if \<not> crypto_available e then (e1, None)
             else case aes_dec C k (ec_nonce enc) (ec_ciphertext enc) of
                    None \<Rightarrow> (e1, None)
                  | Some plaintext \<Rightarrow>
                      (case decode_utf8 plaintext of
                         None \<Rightarrow> (e1, None)
                       | Some content \<Rightarrow>
                           if sha256 plaintext \<noteq> tm_content_hash (ec_metadata enc) then (e1, None)
                           else (e1, Some content)))"

definition destroy :: "bytes \<Rightarrow> string \<Rightarrow> timelock_engine \<Rightarrow> timelock_engine \<times> bool" where
  "destroy r l e =
     (let (ks, success) = destroy_key r l (te_keys e); e1 = e\<lparr>te_keys := ks\<rparr>
      in if success \<and> te_metadata e l \<noteq> None
         then (e1\<lparr>te_metadata := (te_metadata e)(l := map_option (tm_status_update (\<lambda>_. ''DESTROYED'')) (te_metadata e l))\<rparr>, True)
         else (e1, success))"

definition get_status :: "datetime \<Rightarrow> bytes \<Rightarrow> string \<Rightarrow> timelock_engine \<Rightarrow> timelock_engine \<times> timelock_status" where
  "get_status now r l e =
     (case te_metadata e l of
        None \<Rightarrow> (e, DESTROYED)
      | Some m \<Rightarrow>
          if tm_status m = ''DESTROYED'' then (e, DESTROYED)
          else let (ks, has) = has_key now r l (te_keys e)
               in (e\<lparr>te_keys := ks\<rparr>, if has then ACTIVE else EXPIRED))"

text \<open>Seconds are kept in microseconds.\<close>

definition get_remaining_time :: "datetime \<Rightarrow> string \<Rightarrow> timelock_engine \<Rightarrow> int option" where
  "get_remaining_time now l e = map_option (\<lambda>x. max 0 (x - now)) (get_expiry l (te_keys e))"

definition extend_ttl ::
  "datetime \<Rightarrow> bytes \<Rightarrow> string \<Rightarrow> int \<Rightarrow> timelock_engine \<Rightarrow> timelock_engine \<times> bool result" where
  "extend_ttl now r l additional e =
     (let (ks, key) = get_key now r l (te_keys e); e1 = e\<lparr>te_keys := ks\<rparr>
      in case key of
           None \<Rightarrow> (e1, Inr False)
         | Some k \<Rightarrow>
             (case get_expiry l ks of
                None \<Rightarrow> (e1, Inr False)
              | Some x \<Rightarrow>
                  let x' = x + seconds additional
                  in if \<not> dt_ok x' then (e1, Inl OverflowError)
                     else (e1\<lparr>te_keys := store_key l k x' ks,
                              te_metadata := (te_metadata e)(l := map_option
                                (\<lambda>m. m\<lparr>tm_expires_at := isoformat x', tm_ttl_seconds := tm_ttl_seconds m + additional\<rparr>)
                                (te_metadata e l))\<rparr>, Inr True)))"

section \<open>SimulatedTimeLockService\<close>

record sim_service =
  ss_time :: datetime
  ss_locks :: "string \<rightharpoonup> bytes \<times> bytes \<times> bytes \<times> int"
  ss_created :: "string \<rightharpoonup> datetime"
  ss_crypto :: bool

definition new_service :: "datetime \<Rightarrow> bool \<Rightarrow> sim_service" where
  "new_service now av = \<lparr>ss_time = now, ss_locks = Map.empty, ss_created = Map.empty, ss_crypto = av\<rparr>"

definition set_time :: "datetime \<Rightarrow> sim_service \<Rightarrow> sim_service" where
  "set_time t s = s\<lparr>ss_time := t\<rparr>"

definition advance_time :: "int \<Rightarrow> sim_service \<Rightarrow> sim_service result" where
  "advance_time us s =
     (if dt_ok (ss_time s + us) then Inr (s\<lparr>ss_time := ss_time s + us\<rparr>) else Inl OverflowError)"

definition sim_encrypt ::
  "crypto \<Rightarrow> lock_draws \<Rightarrow> ustr \<Rightarrow> int \<Rightarrow> sim_service \<Rightarrow> sim_service \<times> (string \<times> bytes) result" where
  "sim_encrypt C d content ttl s =
     (if \<not> ss_crypto s then (s, Inl CryptoUnavailableError)
      else
        let ciphertext = aes_enc C (ld_key d) (ld_nonce d) (utf8 content)
        in (s\<lparr>ss_locks := (ss_locks s)(ld_lock_id d \<mapsto> (ld_key d, ld_nonce d, ciphertext, ttl)),
              ss_created := (ss_created s)(ld_lock_id d \<mapsto> ss_time s)\<rparr>,
            Inr (ld_lock_id d, ciphertext)))"

definition sim_is_expired :: "string \<Rightarrow> sim_service \<Rightarrow> bool result" where
  "sim_is_expired l s =
     (case ss_locks s l of
        None \<Rightarrow> Inr True
      | Some (k, n, c, ttl) \<Rightarrow>
          (case ss_created s l of
             None \<Rightarrow> Inl KeyError
           | Some t \<Rightarrow> Inr (ss_time s - t > seconds ttl)))"

definition sim_decrypt :: "crypto \<Rightarrow> string \<Rightarrow> sim_service \<Rightarrow> sim_service \<times> ustr option result" where
  "sim_decrypt C l s =
     (case ss_locks s l of
        None \<Rightarrow> (s, Inr None)
      | Some (k, n, c, ttl) \<Rightarrow>
          (case ss_created s l of
             None \<Rightarrow> (s, Inl KeyError)
           | Some t \<Rightarrow>
               if ss_time s - t > seconds ttl
               then (s\<lparr>ss_locks := (ss_locks s)(l := None), ss_created := (ss_created s)(l := None)\<rparr>, Inr None)
               else if \<not> ss_crypto s then (s, Inr None)
               else (s, Inr (case aes_dec C k n c of None \<Rightarrow> None | Some p \<Rightarrow> decode_utf8 p))))"

section \<open>Lemmas\<close>

declare map_of_eq_Some_iff [simp del]

lemma metadata_from_to_dict [simp]: "metadata_from_dict (metadata_to_dict m) = Inr m"
  by (simp add: metadata_from_dict_def metadata_to_dict_def metadata_fields_def metadata_arg_def jdefault_def)

lemma encrypted_from_to_dict: "encrypted_from_dict (encrypted_to_dict e) = Inr e"
proof -
  have "metadata_to_dict m = JObj ms \<Longrightarrow> metadata_from_dict (JObj ms) = Inr m" for m ms
    using metadata_from_to_dict [of m] by simp
  then show ?thesis
    by (simp add: encrypted_from_dict_def encrypted_to_dict_def hex_arg_def jreq_def)
qed

lemma map_of_secure_wipe [lock_simps]: "l' \<noteq> l \<Longrightarrow> map_of (secure_wipe r l ks) l' = map_of ks l'"
  by (auto simp: secure_wipe_def split: option.splits)

lemma map_of_wipe_del [lock_simps]: "map_of (dict_del l (secure_wipe r l ks)) = (map_of ks)(l := None)"
  by (auto simp: fun_eq_iff lock_simps)

lemma map_of_wipe_all:
  "map_of (fold (\<lambda>l ks. dict_del l (secure_wipe (rnd l) l ks)) ls ks) l =
     (if l \<in> set ls then None else map_of ks l)"
proof (induction ls arbitrary: ks)
  case (Cons a ls)
  then show ?case by (simp add: lock_simps)
qed simp

lemma dict_set_distinct_keys: "distinct (map fst ks) \<Longrightarrow> distinct (map fst (dict_del l (secure_wipe r l ks)))"
  by (auto simp: secure_wipe_def intro!: distinct_dict_del distinct_dict_set split: option.splits)

lemma map_of_cleanup [lock_simps]:
  assumes "distinct (map fst ks)"
  shows "map_of (cleanup_expired now rnd ks) l =
    (case map_of ks l of None \<Rightarrow> None | Some (k, x) \<Rightarrow> if now > x then None else Some (k, x))"
proof -
  have "l \<in> set (map fst (filter (\<lambda>(l, k, x). now > x) ks)) \<longleftrightarrow> (\<exists>k x. map_of ks l = Some (k, x) \<and> now > x)"
    using assms by (force simp: map_of_eq_Some_iff)
  then show ?thesis
    unfolding cleanup_expired_def Let_def map_of_wipe_all by (auto split: option.splits)
qed

section \<open>The life of a lock\<close>

text \<open>
  What the engine promises of one lock: it lives until its expiry, an extension moves the expiry
  of a lock that is still alive, destruction ends it, and nothing revives it. \<open>life_step\<close> says so
  without any store, and the store follows it whenever the cleanup happens to run.
\<close>

datatype lock_op =
    Encrypt lock_draws ustr int bool
  | Decrypt encrypted_content bytes
  | Destroy string bytes
  | Status string bytes
  | Extend string int bytes
  | Cleanup "string \<Rightarrow> bytes"

fun lock_step :: "crypto \<Rightarrow> datetime \<times> lock_op \<Rightarrow> timelock_engine \<Rightarrow> timelock_engine" where
  "lock_step C (now, Encrypt d c ttl cb) e = fst (encrypt C now d c ttl cb e)"
| "lock_step C (now, Decrypt enc r) e = fst (decrypt C now r enc e)"
| "lock_step C (now, Destroy l r) e = fst (destroy r l e)"
| "lock_step C (now, Status l r) e = fst (get_status now r l e)"
| "lock_step C (now, Extend l s r) e = fst (extend_ttl now r l s e)"
| "lock_step C (now, Cleanup rnd) e = e\<lparr>te_keys := cleanup_expired now rnd (te_keys e)\<rparr>"

definition redraws :: "string \<Rightarrow> lock_op \<Rightarrow> bool" where
  "redraws l x = (case x of Encrypt d c ttl cb \<Rightarrow> ld_lock_id d = l | _ \<Rightarrow> False)"

definition life_step :: "string \<Rightarrow> datetime \<times> lock_op \<Rightarrow> datetime option \<Rightarrow> datetime option" where
  "life_step l = (\<lambda>(now, x) life.
     (case life of
        None \<Rightarrow> None
      | Some t \<Rightarrow>
          if now > t then None
          else (case x of
                  Destroy l' r \<Rightarrow> if l' = l then None else Some t
                | Extend l' s r \<Rightarrow> if l' = l \<and> dt_ok (t + seconds s) then Some (t + seconds s) else Some t
                | _ \<Rightarrow> Some t)))"

text \<open>The entry of a lock as a reader at time \<open>u\<close> finds it.\<close>

definition live_key :: "datetime \<Rightarrow> string \<Rightarrow> key_store \<Rightarrow> (bytes \<times> datetime) option" where
  "live_key u l ks = (case map_of ks l of None \<Rightarrow> None | Some (k, x) \<Rightarrow> if u > x then None else Some (k, x))"

definition tracks :: "datetime \<Rightarrow> string \<Rightarrow> bytes \<Rightarrow> datetime option \<Rightarrow> key_store \<Rightarrow> bool" where
  "tracks now l k life ks \<longleftrightarrow> distinct (map fst ks) \<and>
     (\<forall>u \<ge> now. live_key u l ks = (case life of None \<Rightarrow> None | Some x \<Rightarrow> if u > x then None else Some (k, x)))"

lemma tracks_mono: "tracks now l k life ks \<Longrightarrow> now \<le> now' \<Longrightarrow> tracks now' l k life ks"
  by (simp add: tracks_def)

text \<open>An expired life and a dead one look the same from then on.\<close>

lemma tracks_expire: "tracks now l k life ks \<Longrightarrow> tracks now l k (case life of None \<Rightarrow> None | Some x \<Rightarrow> if now > x then None else life) ks"
  by (auto simp: tracks_def split: option.splits)

lemma tracks_same: "tracks now l k life ks \<Longrightarrow> distinct (map fst ks') \<Longrightarrow>
  (\<And>u. now \<le> u \<Longrightarrow> live_key u l ks' = live_key u l ks) \<Longrightarrow> tracks now l k life ks'"
  by (simp add: tracks_def)

lemma live_key_other: "l' \<noteq> l \<Longrightarrow> live_key u l (dict_set l' v ks) = live_key u l ks"
  by (simp add: live_key_def)

lemma get_key_live:
  "snd (get_key now r l ks) = map_option fst (live_key now l ks)"
  by (auto simp: get_key_def live_key_def split: option.splits)

lemma get_key_store:
  assumes "distinct (map fst ks)"
  shows "distinct (map fst (fst (get_key now r l' ks)))"
    "now \<le> u \<Longrightarrow> live_key u l (fst (get_key now r l' ks)) = live_key u l ks"
  using assms by (auto simp: get_key_def live_key_def lock_simps dict_set_distinct_keys split: option.splits)

lemma get_key_tracks: "tracks now l k life ks \<Longrightarrow> tracks now l k life (fst (get_key now r l' ks))"
  by (auto simp: tracks_def get_key_store)

lemma cleanup_tracks: "tracks now l k life ks \<Longrightarrow> tracks now l k life (cleanup_expired now rnd ks)"
proof -
  assume t: "tracks now l k life ks"
  then have d: "distinct (map fst ks)" by (simp add: tracks_def)
  have "distinct (map fst (fold (\<lambda>l ks. dict_del l (secure_wipe (rnd l) l ks)) ls ks))"
    if "distinct (map fst ks)" for ls and ks :: key_store
    using that by (induction ls arbitrary: ks) (simp_all add: dict_set_distinct_keys)
  with d have "distinct (map fst (cleanup_expired now rnd ks))" by (simp add: cleanup_expired_def)
  with t show ?thesis
    by (rule tracks_same) (auto simp: live_key_def map_of_cleanup [OF d] split: option.splits)
qed

lemma te_keys_mark_expired [simp]: "te_keys (mark_expired l e) = te_keys e"
  by (auto simp: mark_expired_def split: option.splits)

lemma decrypt_keys: "te_keys (fst (decrypt C now r enc e)) = fst (get_key now r (tm_lock_id (ec_metadata enc)) (te_keys e))"
  by (auto simp: decrypt_def Let_def split: prod.splits option.splits)

lemma status_keys: "te_keys (fst (get_status now r l e)) \<in> {te_keys e, fst (get_key now r l (te_keys e))}"
  by (auto simp: get_status_def has_key_def Let_def split: prod.splits option.splits)

lemma destroy_tracks:
  assumes "tracks now l k life (te_keys e)"
  shows "tracks now l k (if l' = l then None else life) (te_keys (fst (destroy r l' e)))"
proof -
  have k: "te_keys (fst (destroy r l' e)) = fst (destroy_key r l' (te_keys e))"
    by (auto simp: destroy_def Let_def split: prod.splits)
  show ?thesis
    unfolding k destroy_key_def using assms
    by (auto simp: tracks_def live_key_def lock_simps dict_set_distinct_keys split: option.splits if_splits)
qed

lemma extend_tracks:
  assumes "tracks now l k (Some t) (te_keys e)" "now \<le> t"
  shows "tracks now l k (if l' = l \<and> dt_ok (t + seconds s) then Some (t + seconds s) else Some t)
    (te_keys (fst (extend_ttl now r l' s e)))"
proof (cases "l' = l")
  case True
  have lk: "live_key now l (te_keys e) = Some (k, t)" using assms by (auto simp: tracks_def)
  then have m: "map_of (te_keys e) l = Some (k, t)" by (auto simp: live_key_def split: option.splits if_splits)
  then have "te_keys (fst (extend_ttl now r l s e)) =
      (if dt_ok (t + seconds s) then store_key l k (t + seconds s) (te_keys e) else te_keys e)"
    using assms(2) by (simp add: extend_ttl_def get_key_def get_expiry_def Let_def)
  then show ?thesis
    using assms(1) True by (auto simp: tracks_def live_key_def store_key_def distinct_dict_set)
next
  case False
  let ?ks = "fst (get_key now r l' (te_keys e))"
  have "te_keys (fst (extend_ttl now r l' s e)) \<in> {?ks} \<union> range (\<lambda>(k, x). store_key l' k x ?ks)"
    by (auto simp: extend_ttl_def Let_def split: prod.splits option.splits)
  moreover have "tracks now l k (Some t) ?ks" using assms(1) by (rule get_key_tracks)
  ultimately show ?thesis
    using False by (auto simp: tracks_def store_key_def live_key_other distinct_dict_set)
qed

lemma lock_step_tracks:
  assumes "tracks now l k life (te_keys e)" "\<not> redraws l x"
  shows "tracks now l k (life_step l (now, x) life) (te_keys (lock_step C (now, x) e))"
proof -
  define life' where "life' = (case life of None \<Rightarrow> None | Some t \<Rightarrow> if now > t then None else life)"
  have t: "tracks now l k life' (te_keys e)" unfolding life'_def by (rule tracks_expire [OF assms(1)])
  have ls: "life_step l (now, x) life = life_step l (now, x) life'"
    by (auto simp: life_step_def life'_def split: option.splits)
  have a: "\<And>y. life' = Some y \<Longrightarrow> now \<le> y" by (auto simp: life'_def split: option.splits if_splits)
  show ?thesis
  proof (cases x)
    case (Encrypt d c ttl cb)
    then have "te_keys (lock_step C (now, x) e) \<in> {te_keys e} \<union> range (\<lambda>(k, x). store_key (ld_lock_id d) k x (te_keys e))"
      by (auto simp: encrypt_def Let_def)
    moreover have "life_step l (now, x) life' = life'" using a Encrypt by (auto simp: life_step_def split: option.splits)
    moreover have "ld_lock_id d \<noteq> l" using assms(2) Encrypt by (simp add: redraws_def)
    ultimately show ?thesis unfolding ls using t by (auto simp: tracks_def store_key_def live_key_other distinct_dict_set)
  next
    case (Decrypt enc r)
    then have "life_step l (now, x) life' = life'" using a by (auto simp: life_step_def split: option.splits)
    then show ?thesis unfolding ls using Decrypt t by (simp add: decrypt_keys get_key_tracks)
  next
    case (Destroy l' r)
    then have "life_step l (now, x) life' = (if l' = l then None else life')"
      using a by (auto simp: life_step_def split: option.splits)
    then show ?thesis unfolding ls using Destroy destroy_tracks [OF t] by simp
  next
    case (Status l' r)
    then have "life_step l (now, x) life' = life'" using a by (auto simp: life_step_def split: option.splits)
    moreover have "tracks now l k life' (te_keys (fst (get_status now r l' e)))"
      using status_keys [of now r l' e] t get_key_tracks [OF t] by auto
    ultimately show ?thesis unfolding ls using Status by simp
  next
    case (Extend l' s r)
    show ?thesis
    proof (cases life')
      case None
      have "te_keys (fst (extend_ttl now r l' s e)) = fst (get_key now r l' (te_keys e)) \<or> l' \<noteq> l \<and>
          te_keys (fst (extend_ttl now r l' s e)) \<in> range (\<lambda>(k, x). store_key l' k x (fst (get_key now r l' (te_keys e))))"
        using t get_key_live [of now r l "te_keys e"] None
        by (auto simp: extend_ttl_def Let_def tracks_def split: prod.splits option.splits)
      then show ?thesis
        unfolding ls using None Extend get_key_tracks [OF t, of r l']
        by (auto simp: tracks_def store_key_def live_key_other distinct_dict_set life_step_def)
    next
      case (Some y)
      then show ?thesis
        unfolding ls using Extend extend_tracks [of now l k y e l' s r] t a by (simp add: life_step_def)
    qed
  next
    case (Cleanup rnd)
    then have "life_step l (now, x) life' = life'" using a by (auto simp: life_step_def split: option.splits)
    then show ?thesis unfolding ls using Cleanup t cleanup_tracks by simp
  qed
qed

lemma lock_run_tracks:
  "tracks t0 l k life (te_keys e) \<Longrightarrow> sorted (t0 # map fst ops @ [now]) \<Longrightarrow> \<forall>x \<in> set ops. \<not> redraws l (snd x) \<Longrightarrow>
   tracks now l k (fold (life_step l) ops life) (te_keys (fold (lock_step C) ops e))"
proof (induction ops arbitrary: t0 life e)
  case Nil
  then show ?case by (simp add: tracks_mono)
next
  case (Cons y ops)
  obtain t x where y: "y = (t, x)" by (cases y)
  have "tracks t l k life (te_keys e)" using Cons.prems y by (auto intro: tracks_mono)
  from lock_step_tracks [OF this, of x C] Cons y show ?case by auto
qed

lemma encrypt_Inr:
  assumes "encrypt C t0 d content ttl cb e0 = (e, Inr enc)"
  shows "te_keys e = store_key (ld_lock_id d) (ld_key d) (t0 + seconds ttl) (te_keys e0)"
    "crypto_available e" "dt_ok (t0 + seconds ttl)" "tm_lock_id (ec_metadata enc) = ld_lock_id d"
    "tm_content_hash (ec_metadata enc) = sha256 (utf8 content)" "ec_nonce enc = ld_nonce d"
    "ec_ciphertext enc = aes_enc C (ld_key d) (ld_nonce d) (utf8 content)"
  using assms by (auto simp: encrypt_def Let_def split: if_splits)

lemma crypto_available_run [simp]: "crypto_available (fold (lock_step C) ops e) = crypto_available e"
proof (induction ops arbitrary: e)
  case (Cons y ops)
  have "crypto_available (lock_step C y e) = crypto_available e"
    by (cases "(C, y, e)" rule: lock_step.cases)
       (auto simp: encrypt_def decrypt_def destroy_def get_status_def extend_ttl_def mark_expired_def Let_def
         split: prod.splits option.splits)
  with Cons show ?case by simp
qed simp

lemma decrypt_live:
  assumes "aes_correct C" "length (ld_key d) = 32" "scalar_text content" "encrypt C t0 d content ttl cb e0 = (e, Inr enc)"
    and "crypto_available e'" "tracks now (ld_lock_id d) (ld_key d) life (te_keys e')"
  shows "snd (decrypt C now r enc e') =
    (case life of None \<Rightarrow> None | Some x \<Rightarrow> if now > x then None else Some content)"
proof -
  note enc = encrypt_Inr [OF assms(4)]
  have k: "snd (get_key now r (ld_lock_id d) (te_keys e')) =
      (case life of None \<Rightarrow> None | Some x \<Rightarrow> if now > x then None else Some (ld_key d))"
    using assms(6) by (auto simp: get_key_live tracks_def split: option.splits)
  have "aes_dec C (ld_key d) (ld_nonce d) (aes_enc C (ld_key d) (ld_nonce d) (utf8 content)) = Some (utf8 content)"
    using assms(1,2) by (simp add: aes_correct_def)
  note aes = this
  obtain ks key where g: "get_key now r (ld_lock_id d) (te_keys e') = (ks, key)" by fastforce
  show ?thesis
  proof (cases key)
    case None
    then have "snd (decrypt C now r enc e') = None" by (simp add: decrypt_def enc(4) g)
    then show ?thesis using k g None by (auto split: option.splits if_splits)
  next
    case (Some k')
    with k g have "k' = ld_key d" by (auto split: option.splits if_splits)
    then have "snd (decrypt C now r enc e') = Some content"
      using Some assms(5) aes decode_utf8_utf8 [OF assms(3)] by (simp add: decrypt_def enc g)
    then show ?thesis using k g Some by (auto split: option.splits if_splits)
  qed
qed

section \<open>Properties\<close>

text \<open>C16: Time-locked content can be read exactly while its lock lives: whatever happens to this and
  to other locks in between, and whenever the cleanup runs, decryption gives the content back if the
  lock was not destroyed and its expiry, moved by the extensions that came in time, is not over, and
  gives nothing otherwise.\<close>
theorem timelock_readable_iff_alive:
  assumes "aes_correct C" "length (ld_key d) = 32" "scalar_text content" "distinct (map fst (te_keys e0))"
    and "encrypt C t0 d content ttl cb e0 = (e, Inr enc)"
    and "sorted (t0 # map fst ops @ [now])" "\<forall>x \<in> set ops. \<not> redraws (ld_lock_id d) (snd x)"
  shows "snd (decrypt C now r enc (fold (lock_step C) ops e)) =
    (case fold (life_step (ld_lock_id d)) ops (Some (t0 + seconds ttl)) of
       None \<Rightarrow> None
     | Some x \<Rightarrow> if now > x then None else Some content)"
proof -
  have "tracks t0 (ld_lock_id d) (ld_key d) (Some (t0 + seconds ttl)) (te_keys e)"
    using assms(4) by (simp add: tracks_def encrypt_Inr(1) [OF assms(5)] store_key_def live_key_def distinct_dict_set)
  from lock_run_tracks [OF this assms(6,7), of C] show ?thesis
    by (intro decrypt_live [OF assms(1-3,5)]) (simp_all add: encrypt_Inr(2) [OF assms(5)])
qed

definition sample_lock :: lock_draws where
  "sample_lock = \<lparr>ld_lock_id = ''l1'', ld_key = replicate 32 9, ld_nonce = replicate 12 1\<rparr>"

theorem timelock_readable_iff_alive_witness:
  "\<exists>e enc. encrypt toy_crypto 0 sample_lock [104, 105] 10 False (new_timelock_engine True) = (e, Inr enc) \<and>
     snd (decrypt toy_crypto (seconds 12) [] enc (fold (lock_step toy_crypto) [(seconds 4, Extend ''l1'' 5 [])] e)) =
       Some [104, 105] \<and>
     snd (decrypt toy_crypto (seconds 16) [] enc (fold (lock_step toy_crypto) [(seconds 4, Extend ''l1'' 5 [])] e)) = None"
proof -
  have dt: "dt_ok (seconds 10)" "dt_ok (seconds 10 + seconds 5)"
    by (simp_all add: dt_ok_def dt_min_def dt_max_def seconds_def)
  obtain e enc where e: "encrypt toy_crypto 0 sample_lock [104, 105] 10 False (new_timelock_engine True) = (e, Inr enc)"
    using dt by (simp add: encrypt_def new_timelock_engine_def Let_def)
  have p: "snd (decrypt toy_crypto now [] enc (fold (lock_step toy_crypto) [(seconds 4, Extend ''l1'' 5 [])] e)) =
    (case fold (life_step (ld_lock_id sample_lock)) [(seconds 4, Extend ''l1'' 5 [])] (Some (0 + seconds 10)) of
       None \<Rightarrow> None | Some x \<Rightarrow> if now > x then None else Some [104, 105])" if "seconds 4 \<le> now" for now
    by (rule timelock_readable_iff_alive [OF _ _ _ _ e])
       (use that in \<open>simp_all add: sample_lock_def scalar_text_def scalar_def new_timelock_engine_def redraws_def seconds_def\<close>)
  show ?thesis
    using e p [of "seconds 12"] p [of "seconds 16"] dt
    by (intro exI [of _ e] exI [of _ enc]) (simp add: life_step_def sample_lock_def seconds_def)
qed

text \<open>C17: The service with the manual clock stands for the real engine: encrypting at one time and
  decrypting at another gives the same answer in both, and that answer is the content exactly when
  the lifetime is not over.\<close>
theorem simulated_service_agrees:
  assumes "aes_correct C" "length (ld_key d) = 32" "scalar_text content" "dt_ok (t0 + seconds ttl)" "t0 \<le> t1"
  shows "\<exists>e enc s. encrypt C t0 d content ttl False (new_timelock_engine True) = (e, Inr enc) \<and>
    sim_encrypt C d content ttl (new_service t0 True) = (s, Inr (ld_lock_id d, ec_ciphertext enc)) \<and>
    snd (sim_decrypt C (ld_lock_id d) (set_time t1 s)) = Inr (snd (decrypt C t1 r enc e)) \<and>
    snd (decrypt C t1 r enc e) = (if t1 - t0 \<le> seconds ttl then Some content else None)"
proof -
  obtain e enc where e: "encrypt C t0 d content ttl False (new_timelock_engine True) = (e, Inr enc)"
    using assms(4) by (simp add: encrypt_def new_timelock_engine_def Let_def)
  note enc = encrypt_Inr [OF e]
  have "tracks t1 (ld_lock_id d) (ld_key d) (Some (t0 + seconds ttl)) (te_keys e)"
    by (simp add: tracks_def enc(1) store_key_def live_key_def new_timelock_engine_def)
  from decrypt_live [OF assms(1-3) e enc(2) this, of r]
  have dec: "snd (decrypt C t1 r enc e) = (if t1 - t0 \<le> seconds ttl then Some content else None)" by auto
  obtain s where s: "sim_encrypt C d content ttl (new_service t0 True) = (s, Inr (ld_lock_id d, ec_ciphertext enc))"
    by (simp add: sim_encrypt_def new_service_def Let_def enc(7))
  then have "snd (sim_decrypt C (ld_lock_id d) (set_time t1 s)) =
      Inr (if t1 - t0 \<le> seconds ttl then Some content else None)"
    using assms(1,2) decode_utf8_utf8 [OF assms(3)] unfolding enc(7)
    by (auto simp: sim_encrypt_def sim_decrypt_def new_service_def set_time_def Let_def aes_correct_def)
  with e s dec show ?thesis by auto
qed

theorem simulated_service_agrees_witness:
  "\<exists>e enc s. encrypt toy_crypto 0 sample_lock [104] 10 False (new_timelock_engine True) = (e, Inr enc) \<and>
     sim_encrypt toy_crypto sample_lock [104] 10 (new_service 0 True) = (s, Inr (ld_lock_id sample_lock, ec_ciphertext enc)) \<and>
     snd (sim_decrypt toy_crypto (ld_lock_id sample_lock) (set_time (seconds 3) s)) = Inr (snd (decrypt toy_crypto (seconds 3) [] enc e)) \<and>
     snd (decrypt toy_crypto (seconds 3) [] enc e) = (if seconds 3 - 0 \<le> seconds 10 then Some [104] else None)"
  by (rule simulated_service_agrees)
     (simp_all add: sample_lock_def scalar_text_def scalar_def dt_ok_def dt_min_def dt_max_def seconds_def)

end
