(* ===== verification/Wire.thy ===== *)
theory Wire
  imports Json
begin

text \<open>
  What the network code uses of the standard library besides JSON: \<open>base64\<close> with the lenient
  decoder of \<open>b64decode\<close>, \<open>json.loads\<close> on text decoded from bytes, and the truth value and
  \<open>str()\<close> of a value that came out of \<open>json.loads\<close>. Whether a code point above 126 is printable,
  which \<open>repr\<close> looks up in the Unicode database, is an argument.
\<close>

section \<open>ASCII texts\<close>

definition ascii :: "string \<Rightarrow> bool" where
  "ascii s \<longleftrightarrow> (\<forall>c \<in> set s. of_char c < (128 :: nat))"

lemma ascii_simps [simp]:
  "ascii []" "ascii (c # s) \<longleftrightarrow> of_char c < (128 :: nat) \<and> ascii s" "ascii (s @ t) \<longleftrightarrow> ascii s \<and> ascii t"
  by (auto simp: ascii_def)

lemma ascii_join: "ascii sep \<Longrightarrow> \<forall>s \<in> set ss. ascii s \<Longrightarrow> ascii (join sep ss)"
  by (induction sep ss rule: join.induct) auto

lemma ascii_hexd: "n < 16 \<Longrightarrow> of_char (hexd n) < (128 :: nat)"
  by (simp add: of_char_hexd)

lemma ascii_digits: "2 \<le> b \<Longrightarrow> b \<le> 16 \<Longrightarrow> ascii (map hexd (to_digits b n))"
  using to_digits_bound [of b] by (force simp: ascii_def intro: ascii_hexd)

lemma ascii_str_int: "ascii (str_int i)"
  by (simp add: str_int_def dec_def ascii_digits)

lemma ascii_esc: "ascii (esc_unit c)"
proof -
  have "of_char (char_of c :: char) < (128 :: nat)" if "c \<le> 126" using that by simp
  then show ?thesis by (auto simp: esc_unit_def hex4_def ascii_hexd)
qed

lemma ascii_dump_str: "ascii (dump_str s)"
  using ascii_esc by (auto simp: dump_str_def ascii_def)

lemma ascii_pad: "ascii (pad k n)"
  by (induction k n rule: pad.induct) (simp_all add: digit_def)

lemma ascii_frac_digits: "ascii (frac_digits n)"
proof -
  have "set (rev (dropWhile ((=) CHR ''0'') (rev (pad 6 n)))) \<subseteq> set (pad 6 n)"
    by (metis set_dropWhileD set_rev subsetI)
  then show ?thesis using ascii_pad [of 6 n] unfolding frac_digits_def Let_def ascii_def by auto
qed

lemma ascii_dump_real: "ascii (dump_real r)"
  using ascii_frac_digits by (simp add: dump_real_def dec_def ascii_digits)

lemma ascii_dumps: "ascii c \<Longrightarrow> ascii k \<Longrightarrow> ascii (dumps_sep c k j)"
proof (induction c k j rule: dumps_sep.induct)
  case (6 c k xs)
  then show ?case by (simp add: dumps_sep.simps) (rule ascii_join, auto)
next
  case (7 c k ms)
  then show ?case by (simp add: dumps_sep.simps) (rule ascii_join, auto simp: ascii_dump_str)
qed (simp_all add: dumps_sep.simps ascii_str_int ascii_dump_real ascii_dump_str)

lemma ustr_of_eq: "ustr_of a = ustr_of b \<longleftrightarrow> a = b"
  by (metis key_of_ustr_of option.inject)

section \<open>Texts decoded from bytes\<close>

text \<open>
  A character outside ASCII is the same inside a string literal as its escape, and an error
  everywhere else, as the escape is; after a backslash it is an error.
\<close>

fun esc_text :: "ustr \<Rightarrow> string" where
  "esc_text [] = []"
| "esc_text [c] = (if c < 128 then [char_of c] else concat (map esc_unit (units c)))"
| "esc_text (c # d # r) =
     (if c = 92 then bslash # (if d < 128 then char_of d else CHR ''x'') # esc_text r
      else (if c < 128 then [char_of c] else concat (map esc_unit (units c))) @ esc_text (d # r))"

lemma esc_text_ascii: "ascii s \<Longrightarrow> esc_text (ustr_of s) = s"
proof (induction s rule: induct_list012)
  case (3 c d r)
  have "of_char c = (92 :: nat) \<longleftrightarrow> c = bslash"
    using of_char_eq_iff [of c bslash, where 'a = nat] by simp
  with 3 show ?case by (auto simp: ustr_of_def)
qed (simp_all add: ustr_of_def)

definition loads_bytes :: "bytes \<Rightarrow> json result" where
  "loads_bytes bs =
     (case decode_utf8 bs of
        None \<Rightarrow> Inl UnicodeDecodeError
      | Some u \<Rightarrow> (case loads (esc_text u) of None \<Rightarrow> Inl JSONDecodeError | Some j \<Rightarrow> Inr j))"

lemma loads_bytes_dumps: "jwf j \<Longrightarrow> loads_bytes (encode (dumps j)) = Inr j"
  by (simp add: loads_bytes_def encode_def decode_utf8_utf8 esc_text_ascii ascii_dumps loads_dumps)

section \<open>base64\<close>

definition b64_alphabet :: string where
  "b64_alphabet = ''ABCDEFGHIJKLMNOPQRSTUVWXYZabcdefghijklmnopqrstuvwxyz0123456789+/''"

definition b64_value :: "char \<Rightarrow> nat option" where
  "b64_value c = (let i = length (takeWhile (\<lambda>x. x \<noteq> c) b64_alphabet) in if i < 64 then Some i else None)"

abbreviation b64_pad :: char where "b64_pad \<equiv> CHR ''=''"

fun b64_groups :: "nat list \<Rightarrow> string" where
  "b64_groups [] = []"
| "b64_groups [a] = [b64_alphabet ! (a div 4), b64_alphabet ! (a mod 4 * 16), b64_pad, b64_pad]"
| "b64_groups [a, b] = [b64_alphabet ! (a div 4), b64_alphabet ! (a mod 4 * 16 + b div 16),
     b64_alphabet ! (b mod 16 * 4), b64_pad]"
| "b64_groups (a # b # c # r) = [b64_alphabet ! (a div 4), b64_alphabet ! (a mod 4 * 16 + b div 16),
     b64_alphabet ! (b mod 16 * 4 + c div 64), b64_alphabet ! (c mod 64)] @ b64_groups r"

definition b64encode :: "bytes \<Rightarrow> string" where
  "b64encode bs = b64_groups (map unat bs)"

text \<open>
  The loop of \<open>binascii.a2b_base64\<close>: position in the group of four, bits left over, pad characters
  seen. Characters outside the alphabet are skipped; a group closed by padding ends the input.
\<close>

fun a2b :: "nat \<Rightarrow> nat \<Rightarrow> nat \<Rightarrow> string \<Rightarrow> nat list result" where
  "a2b q l p [] = (if q = 0 then Inr [] else Inl ValueError)"
| "a2b q l p (c # cs) =
     (if c = b64_pad then
        (if 2 \<le> q \<and> 4 \<le> q + (p + 1) then Inr [] else a2b q l (if 2 \<le> q then p + 1 else p) cs)
      else case b64_value c of
        None \<Rightarrow> a2b q l p cs
      | Some v \<Rightarrow>
          if q = 0 then a2b 1 v 0 cs
          else if q = 1 then bindr (a2b 2 (v mod 16) 0 cs) (\<lambda>r. Inr ((l * 4 + v div 16) # r))
          else if q = 2 then bindr (a2b 3 (v mod 4) 0 cs) (\<lambda>r. Inr ((l * 16 + v div 4) # r))
          else bindr (a2b 0 0 0 cs) (\<lambda>r. Inr ((l * 64 + v) # r)))"

text \<open>\<open>base64.b64decode\<close> of a string.\<close>

definition b64decode :: "ustr \<Rightarrow> bytes result" where
  "b64decode u =
     (if \<forall>c \<in> set u. c < 128 then bindr (a2b 0 0 0 (map char_of u)) (\<lambda>ns. Inr (map word_of_nat ns))
      else Inl ValueError)"

lemma b64_alphabet_less:
  "n < 64 \<Longrightarrow> b64_value (b64_alphabet ! n) = Some n \<and> b64_alphabet ! n \<noteq> b64_pad \<and> of_char (b64_alphabet ! n) < (128 :: nat)"
proof -
  have "\<forall>n \<in> set [0..<64]. b64_value (b64_alphabet ! n) = Some n \<and> b64_alphabet ! n \<noteq> b64_pad \<and>
      of_char (b64_alphabet ! n) < (128 :: nat)"
    by code_simp
  then show "n < 64 \<Longrightarrow> ?thesis" by simp
qed

lemma a2b_b64_groups: "\<forall>a \<in> set ns. a < 256 \<Longrightarrow> a2b 0 0 0 (b64_groups ns) = Inr ns"
proof (induction ns rule: b64_groups.induct)
  case (2 a)
  then have "a div 4 < 64" "a mod 4 * 16 < 64" by auto
  then show ?case using 2 by (simp add: b64_alphabet_less del: nth_Cons_numeral)
next
  case (3 a b)
  then have "a div 4 < 64" "a mod 4 * 16 + b div 16 < 64" "b mod 16 * 4 < 64" by auto
  moreover have "(a mod 4 * 16 + b div 16) div 16 = a mod 4" "(a mod 4 * 16 + b div 16) mod 16 = b div 16"
    using 3 by auto
  ultimately show ?case by (simp add: b64_alphabet_less)
next
  case (4 a b c r)
  then have "a div 4 < 64" "a mod 4 * 16 + b div 16 < 64" "b mod 16 * 4 + c div 64 < 64" "c mod 64 < 64" by auto
  moreover have "(a mod 4 * 16 + b div 16) div 16 = a mod 4" "(a mod 4 * 16 + b div 16) mod 16 = b div 16"
    "(b mod 16 * 4 + c div 64) div 4 = b mod 16" "(b mod 16 * 4 + c div 64) mod 4 = c div 64"
    using 4 by auto
  ultimately show ?case using 4 by (simp add: b64_alphabet_less)
qed simp

lemma ascii_b64_groups: "\<forall>a \<in> set ns. a < 256 \<Longrightarrow> ascii (b64_groups ns)"
proof (induction ns rule: b64_groups.induct)
  case (3 a b)
  then have "a div 4 < 64" "a mod 4 * 16 + b div 16 < 64" "b mod 16 * 4 < 64" by auto
  with 3 show ?case by (simp add: b64_alphabet_less)
next
  case (4 a b c r)
  then have "a div 4 < 64" "a mod 4 * 16 + b div 16 < 64" "b mod 16 * 4 + c div 64 < 64" by auto
  with 4 show ?case by (simp add: b64_alphabet_less)
qed (simp_all add: b64_alphabet_less)

lemma b64decode_b64encode: "b64decode (ustr_of (b64encode bs)) = Inr bs"
proof -
  have b: "\<forall>a \<in> set (map unat bs). a < 256"
    using unsigned_less [where 'b = 8 and 'a = nat] by auto
  have "\<forall>c \<in> set (ustr_of (b64encode bs)). c < 128"
    using ascii_b64_groups [OF b] by (auto simp: ascii_def ustr_of_def b64encode_def)
  moreover have "map char_of (ustr_of s) = s" for s :: string by (simp add: ustr_of_def comp_def)
  ultimately show ?thesis using a2b_b64_groups [OF b] by (simp add: b64decode_def b64encode_def comp_def)
qed

section \<open>Values of \<open>json.loads\<close>\<close>

fun truthy :: "json \<Rightarrow> bool" where
  "truthy JNull = False"
| "truthy (JBool b) = b"
| "truthy (JInt i) = (i \<noteq> 0)"
| "truthy (JReal r) = (r \<noteq> 0)"
| "truthy (JStr s) = (s \<noteq> [])"
| "truthy (JList xs) = (xs \<noteq> [])"
| "truthy (JObj ms) = (ms \<noteq> [])"

definition hex_width :: "nat \<Rightarrow> nat \<Rightarrow> ustr" where
  "hex_width w n = ustr_of (map (\<lambda>i. hexd (n div 16 ^ i mod 16)) (rev [0..<w]))"

definition repr_char :: "(nat \<Rightarrow> bool) \<Rightarrow> nat \<Rightarrow> nat \<Rightarrow> ustr" where
  "repr_char printable q c =
     (if c = q \<or> c = 92 then [92, c]
      else if c = 9 then [92, 116] else if c = 10 then [92, 110] else if c = 13 then [92, 114]
      else if 32 \<le> c \<and> c < 127 \<or> 127 < c \<and> printable c then [c]
      else if c < 256 then [92, 120] @ hex_width 2 c
      else if c < 65536 then [92, 117] @ hex_width 4 c
      else [92, 85] @ hex_width 8 c)"

definition repr_str :: "(nat \<Rightarrow> bool) \<Rightarrow> ustr \<Rightarrow> ustr" where
  "repr_str printable u =
     (let q = (if 39 \<in> set u \<and> 34 \<notin> set u then 34 else 39)
      in [q] @ concat (map (repr_char printable q) u) @ [q])"

fun py_repr :: "(nat \<Rightarrow> bool) \<Rightarrow> json \<Rightarrow> ustr" where
  "py_repr printable JNull = ustr_of ''None''"
| "py_repr printable (JBool b) = ustr_of (if b then ''True'' else ''False'')"
| "py_repr printable (JInt i) = ustr_of (str_int i)"
| "py_repr printable (JReal r) = ustr_of (dump_real r)"
| "py_repr printable (JStr s) = repr_str printable s"
| "py_repr printable (JList xs) = ustr_of ''['' @ join (ustr_of '', '') (map (py_repr printable) xs) @ ustr_of '']''"
| "py_repr printable (JObj ms) = ustr_of ''{'' @
     join (ustr_of '', '') (map (\<lambda>(k, v). repr_str printable (ustr_of k) @ ustr_of '': '' @ py_repr printable v) ms) @ ustr_of ''}''"

definition py_str :: "(nat \<Rightarrow> bool) \<Rightarrow> json \<Rightarrow> ustr" where
  "py_str printable j = (case j of JStr s \<Rightarrow> s | _ \<Rightarrow> py_repr printable j)"

text \<open>A value as a number of microseconds: booleans are numbers in Python.\<close>

definition as_number :: "json \<Rightarrow> int result" where
  "as_number j = (case j of
     JReal r \<Rightarrow> Inr r | JInt i \<Rightarrow> Inr (seconds i) | JBool b \<Rightarrow> Inr (if b then seconds 1 else 0) | _ \<Rightarrow> Inl TypeError)"

end
