(* ===== verification/Stegano.thy ===== *)
theory Stegano
  imports Crypto Wire
begin

text \<open>
  \<open>coc_framework/core/steganography.py\<close>: watermarks in zero-width characters, in the choice of
  synonyms and in trailing blanks, and their extraction.

  Text is a list of code points. A string of binary digits is a list of booleans. A confidence is
  the fraction whose quotient the code computes, as a pair. The fields of extracted watermark data
  are JSON values, since the code takes whatever the payload says. The regular expressions of the
  synonym pass match a word between word boundaries ignoring case; the argument \<open>alnum\<close> says which
  code points from 128 on the Unicode tables count as alphanumeric.
\<close>

section \<open>Constants\<close>

definition ZERO_WIDTH_SPACE :: nat where "ZERO_WIDTH_SPACE = 8203"
definition ZERO_WIDTH_NON_JOINER :: nat where "ZERO_WIDTH_NON_JOINER = 8204"
definition ZERO_WIDTH_JOINER :: nat where "ZERO_WIDTH_JOINER = 8205"
definition WATERMARK_START :: nat where "WATERMARK_START = 65279"
definition WATERMARK_END :: nat where "WATERMARK_END = 8288"

lemmas zw_defs = ZERO_WIDTH_SPACE_def ZERO_WIDTH_NON_JOINER_def ZERO_WIDTH_JOINER_def WATERMARK_START_def
  WATERMARK_END_def

definition zero_width :: "nat \<Rightarrow> bool" where
  "zero_width c \<longleftrightarrow> c \<in> {WATERMARK_START, WATERMARK_END, ZERO_WIDTH_SPACE, ZERO_WIDTH_NON_JOINER, ZERO_WIDTH_JOINER}"

text \<open>Each word with the first 32 bits of its MD5 digest and its synonyms.\<close>

definition SYNONYMS :: "(string \<times> int \<times> string list) list" where
  "SYNONYMS =
     [(''important'', 1216450365, [''significant'', ''crucial'', ''vital'', ''essential'', ''critical'']),
      (''big'', 3630270333, [''large'', ''huge'', ''substantial'', ''considerable'', ''major'']),
      (''small'', 3948680089, [''little'', ''tiny'', ''minor'', ''slight'', ''modest'']),
      (''good'', 1969194434, [''great'', ''excellent'', ''fine'', ''positive'', ''favorable'']),
      (''bad'', 3135637912, [''poor'', ''negative'', ''unfavorable'', ''adverse'', ''harmful'']),
      (''fast'', 835998747, [''quick'', ''rapid'', ''swift'', ''speedy'', ''prompt'']),
      (''slow'', 1340727271, [''gradual'', ''unhurried'', ''leisurely'', ''sluggish'', ''delayed'']),
      (''help'', 1702857613, [''assist'', ''aid'', ''support'', ''facilitate'', ''enable'']),
      (''show'', 2816283313, [''display'', ''demonstrate'', ''reveal'', ''indicate'', ''present'']),
      (''make'', 161329094, [''create'', ''produce'', ''generate'', ''form'', ''build'']),
      (''use'', 1593273648, [''utilize'', ''employ'', ''apply'', ''leverage'', ''harness'']),
      (''get'', 3052249255, [''obtain'', ''acquire'', ''receive'', ''gain'', ''secure'']),
      (''see'', 512639672, [''observe'', ''notice'', ''view'', ''perceive'', ''witness'']),
      (''know'', 2946352077, [''understand'', ''recognize'', ''realize'', ''comprehend'', ''grasp'']),
      (''think'', 1422412608, [''believe'', ''consider'', ''assume'', ''suppose'', ''reckon'']),
      (''want'', 2736286256, [''desire'', ''wish'', ''seek'', ''prefer'', ''require'']),
      (''need'', 3900163438, [''require'', ''necessitate'', ''demand'', ''call for'', ''warrant'']),
      (''start'', 3928696438, [''begin'', ''commence'', ''initiate'', ''launch'', ''kick off'']),
      (''end'', 2130844180, [''finish'', ''conclude'', ''complete'', ''terminate'', ''wrap up'']),
      (''very'', 4027991069, [''extremely'', ''highly'', ''quite'', ''particularly'', ''especially'']),
      (''also'', 130874934, [''additionally'', ''furthermore'', ''moreover'', ''besides'', ''too'']),
      (''however'', 1046720464, [''nevertheless'', ''nonetheless'', ''yet'', ''still'', ''though'']),
      (''because'', 3429926495, [''since'', ''as'', ''due to'', ''given that'', ''owing to'']),
      (''about'', 1186173723, [''regarding'', ''concerning'', ''relating to'', ''with respect to'', ''on''])]"

record watermark_data =
  wd_peer_id :: json
  wd_timestamp :: json
  wd_depth :: json
  wd_content_hash :: json
  wd_fingerprint_seed :: json

definition watermark_to_dict :: "watermark_data \<Rightarrow> json" where
  "watermark_to_dict w = JObj
     [(''peer_id'', wd_peer_id w), (''timestamp'', wd_timestamp w), (''depth'', wd_depth w),
      (''content_hash'', wd_content_hash w), (''fingerprint_seed'', wd_fingerprint_seed w)]"

definition watermark_from_dict :: "json \<Rightarrow> watermark_data result" where
  "watermark_from_dict d =
     (case d of
        JObj ms \<Rightarrow>
          if set (map fst ms) = {''peer_id'', ''timestamp'', ''depth'', ''content_hash'', ''fingerprint_seed''}
          then Inr \<lparr>wd_peer_id = the (jfield d ''peer_id''), wd_timestamp = the (jfield d ''timestamp''),
                    wd_depth = the (jfield d ''depth''), wd_content_hash = the (jfield d ''content_hash''),
                    wd_fingerprint_seed = the (jfield d ''fingerprint_seed'')\<rparr>
          else Inl TypeError
      | _ \<Rightarrow> Inl TypeError)"

record extraction_result =
  ex_success :: bool
  ex_peer_id :: "json option"
  ex_confidence :: "nat \<times> nat"
  ex_method :: string
  ex_original_content :: "ustr option"
  ex_watermark_data :: "watermark_data option"

section \<open>Zero-width coding\<close>

definition byte_bits :: "8 word \<Rightarrow> bool list" where
  "byte_bits b = map (bit (unat b)) (rev [0..<8])"

definition string_to_bits :: "string \<Rightarrow> bool list" where
  "string_to_bits s = concat (map byte_bits (encode s))"

definition bits_value :: "bool list \<Rightarrow> nat" where
  "bits_value bs = foldl (\<lambda>a b. 2 * a + of_bool b) 0 bs"

fun bits_to_string :: "bool list \<Rightarrow> string" where
  "bits_to_string (a # b # c # d # e # f # g # h # bs) =
     char_of (bits_value [a, b, c, d, e, f, g, h]) # bits_to_string bs"
| "bits_to_string bs = []"

definition encode_bit :: "bool \<Rightarrow> nat" where
  "encode_bit b = (if b then ZERO_WIDTH_NON_JOINER else ZERO_WIDTH_SPACE)"

definition encode_zero_width :: "string \<Rightarrow> ustr" where
  "encode_zero_width data = WATERMARK_START # map encode_bit (string_to_bits data) @ [WATERMARK_END]"

text \<open>\<open>text.find(c)\<close>, with \<open>None\<close> for -1.\<close>

definition find_char :: "nat \<Rightarrow> ustr \<Rightarrow> nat option" where
  "find_char c s = (if c \<in> set s then Some (length (takeWhile (\<lambda>x. x \<noteq> c) s)) else None)"

definition section_bits :: "ustr \<Rightarrow> bool list" where
  "section_bits s = List.map_filter (\<lambda>c. if c = ZERO_WIDTH_SPACE then Some False
     else if c = ZERO_WIDTH_NON_JOINER then Some True else None) s"

definition decode_zero_width :: "ustr \<Rightarrow> string option" where
  "decode_zero_width text =
     (case (find_char WATERMARK_START text, find_char WATERMARK_END text) of
        (Some i, Some j) \<Rightarrow>
          if j \<le> i then None
          else
            let bits = section_bits (take (j - (i + 1)) (drop (i + 1) text))
            in if length bits < 8 then None
               else Some (bits_to_string (take (length bits - length bits mod 8) bits))
      | _ \<Rightarrow> None)"

definition remove_zero_width :: "ustr \<Rightarrow> ustr" where
  "remove_zero_width s = filter (\<lambda>c. \<not> zero_width c) s"

section \<open>Fingerprints\<close>

definition get_fingerprint_seed :: "string \<Rightarrow> int" where
  "get_fingerprint_seed pid = the (int16 (take 8 (sha256 (encode pid))))"

definition ascii_lower :: "nat \<Rightarrow> nat" where
  "ascii_lower c = (if 65 \<le> c \<and> c \<le> 90 then c + 32 else c)"

definition ascii_upper :: "nat \<Rightarrow> nat" where
  "ascii_upper c = (if 97 \<le> c \<and> c \<le> 122 then c - 32 else c)"

text \<open>
  Matching a letter of a pattern ignoring case: besides the two ASCII forms, \<open>i\<close> also matches
  the dotted capital and the dotless small letter, \<open>s\<close> the long s and \<open>k\<close> the Kelvin sign.
\<close>

definition same_letter :: "nat \<Rightarrow> nat \<Rightarrow> bool" where
  "same_letter p c \<longleftrightarrow> ascii_lower c = p \<or> p = 105 \<and> c \<in> {304, 305} \<or> p = 115 \<and> c = 383 \<or> p = 107 \<and> c = 8490"

definition word_char :: "(nat \<Rightarrow> bool) \<Rightarrow> nat \<Rightarrow> bool" where
  "word_char alnum c =
     (if c < 128 then 48 \<le> c \<and> c \<le> 57 \<or> 65 \<le> c \<and> c \<le> 90 \<or> 97 \<le> c \<and> c \<le> 122 \<or> c = 95 else alnum c)"

text \<open>A match of \<open>\\b\<close> word \<open>\\b\<close> at the head of \<open>s\<close>, where \<open>prev\<close> is the code point before.\<close>

definition matches_word :: "(nat \<Rightarrow> bool) \<Rightarrow> ustr \<Rightarrow> nat option \<Rightarrow> ustr \<Rightarrow> bool" where
  "matches_word alnum w prev s \<longleftrightarrow>
     w \<noteq> [] \<and> list_all2 same_letter w (take (length w) s) \<and>
     (case prev of None \<Rightarrow> True | Some c \<Rightarrow> \<not> word_char alnum c) \<and>
     (case drop (length w) s of [] \<Rightarrow> True | c # _ \<Rightarrow> \<not> word_char alnum c)"

function sub_word :: "(nat \<Rightarrow> bool) \<Rightarrow> ustr \<Rightarrow> (ustr \<Rightarrow> ustr) \<Rightarrow> nat option \<Rightarrow> ustr \<Rightarrow> ustr" where
  "sub_word alnum w f prev [] = []"
| "sub_word alnum w f prev (c # cs) =
     (if matches_word alnum w prev (c # cs)
      then f (take (length w) (c # cs)) @
             sub_word alnum w f (Some (last (take (length w) (c # cs)))) (drop (length w) (c # cs))
      else c # sub_word alnum w f (Some c) cs)"
  by pat_completeness auto
termination
  by (relation "measure (\<lambda>(alnum, w, f, prev, s). length s)") (auto simp: matches_word_def)

fun search_word :: "(nat \<Rightarrow> bool) \<Rightarrow> ustr \<Rightarrow> nat option \<Rightarrow> ustr \<Rightarrow> bool" where
  "search_word alnum w prev [] = False"
| "search_word alnum w prev (c # cs) =
     (matches_word alnum w prev (c # cs) \<or> search_word alnum w (Some c) cs)"

text \<open>\<open>isupper\<close> on a matched letter.\<close>

definition upper_letter :: "nat \<Rightarrow> bool" where
  "upper_letter c \<longleftrightarrow> 65 \<le> c \<and> c \<le> 90 \<or> c = 304 \<or> c = 8490"

definition capitalize :: "ustr \<Rightarrow> ustr" where
  "capitalize s = (case s of [] \<Rightarrow> [] | c # cs \<Rightarrow> ascii_upper c # map ascii_lower cs)"

definition replace_func :: "int \<Rightarrow> int \<Rightarrow> string list \<Rightarrow> ustr \<Rightarrow> ustr" where
  "replace_func seed w_hash syns original =
     (let replacement = ustr_of (syns ! nat ((seed + w_hash) mod int (length syns)))
      in if list_all upper_letter original then map ascii_upper replacement
         else if upper_letter (hd original) then capitalize replacement
         else replacement)"

definition apply_linguistic_fingerprint :: "(nat \<Rightarrow> bool) \<Rightarrow> ustr \<Rightarrow> int \<Rightarrow> ustr" where
  "apply_linguistic_fingerprint alnum content seed =
     fold (\<lambda>(w, h, syns) s. sub_word alnum (ustr_of w) (replace_func seed h syns) None s) SYNONYMS content"

text \<open>The synonyms the text contains, and for a peer the words whose expected synonym it contains.\<close>

definition synonyms_found :: "(nat \<Rightarrow> bool) \<Rightarrow> ustr \<Rightarrow> string \<Rightarrow> bool" where
  "synonyms_found alnum content syn = search_word alnum (ustr_of syn) None content"

definition linguistic_counts :: "(nat \<Rightarrow> bool) \<Rightarrow> ustr \<Rightarrow> string \<Rightarrow> nat \<times> nat" where
  "linguistic_counts alnum content pid =
     (let seed = get_fingerprint_seed pid
      in (length (filter (\<lambda>(w, h, syns). synonyms_found alnum content (syns ! nat ((seed + h) mod int (length syns)))) SYNONYMS),
          length (filter (\<lambda>(w, h, syns). \<exists>syn \<in> set syns. synonyms_found alnum content syn) SYNONYMS)))"

text \<open>
  The loop computes the counts of every candidate and never assigns the best match it returns;
  \<open>total\<close> keeps the count of the last candidate.
\<close>

definition detect_linguistic_fingerprint ::
  "(nat \<Rightarrow> bool) \<Rightarrow> ustr \<Rightarrow> string list \<Rightarrow> (string \<times> nat \<times> nat) option" where
  "detect_linguistic_fingerprint alnum content candidates =
     (let (best_match, best_score, total) =
            fold (\<lambda>pid (bm, bs, tot). let (matches, total) = linguistic_counts alnum content pid in (bm, bs, total))
              candidates (None, (0, 1), 0)
      in case best_match of
           None \<Rightarrow> None
         | Some pid \<Rightarrow> if 10 * fst best_score > 3 * snd best_score \<and> total \<ge> 2 then Some (pid, best_score) else None)"

definition newline :: nat where "newline = 10"

definition add_whitespace_fingerprint :: "ustr \<Rightarrow> string \<Rightarrow> ustr" where
  "add_whitespace_fingerprint content pid =
     (let seed = get_fingerprint_seed pid
      in join [newline] (map (\<lambda>(i, line). line @ replicate (nat ((seed + int i) mod 3)) 32)
           (enumerate 0 (split [newline] content))))"

definition trailing_blanks :: "ustr \<Rightarrow> nat" where
  "trailing_blanks line = length (takeWhile (\<lambda>c. c = 32) (rev line))"

definition whitespace_matches :: "nat list \<Rightarrow> string \<Rightarrow> nat" where
  "whitespace_matches pattern pid =
     (let seed = get_fingerprint_seed pid
      in length (filter (\<lambda>(i, t). int t = (seed + int i) mod 3) (enumerate 0 pattern)))"

text \<open>All scores have the same denominator, so comparing scores is comparing matches.\<close>

definition detect_whitespace_fingerprint :: "ustr \<Rightarrow> string list \<Rightarrow> (string \<times> nat \<times> nat) option" where
  "detect_whitespace_fingerprint content candidates =
     (let lines = split [newline] content
      in if length lines < 3 then None
         else
           let pattern = map (\<lambda>line. trailing_blanks line mod 3) lines;
               (best_match, best_score) =
                 fold (\<lambda>pid (bm, bs). let m = whitespace_matches pattern pid in if m > bs then (Some pid, m) else (bm, bs))
                   candidates (None, 0)
           in case best_match of
                None \<Rightarrow> None
              | Some pid \<Rightarrow> if pid \<noteq> [] \<and> 2 * best_score > length pattern then Some (pid, best_score, length pattern) else None)"

section \<open>SteganoEngine\<close>

type_synonym stegano_engine = "string list"

definition stegano_register :: "string \<Rightarrow> stegano_engine \<Rightarrow> stegano_engine" where
  "stegano_register pid known = (if pid \<in> set known then known else known @ [pid])"

definition embed_watermark ::
  "(nat \<Rightarrow> bool) \<Rightarrow> datetime \<Rightarrow> ustr \<Rightarrow> string \<Rightarrow> int \<Rightarrow> string option \<Rightarrow> bool \<Rightarrow> bool \<Rightarrow> bool \<Rightarrow> stegano_engine
   \<Rightarrow> stegano_engine \<times> ustr" where
  "embed_watermark alnum now content pid depth timestamp use_zw use_ling use_ws known =
     (let ts = (case timestamp of None \<Rightarrow> isoformat now | Some t \<Rightarrow> t);
          seed = get_fingerprint_seed pid;
          wd = \<lparr>wd_peer_id = jstr pid, wd_timestamp = jstr ts, wd_depth = JInt depth,
                wd_content_hash = jstr (sha256 (utf8 content)), wd_fingerprint_seed = JInt seed\<rparr>;
          r1 = (if use_ling then apply_linguistic_fingerprint alnum content seed else content);
          r2 = (if use_ws then add_whitespace_fingerprint r1 pid else r1);
          r3 = (if use_zw then
                  let enc = encode_zero_width (dumps (watermark_to_dict wd))
                  in case find_char 32 r2 of
                       None \<Rightarrow> r2 @ enc
                     | Some i \<Rightarrow> if i > 0 then take i r2 @ enc @ drop i r2 else r2 @ enc
                else r2)
      in (stegano_register pid known, r3))"

definition no_watermark :: "ustr \<Rightarrow> extraction_result" where
  "no_watermark content = \<lparr>ex_success = False, ex_peer_id = None, ex_confidence = (0, 1), ex_method = ''none'',
     ex_original_content = Some content, ex_watermark_data = None\<rparr>"

definition fingerprint_result :: "string \<Rightarrow> ustr \<Rightarrow> string \<times> nat \<times> nat \<Rightarrow> extraction_result" where
  "fingerprint_result m content = (\<lambda>(pid, score). \<lparr>ex_success = True, ex_peer_id = Some (jstr pid),
     ex_confidence = score, ex_method = m, ex_original_content = Some content, ex_watermark_data = None\<rparr>)"

definition extract_fingerprint :: "(nat \<Rightarrow> bool) \<Rightarrow> ustr \<Rightarrow> string list \<Rightarrow> extraction_result" where
  "extract_fingerprint alnum content candidates =
     (if candidates = [] then no_watermark content
      else case detect_linguistic_fingerprint alnum content candidates of
             Some r \<Rightarrow> fingerprint_result ''linguistic'' content r
           | None \<Rightarrow>
               (case detect_whitespace_fingerprint content candidates of
                  Some r \<Rightarrow> fingerprint_result ''whitespace'' content r
                | None \<Rightarrow> no_watermark content))"

definition extract_watermark ::
  "(nat \<Rightarrow> bool) \<Rightarrow> ustr \<Rightarrow> string list option \<Rightarrow> stegano_engine \<Rightarrow> extraction_result result" where
  "extract_watermark alnum content candidate_peers known =
     (let candidates = (case candidate_peers of None \<Rightarrow> known | Some cs \<Rightarrow> if cs = [] then known else cs);
          fallback = Inr (extract_fingerprint alnum content candidates)
      in case decode_zero_width content of
           None \<Rightarrow> fallback
         | Some decoded \<Rightarrow>
             if decoded = [] then fallback
             else case loads decoded of
                    None \<Rightarrow> fallback
                  | Some d \<Rightarrow>
                      bindr (watermark_from_dict d) (\<lambda>wd.
                      Inr \<lparr>ex_success = True, ex_peer_id = Some (wd_peer_id wd), ex_confidence = (1, 1),
                        ex_method = ''zero_width'', ex_original_content = Some (remove_zero_width content),
                        ex_watermark_data = Some wd\<rparr>))"

text \<open>\<open>str.rstrip()\<close>: the code points \<open>str.isspace\<close> holds of.\<close>

definition unicode_space :: "nat \<Rightarrow> bool" where
  "unicode_space c \<longleftrightarrow> py_isspace c \<or> c = 5760 \<or> 8192 \<le> c \<and> c \<le> 8202 \<or> c \<in> {8232, 8233, 8239, 8287, 12288}"

definition rstrip :: "ustr \<Rightarrow> ustr" where
  "rstrip s = rev (dropWhile unicode_space (rev s))"

definition strip_all_watermarks :: "ustr \<Rightarrow> ustr" where
  "strip_all_watermarks content = join [newline] (map rstrip (split [newline] (remove_zero_width content)))"

definition verify_watermark :: "(nat \<Rightarrow> bool) \<Rightarrow> ustr \<Rightarrow> string \<Rightarrow> stegano_engine \<Rightarrow> bool result" where
  "verify_watermark alnum content expected known =
     bindr (extract_watermark alnum content (Some [expected]) known) (\<lambda>r.
     Inr (ex_success r \<and> ex_peer_id r = Some (jstr expected)))"

definition embed_invisible_watermark :: "(nat \<Rightarrow> bool) \<Rightarrow> datetime \<Rightarrow> ustr \<Rightarrow> string \<Rightarrow> int \<Rightarrow> ustr" where
  "embed_invisible_watermark alnum now content pid depth =
     snd (embed_watermark alnum now content pid depth None True True True [])"

definition extract_invisible_watermark :: "(nat \<Rightarrow> bool) \<Rightarrow> ustr \<Rightarrow> string list \<Rightarrow> json option result" where
  "extract_invisible_watermark alnum content candidates =
     bindr (extract_watermark alnum content (Some candidates) []) (\<lambda>r.
     Inr (if ex_success r then ex_peer_id r else None))"

section \<open>Lemmas about the coding\<close>

lemma bits_value_byte: "bits_value (byte_bits b) = unat b"
proof -
  have "bits_value bs = horner_sum of_bool 2 (rev bs)" for bs
  proof (induction bs rule: rev_induct)
    case (snoc b bs)
    then show ?case by (simp add: bits_value_def)
  qed (simp add: bits_value_def)
  then have "bits_value (byte_bits b) = horner_sum of_bool 2 (map (bit (unat b)) [0..<8])"
    by (simp add: byte_bits_def rev_map)
  also have "\<dots> = take_bit 8 (unat b)" by (simp add: horner_sum_bit_eq_take_bit)
  also have "\<dots> = unat b" by (simp add: take_bit_eq_mod)
  finally show ?thesis .
qed

lemma byte_bits_cons: "bits_to_string (byte_bits b @ bs) = char_of (unat b) # bits_to_string bs"
proof -
  have "rev [0..<8] = [7, 6, 5, 4, 3, 2, 1, 0]" by (simp add: upt_rec)
  then have u: "byte_bits b = map (bit (unat b)) [7, 6, 5, 4, 3, 2, 1, 0]" by (simp only: byte_bits_def)
  show ?thesis using bits_value_byte [of b] unfolding u by simp
qed

lemma length_byte_bits [simp]: "length (byte_bits b) = 8"
  by (simp add: byte_bits_def)

lemma encode_ascii: "ascii s \<Longrightarrow> map unat (encode s) = map of_char s"
proof (induction s)
  case (Cons c s)
  then have "(of_char c :: nat) < 128" by simp
  with Cons show ?case by (simp add: encode_def ustr_of_def utf8_def utf8_cp_def unat_of_nat)
qed (simp add: encode_def ustr_of_def utf8_def)

lemma bits_round_trip: "ascii s \<Longrightarrow> bits_to_string (string_to_bits s) = s"
proof -
  assume a: "ascii s"
  have "bits_to_string (concat (map byte_bits bs)) = map (char_of \<circ> unat) bs" for bs
    by (induction bs) (simp_all add: byte_bits_cons)
  then have "bits_to_string (string_to_bits s) = map char_of (map unat (encode s))" by (simp add: string_to_bits_def)
  then show ?thesis using encode_ascii [OF a] by (simp add: comp_def)
qed

lemma length_string_to_bits: "length (string_to_bits s) = 8 * length (encode s)"
proof -
  have "length (concat (map byte_bits bs)) = 8 * length bs" for bs by (induction bs) simp_all
  then show ?thesis by (simp add: string_to_bits_def)
qed

lemma section_bits_encode: "section_bits (map encode_bit bs) = bs"
  by (induction bs) (simp_all add: section_bits_def encode_bit_def zw_defs)

lemma encode_bits_not_end: "WATERMARK_END \<notin> set (map encode_bit bs)" "32 \<notin> set (map encode_bit bs)"
  by (auto simp: encode_bit_def zw_defs split: if_splits)

lemma find_char_append: "c \<notin> set a \<Longrightarrow> find_char c (a @ c # b) = Some (length a)"
  by (induction a) (auto simp: find_char_def)

text \<open>A watermark is read back wherever it stands, if no marker comes before it.\<close>

lemma decode_encoded:
  assumes "WATERMARK_START \<notin> set a" "WATERMARK_END \<notin> set a" "ascii s" "s \<noteq> []"
  shows "decode_zero_width (a @ encode_zero_width s @ b) = Some s"
proof -
  let ?bs = "string_to_bits s"
  let ?m = "map encode_bit ?bs"
  have t: "a @ encode_zero_width s @ b = a @ WATERMARK_START # ?m @ WATERMARK_END # b"
    by (simp add: encode_zero_width_def)
  have 1: "find_char WATERMARK_START (a @ encode_zero_width s @ b) = Some (length a)"
    unfolding t using assms(1) by (rule find_char_append)
  have "WATERMARK_END \<notin> set (a @ WATERMARK_START # ?m)"
    using assms(2) encode_bits_not_end(1) by (auto simp: zw_defs)
  from find_char_append [OF this, of b]
  have 2: "find_char WATERMARK_END (a @ encode_zero_width s @ b) = Some (length a + Suc (length ?bs))"
    unfolding t by simp
  have "length (encode s) = length s" using encode_ascii [OF assms(3)] by (metis length_map)
  then have l: "length ?bs mod 8 = 0" "8 \<le> length ?bs" using assms(4) by (cases s; simp add: length_string_to_bits)+
  have "section_bits (take (length ?bs) (drop (length a + 1) (a @ encode_zero_width s @ b))) = ?bs"
    unfolding t by (simp add: section_bits_encode)
  then show ?thesis
    using l bits_round_trip [OF assms(3)] by (simp add: decode_zero_width_def 1 2 Let_def)
qed

section \<open>Lemmas about the fingerprints\<close>

definition plain_text :: "ustr \<Rightarrow> bool" where
  "plain_text s \<longleftrightarrow> (\<forall>c \<in> set s. \<not> zero_width c)"

lemma plain_text_simps [simp]:
  "plain_text []" "plain_text (c # s) \<longleftrightarrow> \<not> zero_width c \<and> plain_text s"
  "plain_text (s @ t) \<longleftrightarrow> plain_text s \<and> plain_text t"
  by (auto simp: plain_text_def)

lemma zero_width_large: "zero_width c \<Longrightarrow> 8203 \<le> c"
  by (auto simp: zero_width_def zw_defs)

lemma plain_text_small: "\<forall>c \<in> set s. c < 8203 \<Longrightarrow> plain_text s"
  using zero_width_large by (force simp: plain_text_def)

lemma plain_text_sub: "set s \<subseteq> set t \<Longrightarrow> plain_text t \<Longrightarrow> plain_text s"
  by (auto simp: plain_text_def)

lemma plain_text_join: "plain_text sep \<Longrightarrow> \<forall>s \<in> set ss. plain_text s \<Longrightarrow> plain_text (join sep ss)"
  by (induction sep ss rule: join.induct) auto

lemma sub_word_plain:
  "plain_text s \<Longrightarrow> (\<And>m. plain_text (f m)) \<Longrightarrow> plain_text (sub_word alnum w f prev s)"
proof (induction alnum w f prev s rule: sub_word.induct)
  case (2 alnum w f prev c cs)
  have d: "plain_text (drop (length w) (c # cs))"
    by (rule plain_text_sub [OF set_drop_subset 2(3)])
  show ?case
  proof (cases "matches_word alnum w prev (c # cs)")
    case True
    then show ?thesis using "2.IH"(1) [OF True d 2(4)] 2(4) by simp
  next
    case False
    then show ?thesis using "2.IH"(2) [OF False _ 2(4)] 2(3) by simp
  qed
qed simp

lemma replace_func_plain: "plain_text (replace_func seed h syns m)"
proof -
  have u: "\<forall>c \<in> set (ustr_of s). c < 256" for s by (auto simp: ustr_of_def)
  have l: "ascii_lower c < 8203" "ascii_upper c < 8203" if "c < 256" for c
    using that by (auto simp: ascii_lower_def ascii_upper_def)
  have 1: "plain_text (ustr_of s)" for s using u by (force intro!: plain_text_small)
  have 2: "plain_text (map ascii_upper (ustr_of s))" for s using u l by (force intro!: plain_text_small)
  have 3: "plain_text (capitalize (ustr_of s))" for s
  proof (rule plain_text_small)
    show "\<forall>c \<in> set (capitalize (ustr_of s)). c < 8203"
      using u [of s] l by (cases "ustr_of s") (auto simp: capitalize_def)
  qed
  show ?thesis using 1 2 3 by (simp add: replace_func_def Let_def)
qed

lemma linguistic_plain: "plain_text s \<Longrightarrow> plain_text (apply_linguistic_fingerprint alnum s seed)"
proof -
  have "plain_text s \<Longrightarrow> plain_text (fold (\<lambda>(w, h, syns) s. sub_word alnum (ustr_of w) (replace_func seed h syns) None s) ws s)"
    for ws :: "(string \<times> int \<times> string list) list"
    by (induction ws arbitrary: s) (auto simp: sub_word_plain replace_func_plain)
  then show "plain_text s \<Longrightarrow> ?thesis" by (simp add: apply_linguistic_fingerprint_def)
qed

lemma split_acc_sub: "x \<in> set (split_acc [c] acc s) \<Longrightarrow> set x \<subseteq> set acc \<union> set s"
proof (induction s arbitrary: acc)
  case (Cons a s)
  show ?case
  proof (cases "a = c")
    case True
    with Cons.prems have "x = rev acc \<or> x \<in> set (split_acc [c] [] s)" by (simp add: split_acc.simps)
    with Cons.IH [of "[]"] show ?thesis by auto
  next
    case False
    with Cons.prems have "x \<in> set (split_acc [c] (a # acc) s)" by (simp add: split_acc.simps)
    with Cons.IH show ?thesis by fastforce
  qed
qed simp

lemma split_plain: "plain_text s \<Longrightarrow> \<forall>x \<in> set (split [c] s). plain_text x"
  using split_acc_sub [of _ c "[]" s] by (auto simp: split_def intro!: plain_text_sub [of _ s])

lemma whitespace_plain: "plain_text s \<Longrightarrow> plain_text (add_whitespace_fingerprint s pid)"
proof -
  assume "plain_text s"
  have nl: "plain_text [newline]" by (rule plain_text_small) (simp add: newline_def)
  have "\<forall>(i, line) \<in> set (enumerate 0 (split [newline] s)). plain_text line"
    using split_plain [OF \<open>plain_text s\<close>, of newline, THEN bspec, OF nth_mem] by (auto simp: in_set_enumerate_eq)
  moreover have "plain_text (replicate n 32)" for n by (rule plain_text_small) simp
  ultimately show ?thesis
    unfolding add_whitespace_fingerprint_def Let_def by (intro plain_text_join nl) auto
qed

section \<open>Lemmas about embedding\<close>

definition the_watermark :: "datetime \<Rightarrow> ustr \<Rightarrow> string \<Rightarrow> int \<Rightarrow> string option \<Rightarrow> watermark_data" where
  "the_watermark now content pid depth ts =
     \<lparr>wd_peer_id = jstr pid, wd_timestamp = jstr (case ts of None \<Rightarrow> isoformat now | Some t \<Rightarrow> t), wd_depth = JInt depth,
      wd_content_hash = jstr (sha256 (utf8 content)), wd_fingerprint_seed = JInt (get_fingerprint_seed pid)\<rparr>"

abbreviation payload :: "watermark_data \<Rightarrow> string" where
  "payload w \<equiv> dumps (watermark_to_dict w)"

lemma ascii_payload: "ascii (payload (the_watermark now content pid depth ts))" "payload w \<noteq> []"
  using hd_dumps by (simp_all add: ascii_dumps)

lemma loads_payload: "loads (payload (the_watermark now content pid depth ts)) = Some (watermark_to_dict (the_watermark now content pid depth ts))"
  by (rule loads_dumps) (simp_all add: watermark_to_dict_def the_watermark_def)

lemma watermark_from_to_dict: "watermark_from_dict (watermark_to_dict w) = Inr w"
  by (auto simp: watermark_from_dict_def watermark_to_dict_def)

definition fingerprinted :: "(nat \<Rightarrow> bool) \<Rightarrow> ustr \<Rightarrow> string \<Rightarrow> bool \<Rightarrow> bool \<Rightarrow> ustr" where
  "fingerprinted alnum content pid ling ws =
     (let r = (if ling then apply_linguistic_fingerprint alnum content (get_fingerprint_seed pid) else content)
      in if ws then add_whitespace_fingerprint r pid else r)"

lemma fingerprinted_plain: "plain_text content \<Longrightarrow> plain_text (fingerprinted alnum content pid ling ws)"
  by (simp add: fingerprinted_def Let_def linguistic_plain whitespace_plain)

definition insert_mark :: "ustr \<Rightarrow> ustr \<Rightarrow> ustr" where
  "insert_mark enc r = (case find_char 32 r of
     None \<Rightarrow> r @ enc | Some i \<Rightarrow> if i > 0 then take i r @ enc @ drop i r else r @ enc)"

lemma embed_form:
  "snd (embed_watermark alnum now content pid depth ts True ling ws known) =
     insert_mark (encode_zero_width (payload (the_watermark now content pid depth ts))) (fingerprinted alnum content pid ling ws)"
  by (simp add: embed_watermark_def insert_mark_def fingerprinted_def the_watermark_def Let_def)

lemma insert_mark_split: "\<exists>a b. insert_mark enc r = a @ enc @ b \<and> r = a @ b"
proof (cases "\<exists>i. find_char 32 r = Some i \<and> i > 0")
  case True
  then obtain i where "find_char 32 r = Some i" "i > 0" by blast
  then show ?thesis by (intro exI [of _ "take i r"] exI [of _ "drop i r"]) (simp add: insert_mark_def)
next
  case False
  then show ?thesis
    by (intro exI [of _ r] exI [of _ "[]"]) (auto simp: insert_mark_def split: option.splits)
qed

text \<open>A second mark goes right behind the first.\<close>

lemma insert_mark_twice:
  assumes "32 \<notin> set enc"
  shows "\<exists>a b. insert_mark enc' (insert_mark enc r) = a @ enc @ enc' @ b \<and> r = a @ b"
proof (cases "find_char 32 r")
  case None
  then have "32 \<notin> set r" by (simp add: find_char_def split: if_splits)
  then have "insert_mark enc' (insert_mark enc r) = r @ enc @ enc' @ []"
    using None assms by (simp add: insert_mark_def) (simp add: find_char_def)
  then show ?thesis by fastforce
next
  case (Some i)
  then have r: "32 \<in> set r" "i = length (takeWhile (\<lambda>x. x \<noteq> 32) r)" by (simp_all add: find_char_def split: if_splits)
  obtain y where y: "r = takeWhile (\<lambda>x. x \<noteq> 32) r @ 32 # y"
    by (metis (mono_tags, lifting) r(1) dropWhile_eq_Cons_conv dropWhile_eq_Nil_conv list.exhaust takeWhile_dropWhile_id)
  define a where "a = takeWhile (\<lambda>x. x \<noteq> 32) r"
  have a: "r = a @ 32 # y" "32 \<notin> set a" using y set_takeWhileD unfolding a_def by (metis, fastforce)
  have i: "i = length a" using r(2) by (simp add: a_def)
  show ?thesis
  proof (cases "i > 0")
    case True
    have 1: "insert_mark enc r = (a @ enc) @ 32 # y" using Some True i a(1) by (simp add: insert_mark_def)
    have "find_char 32 ((a @ enc) @ 32 # y) = Some (length (a @ enc))"
      using a(2) assms by (intro find_char_append) simp
    then have "insert_mark enc' ((a @ enc) @ 32 # y) = a @ enc @ enc' @ 32 # y"
      using True i by (simp add: insert_mark_def)
    then show ?thesis using 1 a(1) by metis
  next
    case False
    then have z: "a = []" using i by simp
    have 1: "insert_mark enc r = r @ enc" using Some False by (simp add: insert_mark_def)
    have "find_char 32 (r @ enc) = Some 0" using a(1) z by (simp add: find_char_def)
    then have "insert_mark enc' (r @ enc) = r @ enc @ enc' @ []" by (simp add: insert_mark_def)
    then show ?thesis using 1 by (metis append_Nil2)
  qed
qed

lemma encode_no_blank: "32 \<notin> set (encode_zero_width s)"
  using encode_bits_not_end(2) by (auto simp: encode_zero_width_def zw_defs)

lemma plain_no_marker: "plain_text a \<Longrightarrow> WATERMARK_START \<notin> set a \<and> WATERMARK_END \<notin> set a"
  by (auto simp: plain_text_def zero_width_def)

lemma remove_plain: "plain_text s \<Longrightarrow> remove_zero_width s = s"
  by (simp add: remove_zero_width_def plain_text_def)

lemma remove_encoded: "remove_zero_width (encode_zero_width s) = []"
  by (auto simp: remove_zero_width_def encode_zero_width_def zero_width_def encode_bit_def filter_empty_conv)

lemma extract_encoded:
  assumes "plain_text a"
  shows "extract_watermark alnum (a @ encode_zero_width (payload (the_watermark now content pid depth ts)) @ b) cands known =
    Inr \<lparr>ex_success = True, ex_peer_id = Some (jstr pid), ex_confidence = (1, 1), ex_method = ''zero_width'',
      ex_original_content = Some (a @ remove_zero_width b), ex_watermark_data = Some (the_watermark now content pid depth ts)\<rparr>"
proof -
  let ?w = "the_watermark now content pid depth ts"
  have d: "decode_zero_width (a @ encode_zero_width (payload ?w) @ b) = Some (payload ?w)"
    using plain_no_marker [OF assms] ascii_payload by (intro decode_encoded) auto
  have r: "remove_zero_width (a @ encode_zero_width (payload ?w) @ b) = a @ remove_zero_width b"
    using remove_encoded [of "payload ?w"] remove_plain [OF assms] by (simp add: remove_zero_width_def)
  have "wd_peer_id ?w = jstr pid" by (simp add: the_watermark_def)
  then show ?thesis
    unfolding extract_watermark_def d Let_def option.case if_not_P [OF ascii_payload(2)] loads_payload
      watermark_from_to_dict bindr_simps r by simp
qed

lemma embedded_extracts:
  assumes "plain_text content"
  shows "\<exists>orig. extract_watermark alnum (snd (embed_watermark alnum now content pid depth ts True ling ws known)) cands known' =
      Inr \<lparr>ex_success = True, ex_peer_id = Some (jstr pid), ex_confidence = (1, 1), ex_method = ''zero_width'',
        ex_original_content = Some orig, ex_watermark_data = Some (the_watermark now content pid depth ts)\<rparr> \<and>
    (\<not> ling \<and> \<not> ws \<longrightarrow> orig = content)"
proof -
  let ?w = "the_watermark now content pid depth ts" and ?f = "fingerprinted alnum content pid ling ws"
  obtain a b where ab: "insert_mark (encode_zero_width (payload ?w)) ?f = a @ encode_zero_width (payload ?w) @ b" "?f = a @ b"
    using insert_mark_split by blast
  have p: "plain_text a" "plain_text b" using fingerprinted_plain [OF assms, of alnum pid ling ws] ab(2) by simp_all
  have "\<not> ling \<and> \<not> ws \<Longrightarrow> a @ b = content" using ab(2) by (simp add: fingerprinted_def)
  then show ?thesis unfolding embed_form ab(1) extract_encoded [OF p(1)] remove_plain [OF p(2)] by simp
qed

section \<open>Properties\<close>

text \<open>C18: A watermark can be read back: from text without zero-width characters, whichever of the other
  two fingerprints are applied as well, extraction names the peer the watermark was made for and
  returns its data; with the zero-width mark alone it also returns the original text.\<close>
theorem watermark_extracts:
  assumes "plain_text content"
  shows "\<exists>r. extract_watermark alnum (snd (embed_watermark alnum now content pid depth ts True ling ws known)) cands known' = Inr r \<and>
    ex_success r \<and> ex_peer_id r = Some (jstr pid) \<and> ex_method r = ''zero_width'' \<and>
    (\<exists>wd. ex_watermark_data r = Some wd \<and> wd_depth wd = JInt depth \<and>
       wd_content_hash wd = jstr (sha256 (utf8 content))) \<and>
    (\<not> ling \<and> \<not> ws \<longrightarrow> ex_original_content r = Some content)"
  using embedded_extracts [OF assms, of alnum now pid depth ts ling ws known cands known'] by (auto simp: the_watermark_def)

theorem watermark_extracts_witness:
  "\<exists>r. extract_watermark (\<lambda>_. False) (snd (embed_watermark (\<lambda>_. False) 0 [97, 32, 98] ''bob'' 3 None True False False []))
       None [] = Inr r \<and> ex_success r \<and> ex_peer_id r = Some (jstr ''bob'') \<and> ex_original_content r = Some [97, 32, 98]"
  using watermark_extracts [of "[97, 32, 98]" "\<lambda>_. False" 0 "''bob''" 3 None False False "[]" None "[]"]
  by (auto simp: zero_width_def zw_defs)



text \<open>Extraction raises on a payload that is JSON but not watermark data: the code catches
  \<open>KeyError\<close>, and a missing field raises \<open>TypeError\<close>.\<close>
lemma malformed_payload_raises:
  assumes "plain_text a"
  shows "extract_watermark alnum (a @ encode_zero_width ''{}'' @ b) cands known = Inl TypeError"
proof -
  have "ascii ''{}''" by simp
  then have d: "decode_zero_width (a @ encode_zero_width ''{}'' @ b) = Some ''{}''"
    using plain_no_marker [OF assms] by (intro decode_encoded) auto
  have "loads (dumps (JObj [])) = Some (JObj [])" by (rule loads_dumps) simp_all
  then have l: "loads ''{}'' = Some (JObj [])" by (simp add: dumps_sep.simps)
  show ?thesis
    unfolding extract_watermark_def d Let_def option.case l by (simp add: watermark_from_dict_def)
qed

lemma fold_first_best:
  assumes "\<forall>q \<in> set cs. f q = (if P q then n else 0)" "0 < (n :: nat)"
  shows "fold (\<lambda>q (bm, bs). let m = f q in if m > bs then (Some q, m) else (bm, bs)) cs (None, 0) =
         (case find P cs of None \<Rightarrow> (None, 0) | Some q \<Rightarrow> (Some q, n))"
proof -
  have *: "\<forall>q \<in> set cs. f q \<le> n \<Longrightarrow>
    fold (\<lambda>q (bm, bs). let m = f q in if m > bs then (Some q, m) else (bm, bs)) cs (b, n) = (b, n)" for b cs
    by (induction cs) auto
  show ?thesis
    using assms
  proof (induction cs)
    case (Cons a cs)
    have "\<forall>q \<in> set cs. f q \<le> n" using Cons.prems by simp
    from * [OF this] show ?case using Cons by (simp add: Let_def)
  qed simp
qed

lemma trailing_blanks_append:
  "line = [] \<or> last line \<noteq> 32 \<Longrightarrow> trailing_blanks (line @ replicate n 32) = n"
  by (cases line rule: rev_cases) (simp_all add: trailing_blanks_def takeWhile_append)

lemma whitespace_matches_pattern:
  "whitespace_matches (map (\<lambda>i. nat ((seed + int i) mod 3)) [0..<n]) q =
     (if get_fingerprint_seed q mod 3 = seed mod 3 then n else 0)"
proof -
  have "int (nat ((seed + int i) mod 3)) = (get_fingerprint_seed q + int i) mod 3 \<longleftrightarrow>
        get_fingerprint_seed q mod 3 = seed mod 3" for i
    by (auto simp: mod_eq_dvd_iff algebra_simps dvd_diff_commute)
  then show ?thesis by (simp add: whitespace_matches_def Let_def enumerate_map_upt filter_map comp_def)
qed

lemma fingerprint_pattern:
  assumes "ls \<noteq> []" "\<forall>l \<in> set ls. newline \<notin> set l \<and> (l = [] \<or> last l \<noteq> 32)"
  shows "map (\<lambda>line. trailing_blanks line mod 3)
           (split [newline] (add_whitespace_fingerprint (join [newline] ls) pid)) =
         map (\<lambda>i. nat ((get_fingerprint_seed pid + int i) mod 3)) [0..<length ls]"
proof -
  let ?g = "\<lambda>(i, line). line @ replicate (nat ((get_fingerprint_seed pid + int i) mod 3)) 32"
  have m: "(i, l) \<in> set (enumerate 0 ls) \<Longrightarrow> i < length ls \<and> l = ls ! i" for i l
    by (auto simp: in_set_enumerate_eq)
  have "split [newline] (join [newline] ls) = ls" using assms by (intro split_join_char) auto
  moreover have "split [newline] (join [newline] (map ?g (enumerate 0 ls))) = map ?g (enumerate 0 ls)"
    using assms by (intro split_join_char) (auto simp: newline_def enumerate_eq_zip dest: set_zip_rightD)
  ultimately have "split [newline] (add_whitespace_fingerprint (join [newline] ls) pid) = map ?g (enumerate 0 ls)"
    by (simp add: add_whitespace_fingerprint_def Let_def)
  then show ?thesis
    using assms(2) by (auto intro!: nth_equalityI simp: nth_enumerate_eq trailing_blanks_append)
qed

text \<open>The whitespace fingerprint tells peers apart only by the residue of their seed modulo three:
  on a text of at least three lines without trailing blanks it names, with full score, the first
  candidate whose seed is congruent to the marked peer's.\<close>
lemma whitespace_fingerprint_mod_three:
  assumes "3 \<le> length ls" "\<forall>l \<in> set ls. newline \<notin> set l \<and> (l = [] \<or> last l \<noteq> 32)"
    and "pid \<in> set candidates" "[] \<notin> set candidates"
  shows "\<exists>q. find (\<lambda>q. get_fingerprint_seed q mod 3 = get_fingerprint_seed pid mod 3) candidates = Some q \<and>
    detect_whitespace_fingerprint (add_whitespace_fingerprint (join [newline] ls) pid) candidates = Some (q, length ls, length ls)"
proof -
  let ?P = "\<lambda>q. get_fingerprint_seed q mod 3 = get_fingerprint_seed pid mod 3"
  obtain q where q: "find ?P candidates = Some q" 
    using assms(3) by (cases "find ?P candidates") (auto simp: find_None_iff)
  then have qne: "q \<noteq> []" using assms(4) nth_mem by (fastforce simp: find_Some_iff)
  have "ls \<noteq> []" using assms(1) by auto
  note p = fingerprint_pattern [OF this assms(2), of pid]
  have n: "0 < length ls" using assms(1) by linarith
  note f = fold_first_best [of candidates "whitespace_matches (map (\<lambda>i. nat ((get_fingerprint_seed pid + int i) mod 3)) [0..<length ls])"
      ?P, OF _ n, unfolded whitespace_matches_pattern, OF ballI, OF refl, folded whitespace_matches_pattern]
  have len: "length (split [newline] (add_whitespace_fingerprint (join [newline] ls) pid)) = length ls"
    using arg_cong [OF p, of length] by simp
  show ?thesis
    unfolding detect_whitespace_fingerprint_def Let_def len p
    using f [unfolded Let_def q] assms(1) qne q n by simp
qed

end
