(* ===== verification/Identity.thy ===== *)
theory Identity
  imports Crypto Wire
begin

text \<open>
  \<open>coc_framework/core/identity.py\<close>: identities, certificates, the certificate authority with its
  cache of verdicts, and the identity store. The metadata of an identity is an ordered
  dictionary from names to texts. A Python set has no fixed iteration order, so the operations
  that walk a set of serial numbers take the order as an argument.
\<close>

section \<open>Identity\<close>

record identity =
  id_peer_id :: string
  id_public_key :: bytes
  id_created_at :: string
  id_metadata :: "(string \<times> ustr) list"

definition identity_to_dict :: "identity \<Rightarrow> json" where
  "identity_to_dict i = JObj [
     (''peer_id'', jstr (id_peer_id i)),
     (''public_key'', jstr (bytes_hex (id_public_key i))),
     (''created_at'', jstr (id_created_at i)),
     (''metadata'', JObj (map (\<lambda>(k, v). (k, JStr v)) (id_metadata i)))]"

definition as_metadata :: "json \<Rightarrow> (string \<times> ustr) list result" where
  "as_metadata j = (case j of
     JObj ms \<Rightarrow> mapr (\<lambda>(k, v). bindr (as_ustr v) (\<lambda>u. Inr (k, u))) ms
   | _ \<Rightarrow> Inl TypeError)"

definition identity_from_dict :: "json \<Rightarrow> identity result" where
  "identity_from_dict d =
     bindr (bindr (jreq d ''peer_id'') as_str) (\<lambda>pid.
     bindr (bindr (jreq d ''public_key'') as_str) (\<lambda>hexkey.
     bindr (case fromhex hexkey of None \<Rightarrow> Inl ValueError | Some k \<Rightarrow> Inr k) (\<lambda>key.
     bindr (bindr (jreq d ''created_at'') as_str) (\<lambda>created.
     bindr (as_metadata (jdefault d ''metadata'' (JObj []))) (\<lambda>meta.
       Inr \<lparr>id_peer_id = pid, id_public_key = key, id_created_at = created, id_metadata = meta\<rparr>)))))"

text \<open>The constructor of \<open>VerifyKey\<close> accepts exactly 32 bytes.\<close>

definition get_verify_key :: "identity \<Rightarrow> verify_key result" where
  "get_verify_key i = (if length (id_public_key i) = 32 then Inr (id_public_key i) else Inl ValueError)"

definition identity_create :: "datetime \<Rightarrow> string \<Rightarrow> verify_key \<Rightarrow> (string \<times> ustr) list option \<Rightarrow> identity" where
  "identity_create now pid vk metadata =
     \<lparr>id_peer_id = pid, id_public_key = vk, id_created_at = isoformat now,
      id_metadata = (case metadata of None \<Rightarrow> [] | Some m \<Rightarrow> m)\<rparr>"

section \<open>Certificate\<close>

record certificate =
  cert_identity :: identity
  cert_issuer_id :: string
  cert_valid_from :: string
  cert_valid_until :: string
  cert_signature :: string
  cert_serial_number :: string

definition cert_to_dict :: "certificate \<Rightarrow> json" where
  "cert_to_dict c = JObj [
     (''identity'', identity_to_dict (cert_identity c)),
     (''issuer_id'', jstr (cert_issuer_id c)),
     (''valid_from'', jstr (cert_valid_from c)),
     (''valid_until'', jstr (cert_valid_until c)),
     (''signature'', jstr (cert_signature c)),
     (''serial_number'', jstr (cert_serial_number c))]"

definition cert_from_dict :: "json \<Rightarrow> certificate result" where
  "cert_from_dict d =
     bindr (bindr (jreq d ''identity'') identity_from_dict) (\<lambda>i.
     bindr (bindr (jreq d ''issuer_id'') as_str) (\<lambda>issuer.
     bindr (bindr (jreq d ''valid_from'') as_str) (\<lambda>vf.
     bindr (bindr (jreq d ''valid_until'') as_str) (\<lambda>vu.
     bindr (bindr (jreq d ''signature'') as_str) (\<lambda>sig.
     bindr (bindr (jreq d ''serial_number'') as_str) (\<lambda>sn.
       Inr \<lparr>cert_identity = i, cert_issuer_id = issuer, cert_valid_from = vf, cert_valid_until = vu,
            cert_signature = sig, cert_serial_number = sn\<rparr>))))))"

definition cert_is_expired :: "datetime \<Rightarrow> certificate \<Rightarrow> bool result" where
  "cert_is_expired now c = bindr (read_instant (cert_valid_until c)) (\<lambda>u. Inr (now > u))"

definition is_not_yet_valid :: "datetime \<Rightarrow> certificate \<Rightarrow> bool result" where
  "is_not_yet_valid now c = bindr (read_instant (cert_valid_from c)) (\<lambda>f. Inr (now < f))"

text \<open>Both texts are parsed; the chained comparison reaches the second only when the first holds.\<close>

definition is_valid_time :: "datetime \<Rightarrow> certificate \<Rightarrow> bool result" where
  "is_valid_time now c =
     (case (fromisoformat (cert_valid_from c), fromisoformat (cert_valid_until c)) of
        (Some (f, fz), Some (u, uz)) \<Rightarrow>
          (case fz of
             None \<Rightarrow> Inl TypeError
           | Some z \<Rightarrow>
               if now < f - z then Inr False
               else (case uz of None \<Rightarrow> Inl TypeError | Some z' \<Rightarrow> Inr (now \<le> u - z')))
      | _ \<Rightarrow> Inl ValueError)"

definition is_self_signed :: "certificate \<Rightarrow> bool" where
  "is_self_signed c \<longleftrightarrow> cert_issuer_id c = ''self''"

definition signed_fields :: "certificate \<Rightarrow> json" where
  "signed_fields c = JObj [
     (''identity'', identity_to_dict (cert_identity c)),
     (''issuer_id'', jstr (cert_issuer_id c)),
     (''valid_from'', jstr (cert_valid_from c)),
     (''valid_until'', jstr (cert_valid_until c)),
     (''serial_number'', jstr (cert_serial_number c))]"

definition get_signed_data :: "certificate \<Rightarrow> string" where
  "get_signed_data c = dumps_compact (sort_keys (signed_fields c))"

section \<open>CertificateAuthority\<close>

record certificate_authority =
  ca_identity :: identity
  ca_signing_key :: signing_key
  ca_validation_cache :: "string \<rightharpoonup> bool \<times> datetime"
  ca_cache_ttl :: datetime

definition ca_init :: "identity \<Rightarrow> signing_key \<Rightarrow> certificate_authority" where
  "ca_init i k = \<lparr>ca_identity = i, ca_signing_key = k, ca_validation_cache = Map.empty, ca_cache_ttl = seconds 60\<rparr>"

definition ca_peer_id :: "certificate_authority \<Rightarrow> string" where
  "ca_peer_id ca = id_peer_id (ca_identity ca)"

definition get_cached_validation ::
  "datetime \<Rightarrow> string \<Rightarrow> certificate_authority \<Rightarrow> certificate_authority \<times> bool option" where
  "get_cached_validation now sn ca =
     (case ca_validation_cache ca sn of
        None \<Rightarrow> (ca, None)
      | Some (ok, t) \<Rightarrow>
          if now - t < ca_cache_ttl ca then (ca, Some ok)
          else (ca\<lparr>ca_validation_cache := (ca_validation_cache ca)(sn := None)\<rparr>, None))"

definition cache_validation_result ::
  "datetime \<Rightarrow> string \<Rightarrow> bool \<Rightarrow> certificate_authority \<Rightarrow> certificate_authority" where
  "cache_validation_result now sn ok ca =
     ca\<lparr>ca_validation_cache := (ca_validation_cache ca)(sn \<mapsto> (ok, now))\<rparr>"

definition invalidate_cache :: "string option \<Rightarrow> certificate_authority \<Rightarrow> certificate_authority" where
  "invalidate_cache sn ca =
     (case sn of
        None \<Rightarrow> ca\<lparr>ca_validation_cache := Map.empty\<rparr>
      | Some s \<Rightarrow>
          if ca_validation_cache ca s \<noteq> None
          then ca\<lparr>ca_validation_cache := (ca_validation_cache ca)(s := None)\<rparr> else ca)"

text \<open>\<open>now + timedelta(days=...)\<close> raises outside the years 1 to 9999.\<close>

definition plus_days :: "datetime \<Rightarrow> int \<Rightarrow> datetime result" where
  "plus_days now days =
     (let t = now + days * int us_day in if dt_ok t then Inr t else Inl OverflowError)"

text \<open>The certificate without, and then with, its signature.\<close>

definition sign_certificate :: "crypto \<Rightarrow> signing_key \<Rightarrow> certificate \<Rightarrow> certificate" where
  "sign_certificate C k c = c\<lparr>cert_signature := bytes_hex (sign_message C k (get_signed_data c))\<rparr>"

definition issue_certificate ::
  "crypto \<Rightarrow> datetime \<Rightarrow> string \<Rightarrow> identity \<Rightarrow> int \<Rightarrow> certificate_authority \<Rightarrow> certificate result" where
  "issue_certificate C now uuid i validity_days ca =
     bindr (plus_days now validity_days) (\<lambda>until.
       Inr (sign_certificate C (ca_signing_key ca)
         \<lparr>cert_identity = i, cert_issuer_id = ca_peer_id ca, cert_valid_from = isoformat now,
          cert_valid_until = isoformat until, cert_signature = [], cert_serial_number = uuid\<rparr>))"

text \<open>The key a certificate has to verify under: \<open>None\<close> for a certificate of another authority.\<close>

definition issuer_key :: "certificate_authority \<Rightarrow> certificate \<Rightarrow> verify_key option result" where
  "issuer_key ca c =
     (if is_self_signed c then bindr (get_verify_key (cert_identity c)) (\<lambda>k. Inr (Some k))
      else if cert_issuer_id c = ca_peer_id ca then bindr (get_verify_key (ca_identity ca)) (\<lambda>k. Inr (Some k))
      else Inr None)"

definition check_signature :: "crypto \<Rightarrow> verify_key \<Rightarrow> certificate \<Rightarrow> bool" where
  "check_signature C vk c =
     (case fromhex (cert_signature c) of
        None \<Rightarrow> False
      | Some s \<Rightarrow> verify_signature C vk (get_signed_data c) s)"

definition verify_certificate ::
  "crypto \<Rightarrow> datetime \<Rightarrow> certificate \<Rightarrow> certificate_authority \<Rightarrow> certificate_authority \<times> bool result" where
  "verify_certificate C now c ca =
     (let (ca, cached) = get_cached_validation now (cert_serial_number c) ca
      in case cached of
           Some ok \<Rightarrow> (ca, bindr (is_valid_time now c) (\<lambda>v. Inr (v \<and> ok)))
         | None \<Rightarrow>
             (case is_valid_time now c of
                Inl e \<Rightarrow> (ca, Inl e)
              | Inr False \<Rightarrow> (cache_validation_result now (cert_serial_number c) False ca, Inr False)
              | Inr True \<Rightarrow>
                  (case issuer_key ca c of
                     Inl e \<Rightarrow> (ca, Inl e)
                   | Inr None \<Rightarrow> (cache_validation_result now (cert_serial_number c) False ca, Inr False)
                   | Inr (Some vk) \<Rightarrow>
                       let ok = check_signature C vk c
                       in (cache_validation_result now (cert_serial_number c) ok ca, Inr ok))))"

definition create_self_signed ::
  "crypto \<Rightarrow> datetime \<Rightarrow> string \<Rightarrow> string \<Rightarrow> signing_key \<Rightarrow> int \<Rightarrow> (string \<times> ustr) list option \<Rightarrow> certificate result" where
  "create_self_signed C now uuid pid sk validity_days metadata =
     (let i = identity_create now pid (ed_verify_key C sk) metadata
      in bindr (plus_days now validity_days) (\<lambda>until.
           Inr (sign_certificate C sk
             \<lparr>cert_identity = i, cert_issuer_id = ''self'', cert_valid_from = isoformat now,
              cert_valid_until = isoformat until, cert_signature = [], cert_serial_number = uuid\<rparr>)))"

definition verify_self_signed :: "crypto \<Rightarrow> datetime \<Rightarrow> certificate \<Rightarrow> bool result" where
  "verify_self_signed C now c =
     (if \<not> is_self_signed c then Inr False
      else bindr (is_valid_time now c) (\<lambda>v.
        if \<not> v then Inr False
        else (case get_verify_key (cert_identity c) of
                Inl e \<Rightarrow> Inr False
              | Inr vk \<Rightarrow> Inr (check_signature C vk c))))"

section \<open>IdentityStore\<close>

record identity_store =
  is_identities :: "(string \<times> identity) list"
  is_certificates :: "(string \<times> certificate) list"
  is_peer_certs :: "string \<rightharpoonup> string list"
  is_revoked_set :: "string set"

definition identity_store_init :: identity_store where
  "identity_store_init = \<lparr>is_identities = [], is_certificates = [], is_peer_certs = Map.empty, is_revoked_set = {}\<rparr>"

definition add_identity :: "identity \<Rightarrow> identity_store \<Rightarrow> identity_store" where
  "add_identity i st = st\<lparr>is_identities := dict_set (id_peer_id i) i (is_identities st)\<rparr>"

definition get_identity :: "string \<Rightarrow> identity_store \<Rightarrow> identity option" where
  "get_identity pid st = map_of (is_identities st) pid"

text \<open>A set of serial numbers is the list of its members, in the order they were added.\<close>

definition peer_serials :: "string \<Rightarrow> identity_store \<Rightarrow> string list" where
  "peer_serials pid st = (case is_peer_certs st pid of None \<Rightarrow> [] | Some sns \<Rightarrow> sns)"

definition add_certificate :: "certificate \<Rightarrow> identity_store \<Rightarrow> identity_store" where
  "add_certificate c st =
     (let sn = cert_serial_number c;
          pid = id_peer_id (cert_identity c);
          sns = peer_serials pid st
      in add_identity (cert_identity c)
           (st\<lparr>is_certificates := dict_set sn c (is_certificates st),
               is_peer_certs := (is_peer_certs st)(pid \<mapsto> (if sn \<in> set sns then sns else sns @ [sn]))\<rparr>))"

definition get_certificate :: "string \<Rightarrow> identity_store \<Rightarrow> certificate option" where
  "get_certificate sn st = map_of (is_certificates st) sn"

definition get_certificates_for_peer :: "(string list \<Rightarrow> string list) \<Rightarrow> string \<Rightarrow> identity_store \<Rightarrow> certificate list" where
  "get_certificates_for_peer order pid st =
     List.map_filter (\<lambda>sn. get_certificate sn st) (order (peer_serials pid st))"

fun first_valid :: "datetime \<Rightarrow> identity_store \<Rightarrow> string list \<Rightarrow> certificate option result" where
  "first_valid now st [] = Inr None"
| "first_valid now st (sn # sns) =
     (if sn \<in> is_revoked_set st then first_valid now st sns
      else (case get_certificate sn st of
              None \<Rightarrow> first_valid now st sns
            | Some c \<Rightarrow> bindr (is_valid_time now c) (\<lambda>v. if v then Inr (Some c) else first_valid now st sns)))"

definition get_valid_certificate ::
  "(string list \<Rightarrow> string list) \<Rightarrow> datetime \<Rightarrow> string \<Rightarrow> identity_store \<Rightarrow> certificate option result" where
  "get_valid_certificate order now pid st = first_valid now st (order (peer_serials pid st))"

definition revoke_certificate :: "string \<Rightarrow> identity_store \<Rightarrow> identity_store \<times> bool" where
  "revoke_certificate sn st =
     (if get_certificate sn st \<noteq> None then (st\<lparr>is_revoked_set := insert sn (is_revoked_set st)\<rparr>, True) else (st, False))"

definition is_revoked :: "string \<Rightarrow> identity_store \<Rightarrow> bool" where
  "is_revoked sn st \<longleftrightarrow> sn \<in> is_revoked_set st"

definition list_all_certificates :: "identity_store \<Rightarrow> certificate list" where
  "list_all_certificates st = map snd (is_certificates st)"

definition list_all_identities :: "identity_store \<Rightarrow> identity list" where
  "list_all_identities st = map snd (is_identities st)"

section \<open>Encoding\<close>

lemma as_metadata_map: "as_metadata (JObj (map (\<lambda>(k, v). (k, JStr v)) m)) = Inr m"
  by (auto simp: as_metadata_def intro: mapr_Inr)

lemma identity_from_to_dict: "identity_from_dict (identity_to_dict i) = Inr i"
  by (simp add: identity_from_dict_def identity_to_dict_def jreq_def jdefault_def as_metadata_map)

lemma cert_from_to_dict: "cert_from_dict (cert_to_dict c) = Inr c"
  by (simp add: cert_from_dict_def cert_to_dict_def jreq_def identity_from_to_dict)

definition cert_ok :: "certificate \<Rightarrow> bool" where
  "cert_ok c \<longleftrightarrow> distinct (map fst (id_metadata (cert_identity c))) \<and>
     (\<forall>(k, v) \<in> set (id_metadata (cert_identity c)). scalar_text v)"

lemma cert_ok_jwf: "cert_ok c \<Longrightarrow> jwf (identity_to_dict (cert_identity c))"
  by (auto simp: cert_ok_def identity_to_dict_def comp_def case_prod_unfold)

lemma cert_text_round_trip:
  "cert_ok c \<Longrightarrow> Option.bind (loads (dumps (cert_to_dict c)))
     (\<lambda>d. case cert_from_dict d of Inr c \<Rightarrow> Some c | Inl e \<Rightarrow> None) = Some c"
  using cert_ok_jwf [of c] by (subst loads_dumps) (simp_all add: cert_to_dict_def cert_from_to_dict [unfolded cert_to_dict_def])

section \<open>What a signature covers\<close>

lemma bytes_hex_eq: "bytes_hex a = bytes_hex b \<longleftrightarrow> a = b"
  by (metis fromhex_bytes_hex option.inject)

lemma sort_key_map_of:
  assumes "distinct (map fst ms)"
  shows "map_of (sort_key fst ms) = map_of ms"
proof -
  have "mset (map fst (sort_key fst ms)) = mset (map fst ms)" by simp
  then have "distinct (map fst (sort_key fst ms))" using assms by (metis mset_eq_imp_distinct_iff)
  then show ?thesis using assms by (intro map_of_eqI) auto
qed

lemma jfield_sort_keys:
  "distinct (map fst ms) \<Longrightarrow> jfield (sort_keys (JObj ms)) k = map_option sort_keys (jfield (JObj ms) k)"
  by (simp add: jfield_def sort_key_map_of comp_def case_prod_unfold map_of_map [unfolded case_prod_unfold])

lemma sort_key_unique:
  assumes "distinct (map fst xs)" "distinct (map fst ys)" "map_of xs = map_of ys"
  shows "sort_key fst xs = sort_key fst ys"
proof -
  have s: "set xs = set ys" using assms by (metis map_of_inject_set)
  have d: "distinct (map fst (sort_key fst zs))" if "distinct (map fst zs)" for zs :: "('a \<times> 'b) list"
    using that by (metis mset_eq_imp_distinct_iff mset_map mset_sort)
  have "inj_on fst (set ys)" using assms(2) by (simp add: distinct_map)
  then show ?thesis using assms s d by (intro map_sorted_distinct_set_unique [of fst]) auto
qed

definition same_signed_fields :: "certificate \<Rightarrow> certificate \<Rightarrow> bool" where
  "same_signed_fields c c' \<longleftrightarrow>
     cert_issuer_id c = cert_issuer_id c' \<and> cert_valid_from c = cert_valid_from c' \<and>
     cert_valid_until c = cert_valid_until c' \<and> cert_serial_number c = cert_serial_number c' \<and>
     id_peer_id (cert_identity c) = id_peer_id (cert_identity c') \<and>
     id_public_key (cert_identity c) = id_public_key (cert_identity c') \<and>
     id_created_at (cert_identity c) = id_created_at (cert_identity c') \<and>
     map_of (id_metadata (cert_identity c)) = map_of (id_metadata (cert_identity c'))"

abbreviation jmeta :: "(string \<times> ustr) list \<Rightarrow> (string \<times> json) list" where
  "jmeta m \<equiv> map (\<lambda>(k, v). (k, JStr v)) m"

lemma map_of_jmeta: "map_of (jmeta m) = map_of (jmeta m') \<longleftrightarrow> map_of m = map_of m'"
proof -
  have e: "map_of (jmeta m) k = map_option JStr (map_of m k)" for m k
    by (simp add: map_of_map [unfolded comp_def])
  have "inj (map_option JStr)" by (intro option.inj_map injI) simp
  then show ?thesis by (auto simp: fun_eq_iff e dest: injD)
qed

lemma sort_keys_jmeta: "sort_keys (JObj (jmeta m)) = JObj (sort_key fst (jmeta m))"
  by (simp add: comp_def case_prod_unfold)

lemma sort_keys_identity:
  assumes "distinct (map fst (id_metadata i))" "distinct (map fst (id_metadata j))"
  shows "sort_keys (identity_to_dict i) = sort_keys (identity_to_dict j) \<longleftrightarrow>
     id_peer_id i = id_peer_id j \<and> id_public_key i = id_public_key j \<and> id_created_at i = id_created_at j \<and>
     map_of (id_metadata i) = map_of (id_metadata j)" (is "?l \<longleftrightarrow> ?r")
proof
  assume l: ?l
  have f: "map_option sort_keys (jfield (identity_to_dict i) k) = map_option sort_keys (jfield (identity_to_dict j) k)" for k
    using arg_cong [OF l, of "\<lambda>d. jfield d k"] unfolding identity_to_dict_def
    by (subst (asm) (1 2) jfield_sort_keys) simp_all
  have "sort_keys (JObj (jmeta (id_metadata i))) = sort_keys (JObj (jmeta (id_metadata j)))"
    using f [of "''metadata''"] by (simp add: identity_to_dict_def del: sort_keys.simps)
  then have m: "sort_key fst (jmeta (id_metadata i)) = sort_key fst (jmeta (id_metadata j))"
    unfolding sort_keys_jmeta by simp
  have d: "distinct (map fst (jmeta (id_metadata i)))" "distinct (map fst (jmeta (id_metadata j)))"
    using assms by (simp_all add: comp_def case_prod_unfold)
  have "map_of (jmeta (id_metadata i)) = map_of (jmeta (id_metadata j))"
    using sort_key_map_of [OF d(1)] sort_key_map_of [OF d(2)] m by simp
  then show ?r
    using f [of "''peer_id''"] f [of "''public_key''"] f [of "''created_at''"]
    by (simp add: identity_to_dict_def map_of_jmeta ustr_of_eq bytes_hex_eq)
next
  assume r: ?r
  then have "map_of (jmeta (id_metadata i)) = map_of (jmeta (id_metadata j))" by (simp add: map_of_jmeta)
  then have "sort_key fst (jmeta (id_metadata i)) = sort_key fst (jmeta (id_metadata j))"
    using assms by (intro sort_key_unique) (simp_all add: comp_def case_prod_unfold)
  then have "sort_keys (JObj (jmeta (id_metadata i))) = sort_keys (JObj (jmeta (id_metadata j)))"
    unfolding sort_keys_jmeta by simp
  then show ?l using r unfolding identity_to_dict_def sort_keys.simps(2) [of "_ # _"] by simp
qed

lemma sort_keys_signed_fields:
  assumes "cert_ok c" "cert_ok c'"
  shows "sort_keys (signed_fields c) = sort_keys (signed_fields c') \<longleftrightarrow> same_signed_fields c c'"
    (is "?l \<longleftrightarrow> ?r")
proof
  assume l: ?l
  have f: "map_option sort_keys (jfield (signed_fields c) k) = map_option sort_keys (jfield (signed_fields c') k)" for k
    using arg_cong [OF l, of "\<lambda>d. jfield d k"] unfolding signed_fields_def
    by (subst (asm) (1 2) jfield_sort_keys) simp_all
  have "sort_keys (identity_to_dict (cert_identity c)) = sort_keys (identity_to_dict (cert_identity c'))"
    using f [of "''identity''"] by (simp add: signed_fields_def)
  then show ?r
    using assms f [of "''issuer_id''"] f [of "''valid_from''"] f [of "''valid_until''"] f [of "''serial_number''"]
    by (simp add: same_signed_fields_def signed_fields_def cert_ok_def sort_keys_identity ustr_of_eq)
next
  assume r: ?r
  then have "sort_keys (identity_to_dict (cert_identity c)) = sort_keys (identity_to_dict (cert_identity c'))"
    using assms by (simp add: same_signed_fields_def cert_ok_def sort_keys_identity)
  with r show ?l unfolding signed_fields_def sort_keys.simps(2) same_signed_fields_def by simp
qed

lemma jwf_signed_fields: "cert_ok c \<Longrightarrow> jwf (sort_keys (signed_fields c))"
  using cert_ok_jwf [of c] by (intro jwf_sort_keys) (simp add: signed_fields_def)

lemma get_signed_data_iff:
  assumes "cert_ok c" "cert_ok c'"
  shows "get_signed_data c = get_signed_data c' \<longleftrightarrow> same_signed_fields c c'"
  using dumps_inj [OF seps_default(2) jwf_signed_fields jwf_signed_fields, OF assms] sort_keys_signed_fields [OF assms]
  unfolding get_signed_data_def by metis

section \<open>The authority\<close>

lemma is_valid_time_iso:
  assumes "dt_ok f" "dt_ok u" "cert_valid_from c = isoformat f" "cert_valid_until c = isoformat u"
  shows "is_valid_time t c = Inr (f \<le> t \<and> t \<le> u)"
  using assms by (auto simp: is_valid_time_def fromisoformat_isoformat)

lemma get_signed_data_signature [simp]: "get_signed_data (c\<lparr>cert_signature := s\<rparr>) = get_signed_data c"
  by (simp add: get_signed_data_def signed_fields_def)

lemma sign_certificate_sel [simp]:
  "cert_identity (sign_certificate C k c) = cert_identity c"
  "cert_issuer_id (sign_certificate C k c) = cert_issuer_id c"
  "cert_valid_from (sign_certificate C k c) = cert_valid_from c"
  "cert_valid_until (sign_certificate C k c) = cert_valid_until c"
  "cert_serial_number (sign_certificate C k c) = cert_serial_number c"
  by (simp_all add: sign_certificate_def)

lemma check_sign_certificate:
  "sig_correct C \<Longrightarrow> check_signature C (ed_verify_key C k) (sign_certificate C k c)"
  by (simp add: check_signature_def sign_certificate_def verify_signature_def sign_message_def sig_correct_def)

lemma issue_certificateD:
  assumes "issue_certificate C now uuid i days ca = Inr c"
  shows "dt_ok (now + days * int us_day)" "cert_identity c = i" "cert_issuer_id c = ca_peer_id ca"
    "cert_valid_from c = isoformat now" "cert_valid_until c = isoformat (now + days * int us_day)"
    "cert_serial_number c = uuid" "sig_correct C \<Longrightarrow> check_signature C (ed_verify_key C (ca_signing_key ca)) c"
  using assms by (auto simp: issue_certificate_def plus_days_def Let_def bindr_eq_Inr check_sign_certificate split: if_splits)

lemma verify_uncached:
  assumes "ca_validation_cache ca (cert_serial_number c) = None" "is_valid_time t c = Inr v"
    and "issuer_key ca c = Inr (Some vk)"
  shows "snd (verify_certificate C t c ca) = Inr (v \<and> check_signature C vk c)"
    and "ca_validation_cache (fst (verify_certificate C t c ca)) (cert_serial_number c) = Some (v \<and> check_signature C vk c, t)"
  using assms by (cases v; simp add: verify_certificate_def get_cached_validation_def cache_validation_result_def Let_def)+

lemma verify_caches:
  assumes "ca_validation_cache ca (cert_serial_number c) = None" "verify_certificate C t c ca = (ca', Inr True)"
  shows "ca_validation_cache ca' (cert_serial_number c) = Some (True, t)" "ca_cache_ttl ca' = ca_cache_ttl ca"
  using assms
  by (auto simp: verify_certificate_def get_cached_validation_def cache_validation_result_def Let_def
      split: sum.splits bool.splits option.splits)

lemma verify_cached:
  assumes "ca_validation_cache ca (cert_serial_number c) = Some (ok, t0)" "t - t0 < ca_cache_ttl ca"
  shows "verify_certificate C t c ca = (ca, bindr (is_valid_time t c) (\<lambda>v. Inr (v \<and> ok)))"
  using assms by (simp add: verify_certificate_def get_cached_validation_def)

section \<open>The store\<close>

datatype store_op = AddIdentity identity | AddCertificate certificate | Revoke string

fun store_op_step :: "store_op \<Rightarrow> identity_store \<Rightarrow> identity_store" where
  "store_op_step (AddIdentity i) st = add_identity i st"
| "store_op_step (AddCertificate c) st = add_certificate c st"
| "store_op_step (Revoke sn) st = fst (revoke_certificate sn st)"

abbreviation cert_peer :: "certificate \<Rightarrow> string" where
  "cert_peer c \<equiv> id_peer_id (cert_identity c)"

definition serials_of_one_peer :: "store_op list \<Rightarrow> bool" where
  "serials_of_one_peer ops \<longleftrightarrow> (\<forall>c c'. AddCertificate c \<in> set ops \<longrightarrow> AddCertificate c' \<in> set ops \<longrightarrow>
     cert_serial_number c = cert_serial_number c' \<longrightarrow> cert_peer c = cert_peer c')"

definition is_inv :: "store_op list \<Rightarrow> identity_store \<Rightarrow> bool" where
  "is_inv ops st \<longleftrightarrow>
     (\<forall>sn c. get_certificate sn st = Some c \<longrightarrow>
        AddCertificate c \<in> set ops \<and> cert_serial_number c = sn \<and> sn \<in> set (peer_serials (cert_peer c) st)) \<and>
     (\<forall>pid sn. sn \<in> set (peer_serials pid st) \<longrightarrow> (\<exists>c. get_certificate sn st = Some c \<and> cert_peer c = pid))"

lemma is_inv_add_certificate:
  assumes "is_inv ops st" "serials_of_one_peer (ops @ [AddCertificate c])"
  shows "is_inv (ops @ [AddCertificate c]) (add_certificate c st)"
proof -
  have p: "peer_serials pid (add_certificate c st) =
      (if pid = cert_peer c then (let sns = peer_serials pid st in
         if cert_serial_number c \<in> set sns then sns else sns @ [cert_serial_number c]) else peer_serials pid st)" for pid
    by (simp add: add_certificate_def add_identity_def peer_serials_def Let_def)
  have g: "get_certificate sn (add_certificate c st) = (if sn = cert_serial_number c then Some c else get_certificate sn st)" for sn
    by (simp add: add_certificate_def add_identity_def get_certificate_def Let_def)
  have i1: "AddCertificate d \<in> set ops \<and> cert_serial_number d = sn \<and> sn \<in> set (peer_serials (cert_peer d) st)"
    if "get_certificate sn st = Some d" for sn d
    using assms(1) that unfolding is_inv_def by blast
  have i2: "\<exists>d. get_certificate sn st = Some d \<and> cert_peer d = pid" if "sn \<in> set (peer_serials pid st)" for sn pid
    using assms(1) that unfolding is_inv_def by blast
  have o: "get_certificate (cert_serial_number c) st = Some d \<Longrightarrow> cert_peer d = cert_peer c" for d
    using i1 [of "cert_serial_number c" d] assms(2) [unfolded serials_of_one_peer_def, rule_format, of d c] by simp
  show ?thesis
    unfolding is_inv_def
  proof (intro conjI allI impI)
    fix sn d assume "get_certificate sn (add_certificate c st) = Some d"
    then show "AddCertificate d \<in> set (ops @ [AddCertificate c])" "cert_serial_number d = sn"
      "sn \<in> set (peer_serials (cert_peer d) (add_certificate c st))"
      using i1 [of sn d] by (auto simp: g p Let_def split: if_splits)
  next
    fix pid sn assume "sn \<in> set (peer_serials pid (add_certificate c st))"
    then have "sn = cert_serial_number c \<and> pid = cert_peer c \<or> sn \<in> set (peer_serials pid st)"
      by (auto simp: p Let_def split: if_splits)
    then show "\<exists>d. get_certificate sn (add_certificate c st) = Some d \<and> cert_peer d = pid"
      using i2 [of sn pid] o unfolding g by (cases "sn = cert_serial_number c") auto
  qed
qed

lemma is_inv_frame:
  assumes "is_inv ops st" "is_certificates st' = is_certificates st" "is_peer_certs st' = is_peer_certs st"
  shows "is_inv (ops @ [oper]) st'"
  using assms by (simp add: is_inv_def get_certificate_def peer_serials_def)

lemma serials_of_one_peer_prefix: "serials_of_one_peer (ops @ ops') \<Longrightarrow> serials_of_one_peer ops"
  unfolding serials_of_one_peer_def set_append by blast

lemma is_inv_reachable: "serials_of_one_peer ops \<Longrightarrow> is_inv ops (fold store_op_step ops identity_store_init)"
proof (induction ops rule: rev_induct)
  case Nil
  then show ?case by (simp add: is_inv_def identity_store_init_def get_certificate_def peer_serials_def)
next
  case (snoc x ops)
  then have "is_inv ops (fold store_op_step ops identity_store_init)" by (blast intro: serials_of_one_peer_prefix)
  with snoc.prems show ?case
    by (cases x) (auto intro: is_inv_add_certificate is_inv_frame simp: add_identity_def revoke_certificate_def)
qed

lemma first_valid_Some:
  "first_valid now st sns = Inr (Some c) \<Longrightarrow>
   \<exists>sn \<in> set sns. sn \<notin> is_revoked_set st \<and> get_certificate sn st = Some c \<and> is_valid_time now c = Inr True"
proof (induction sns)
  case (Cons sn sns)
  show ?case
  proof (cases "sn \<in> is_revoked_set st \<or> get_certificate sn st = None")
    case True
    then have "first_valid now st (sn # sns) = first_valid now st sns" by auto
    then show ?thesis using Cons by auto
  next
    case False
    then obtain d where "get_certificate sn st = Some d" by auto
    then show ?thesis using Cons False by (auto simp: bindr_eq_Inr split: if_splits)
  qed
qed simp

lemma first_valid_None:
  "first_valid now st sns = Inr None \<Longrightarrow> sn \<in> set sns \<Longrightarrow> sn \<notin> is_revoked_set st \<Longrightarrow>
   get_certificate sn st = Some c \<Longrightarrow> is_valid_time now c = Inr False"
proof (induction sns)
  case (Cons sn' sns)
  show ?case
  proof (cases "sn' \<in> is_revoked_set st \<or> get_certificate sn' st = None")
    case True
    then have "first_valid now st (sn' # sns) = first_valid now st sns" by auto
    moreover have "sn \<noteq> sn'" using True Cons.prems by auto
    ultimately show ?thesis using Cons by simp
  next
    case False
    then obtain d where "get_certificate sn' st = Some d" by auto
    then show ?thesis using Cons False by (cases "sn = sn'") (auto simp: bindr_eq_Inr split: if_splits)
  qed
qed simp

section \<open>Properties\<close>

text \<open>C20: The text a certificate's signature covers determines, and is determined by, every field
  except the signature: the order in which the metadata was entered does not matter, every value does.\<close>
theorem certificate_signature_covers:
  assumes "cert_ok c" "cert_ok c'"
  shows "get_signed_data c = get_signed_data c' \<longleftrightarrow> same_signed_fields c c'"
  by (rule get_signed_data_iff [OF assms])

definition sample_identity :: identity where
  "sample_identity = \<lparr>id_peer_id = ''alice'', id_public_key = replicate 32 7, id_created_at = ''2024-01-01T00:00:00+00:00'',
     id_metadata = [(''role'', [97]), (''org'', [98])]\<rparr>"

definition sample_cert :: "(string \<times> ustr) list \<Rightarrow> string \<Rightarrow> certificate" where
  "sample_cert meta issuer = \<lparr>cert_identity = sample_identity\<lparr>id_metadata := meta\<rparr>, cert_issuer_id = issuer,
     cert_valid_from = isoformat 0, cert_valid_until = isoformat (seconds 100), cert_signature = ''00'', cert_serial_number = ''s1''\<rparr>"

lemma scalar_a_b: "scalar_text [97]" "scalar_text [98]"
  by (simp_all add: scalar_text_def scalar_def)

theorem certificate_signature_covers_witness:
  "get_signed_data (sample_cert [(''role'', [97]), (''org'', [98])] ''ca'') = get_signed_data (sample_cert [(''org'', [98]), (''role'', [97])] ''ca'') \<and>
   get_signed_data (sample_cert [] ''ca'') \<noteq> get_signed_data (sample_cert [] ''self'')"
  using certificate_signature_covers [of "sample_cert [(''role'', [97]), (''org'', [98])] ''ca''" "sample_cert [(''org'', [98]), (''role'', [97])] ''ca''"]
    certificate_signature_covers [of "sample_cert [] ''ca''" "sample_cert [] ''self''"] scalar_a_b
  by (simp add: cert_ok_def sample_cert_def same_signed_fields_def fun_upd_twist)

text \<open>C21: A certificate an authority issues survives transport as JSON, and the authority's first
  verification of it accepts exactly from the moment of issue until the end of its validity,
  both ends included.\<close>
theorem issued_certificate_verifies:
  assumes "sig_correct C" "id_public_key (ca_identity ca) = ed_verify_key C (ca_signing_key ca)"
    and "length (id_public_key (ca_identity ca)) = 32" "ca_peer_id ca \<noteq> ''self''" "dt_ok now"
    and "issue_certificate C now uuid i days ca = Inr c" "ca_validation_cache ca uuid = None" "cert_ok c"
  shows "Option.bind (loads (dumps (cert_to_dict c))) (\<lambda>d. case cert_from_dict d of Inr c \<Rightarrow> Some c | Inl e \<Rightarrow> None) = Some c \<and>
    snd (verify_certificate C t c ca) = Inr (now \<le> t \<and> t \<le> now + days * int us_day)"
proof -
  note d = issue_certificateD [OF assms(6)]
  have "issuer_key ca c = Inr (Some (ed_verify_key C (ca_signing_key ca)))"
    using assms by (simp add: issuer_key_def is_self_signed_def d get_verify_key_def)
  moreover have "is_valid_time t c = Inr (now \<le> t \<and> t \<le> now + days * int us_day)"
    by (rule is_valid_time_iso [OF assms(5) d(1,4,5)])
  ultimately show ?thesis
    using verify_uncached(1) [of ca c t] assms d cert_text_round_trip by simp
qed

definition sample_ca :: certificate_authority where
  "sample_ca = ca_init sample_identity (replicate 32 7)"

theorem issued_certificate_verifies_witness:
  "\<exists>c. issue_certificate toy_crypto 0 ''s1'' sample_identity 1 sample_ca = Inr c \<and>
     snd (verify_certificate toy_crypto (seconds 86400) c sample_ca) = Inr True \<and>
     snd (verify_certificate toy_crypto (seconds 86401) c sample_ca) = Inr False"
proof -
  have dt: "dt_ok 0" "dt_ok (1 * int us_day)" by (simp_all add: dt_ok_def dt_min_def dt_max_def us_day_def)
  obtain c where c: "issue_certificate toy_crypto 0 ''s1'' sample_identity 1 sample_ca = Inr c"
    using dt(2) by (simp add: issue_certificate_def plus_days_def Let_def)
  have "cert_ok c" using issue_certificateD(2) [OF c] scalar_a_b by (simp add: cert_ok_def sample_identity_def)
  then have "snd (verify_certificate toy_crypto t c sample_ca) = Inr (0 \<le> t \<and> t \<le> 0 + 1 * int us_day)" for t
    using issued_certificate_verifies [OF toy_crypto_laws(1) _ _ _ dt(1) c, of t]
    by (simp add: sample_ca_def ca_init_def sample_identity_def ca_peer_id_def toy_crypto_def)
  then show ?thesis using c by (simp add: seconds_def us_day_def)
qed

text \<open>C22: The cache of verdicts is keyed by the serial number alone: once a certificate was accepted,
  any certificate that carries its serial number and is within its own dates is accepted for the
  next minute, whoever it names and whatever its signature.\<close>
theorem cached_verdict_transfers:
  assumes "ca_validation_cache ca (cert_serial_number c) = None" "verify_certificate C t0 c ca = (ca', Inr True)"
    and "cert_serial_number forged = cert_serial_number c" "is_valid_time t forged = Inr True"
    and "t - t0 < ca_cache_ttl ca"
  shows "snd (verify_certificate C t forged ca') = Inr True"
  using verify_caches [OF assms(1,2)] verify_cached [of ca' forged True t0 t C] assms(3-5) by simp

theorem cached_verdict_transfers_witness:
  "\<exists>c ca'. issue_certificate toy_crypto 0 ''s1'' sample_identity 1 sample_ca = Inr c \<and>
     verify_certificate toy_crypto 0 c sample_ca = (ca', Inr True) \<and>
     snd (verify_certificate toy_crypto (seconds 59) (sample_cert [] ''mallory'') ca') = Inr True \<and>
     snd (verify_certificate toy_crypto (seconds 59) (sample_cert [] ''mallory'') sample_ca) = Inr False"
proof -
  have dt: "dt_ok 0" "dt_ok (0 + 1 * int us_day)" "dt_ok (seconds 100)"
    by (simp_all add: dt_ok_def dt_min_def dt_max_def us_day_def seconds_def)
  obtain c where c: "issue_certificate toy_crypto 0 ''s1'' sample_identity 1 sample_ca = Inr c"
    using dt(2) by (simp add: issue_certificate_def plus_days_def Let_def)
  note d = issue_certificateD [OF c]
  have n: "ca_validation_cache sample_ca ''s1'' = None" "ca_cache_ttl sample_ca = seconds 60"
    by (simp_all add: sample_ca_def ca_init_def)
  have v: "is_valid_time 0 c = Inr True" using is_valid_time_iso [OF dt(1,2) d(4,5), of 0] by (simp add: us_day_def)
  have "issuer_key sample_ca c = Inr (Some (replicate 32 7))"
    by (simp add: issuer_key_def is_self_signed_def d get_verify_key_def sample_ca_def ca_init_def ca_peer_id_def sample_identity_def)
  moreover have "check_signature toy_crypto (replicate 32 7) c"
    using d(7) by (simp add: sample_ca_def ca_init_def) (simp add: toy_crypto_def)
  ultimately have "snd (verify_certificate toy_crypto 0 c sample_ca) = Inr True"
    using verify_uncached(1) [OF _ v] n(1) d(6) by simp
  then obtain ca' where ca': "verify_certificate toy_crypto 0 c sample_ca = (ca', Inr True)" by (metis prod.collapse)
  have f: "is_valid_time (seconds 59) (sample_cert [] ''mallory'') = Inr True"
    using is_valid_time_iso [OF dt(1,3), of "sample_cert [] ''mallory''" "seconds 59"] by (simp add: sample_cert_def seconds_def)
  have "snd (verify_certificate toy_crypto (seconds 59) (sample_cert [] ''mallory'') ca') = Inr True"
    by (rule cached_verdict_transfers [OF _ ca' _ f]) (simp_all add: n d(6) sample_cert_def, simp add: seconds_def)
  moreover have "issuer_key sample_ca (sample_cert [] ''mallory'') = Inr None"
    by (simp add: issuer_key_def is_self_signed_def sample_cert_def sample_ca_def ca_init_def ca_peer_id_def sample_identity_def)
  then have "snd (verify_certificate toy_crypto (seconds 59) (sample_cert [] ''mallory'') sample_ca) = Inr False"
    using f n(1) by (simp add: verify_certificate_def get_cached_validation_def Let_def sample_cert_def)
  ultimately show ?thesis using c ca' by blast
qed

text \<open>After any sequence of additions and revocations in which no serial number is used for two
  peers, the certificate the store returns for a peer is one of the peer's own, stored, not
  revoked and within its dates; and it returns none only if every unrevoked certificate of the
  peer is outside its dates, whatever order the set of serial numbers is walked in.\<close>
lemma store_returns_valid_certificates:
  assumes "\<forall>xs. set (order xs) = set xs" "serials_of_one_peer ops"
    and "st = fold store_op_step ops identity_store_init"
  shows "(get_valid_certificate order now pid st = Inr (Some c) \<longrightarrow>
      cert_peer c = pid \<and> AddCertificate c \<in> set ops \<and> \<not> is_revoked (cert_serial_number c) st \<and> is_valid_time now c = Inr True) \<and>
    (get_valid_certificate order now pid st = Inr None \<longrightarrow>
      (\<forall>c. get_certificate (cert_serial_number c) st = Some c \<longrightarrow> cert_peer c = pid \<longrightarrow>
        \<not> is_revoked (cert_serial_number c) st \<longrightarrow> is_valid_time now c = Inr False))"
proof -
  have inv: "is_inv ops st" using is_inv_reachable [OF assms(2)] assms(3) by simp
  show ?thesis
  proof (intro conjI impI allI)
    assume "get_valid_certificate order now pid st = Inr (Some c)"
    then obtain sn where sn: "sn \<in> set (peer_serials pid st)" "sn \<notin> is_revoked_set st" "get_certificate sn st = Some c"
      "is_valid_time now c = Inr True"
      using first_valid_Some assms(1) unfolding get_valid_certificate_def by metis
    then show "cert_peer c = pid" "AddCertificate c \<in> set ops" "\<not> is_revoked (cert_serial_number c) st" "is_valid_time now c = Inr True"
      using inv unfolding is_inv_def is_revoked_def by fastforce+
  next
    fix d assume *: "get_valid_certificate order now pid st = Inr None" "get_certificate (cert_serial_number d) st = Some d"
      "cert_peer d = pid" "\<not> is_revoked (cert_serial_number d) st"
    then have "cert_serial_number d \<in> set (order (peer_serials pid st))" using inv assms(1) unfolding is_inv_def by blast
    then show "is_valid_time now d = Inr False"
      using * first_valid_None unfolding get_valid_certificate_def is_revoked_def by blast
  qed
qed

end
