(* ===== verification/Protocol.thy ===== *)
theory Protocol
  imports Crypto Wire
begin

text \<open>
  \<open>coc_framework/network/protocol.py\<close>: the messages of the ZeroMQ network, one record per message
  class with the base class as its parent, their dictionaries and bytes, the signed envelope and
  the addresses of the sockets.

  A constructor call \<open>cls(**data)\<close> takes whatever values the parsed JSON has, so the fields are
  JSON values; an enumeration field is a member or, when the JSON value was not a string, that
  value. The clock and the random nonce are arguments; \<open>printable\<close> is the table behind \<open>repr\<close>.
\<close>

section \<open>Message types\<close>

definition MESSAGE_MAX_AGE_SECONDS :: int where "MESSAGE_MAX_AGE_SECONDS = 300"
definition MESSAGE_MAX_FUTURE_SECONDS :: int where "MESSAGE_MAX_FUTURE_SECONDS = 60"

datatype message_type =
    SHARE | COC_NODE | CONTENT | DELETION_TOKEN | DELETION_ACK | PEER_STATUS | PEER_DISCOVERY
  | HEARTBEAT | REQUEST_SHARE | REQUEST_CONTENT | RECONSTRUCT_REQUEST | RESPONSE | ERROR
  | KEY_EXCHANGE | KEY_EXCHANGE_ACK

fun message_type_value :: "message_type \<Rightarrow> string" where
  "message_type_value SHARE = ''share''"
| "message_type_value COC_NODE = ''coc_node''"
| "message_type_value CONTENT = ''content''"
| "message_type_value DELETION_TOKEN = ''deletion_token''"
| "message_type_value DELETION_ACK = ''deletion_ack''"
| "message_type_value PEER_STATUS = ''peer_status''"
| "message_type_value PEER_DISCOVERY = ''peer_discovery''"
| "message_type_value HEARTBEAT = ''heartbeat''"
| "message_type_value REQUEST_SHARE = ''request_share''"
| "message_type_value REQUEST_CONTENT = ''request_content''"
| "message_type_value RECONSTRUCT_REQUEST = ''reconstruct''"
| "message_type_value RESPONSE = ''response''"
| "message_type_value ERROR = ''error''"
| "message_type_value KEY_EXCHANGE = ''key_exchange''"
| "message_type_value KEY_EXCHANGE_ACK = ''key_exchange_ack''"

definition message_types :: "message_type list" where
  "message_types = [SHARE, COC_NODE, CONTENT, DELETION_TOKEN, DELETION_ACK, PEER_STATUS, PEER_DISCOVERY,
     HEARTBEAT, REQUEST_SHARE, REQUEST_CONTENT, RECONSTRUCT_REQUEST, RESPONSE, ERROR, KEY_EXCHANGE, KEY_EXCHANGE_ACK]"

definition MESSAGE_TYPE_MAP :: "(ustr \<times> message_type) list" where
  "MESSAGE_TYPE_MAP = map (\<lambda>mt. (ustr_of (message_type_value mt), mt)) message_types"

datatype peer_status = ONLINE | OFFLINE | UNKNOWN

fun peer_status_value :: "peer_status \<Rightarrow> string" where
  "peer_status_value ONLINE = ''online''"
| "peer_status_value OFFLINE = ''offline''"
| "peer_status_value UNKNOWN = ''unknown''"

definition PEER_STATUS_MAP :: "(ustr \<times> peer_status) list" where
  "PEER_STATUS_MAP = map (\<lambda>ps. (ustr_of (peer_status_value ps), ps)) [ONLINE, OFFLINE, UNKNOWN]"

datatype 'e enum_field = Member 'e | Raw json

text \<open>\<open>field.value\<close>\<close>

definition enum_value :: "('e \<Rightarrow> string) \<Rightarrow> 'e enum_field \<Rightarrow> json result" where
  "enum_value val f = (case f of Member e \<Rightarrow> Inr (jstr (val e)) | Raw j \<Rightarrow> Inl AttributeError)"

text \<open>A string is looked up in the table, any other value stays.\<close>

definition read_enum :: "(ustr \<times> 'e) list \<Rightarrow> json \<Rightarrow> 'e enum_field result" where
  "read_enum tab j =
     (case j of
        JStr u \<Rightarrow> (case map_of tab u of None \<Rightarrow> Inl KeyError | Some e \<Rightarrow> Inr (Member e))
      | _ \<Rightarrow> Inr (Raw j))"

section \<open>NetworkMessage\<close>

record network_message =
  nm_sender_id :: json
  nm_msg_type :: "message_type enum_field"
  nm_timestamp :: json
  nm_msg_id :: json
  nm_signature :: json

definition nm_post_init :: "(nat \<Rightarrow> bool) \<Rightarrow> 'a network_message_scheme \<Rightarrow> 'a network_message_scheme result" where
  "nm_post_init printable m =
     (if truthy (nm_msg_id m) then Inr m
      else (case nm_msg_type m of
              Raw j \<Rightarrow> Inl AttributeError
            | Member t \<Rightarrow>
                let content = py_str printable (nm_sender_id m) @ ustr_of '':'' @
                      py_str printable (nm_timestamp m) @ ustr_of '':'' @ ustr_of (message_type_value t)
                in Inr (m\<lparr>nm_msg_id := jstr (take 16 (sha256 (utf8 content)))\<rparr>)))"

definition nm_to_dict :: "'a network_message_scheme \<Rightarrow> (string \<times> json) list result" where
  "nm_to_dict m = bindr (enum_value message_type_value (nm_msg_type m)) (\<lambda>t. Inr [
     (''sender_id'', nm_sender_id m),
     (''msg_type'', t),
     (''timestamp'', nm_timestamp m),
     (''msg_id'', nm_msg_id m),
     (''signature'', nm_signature m)])"

text \<open>The first lines of every \<open>from_dict\<close>: \<open>None\<close> when there is no \<open>msg_type\<close>.\<close>

definition read_msg_type :: "(string \<times> json) list \<Rightarrow> message_type enum_field option result" where
  "read_msg_type data =
     (case map_of data ''msg_type'' of
        None \<Rightarrow> Inr None
      | Some j \<Rightarrow> bindr (read_enum MESSAGE_TYPE_MAP j) (\<lambda>t. Inr (Some t)))"

text \<open>
  The call \<open>cls(**data)\<close>: an argument the class does not have, or a missing \<open>sender_id\<close>, is a
  \<open>TypeError\<close>; a missing argument takes its default.
\<close>

definition check_kwargs :: "string list \<Rightarrow> (string \<times> json) list \<Rightarrow> unit result" where
  "check_kwargs names data =
     (if fst ` set data \<subseteq> set ([''sender_id'', ''msg_type'', ''timestamp'', ''msg_id'', ''signature''] @ names) \<and>
         ''sender_id'' \<in> fst ` set data
      then Inr () else Inl TypeError)"

definition kw :: "(string \<times> json) list \<Rightarrow> string \<Rightarrow> json \<Rightarrow> json" where
  "kw data k v = (case map_of data k of None \<Rightarrow> v | Some j \<Rightarrow> j)"

definition base_args :: "datetime \<Rightarrow> message_type enum_field option \<Rightarrow> (string \<times> json) list \<Rightarrow> network_message" where
  "base_args now t data = \<lparr>
     nm_sender_id = kw data ''sender_id'' JNull,
     nm_msg_type = (case t of None \<Rightarrow> Member HEARTBEAT | Some t \<Rightarrow> t),
     nm_timestamp = kw data ''timestamp'' (JReal now),
     nm_msg_id = kw data ''msg_id'' (JStr []),
     nm_signature = kw data ''signature'' (JStr [])\<rparr>"

definition nm_from_dict :: "(nat \<Rightarrow> bool) \<Rightarrow> datetime \<Rightarrow> (string \<times> json) list \<Rightarrow> network_message result" where
  "nm_from_dict printable now data =
     bindr (read_msg_type data) (\<lambda>t.
     bindr (check_kwargs [] data) (\<lambda>_.
       nm_post_init printable (base_args now t data)))"

section \<open>The message classes\<close>

subsection \<open>ShareMessage\<close>

record share_message = network_message +
  sm_share_index :: json
  sm_share_data :: json
  sm_content_hash :: json
  sm_threshold :: json
  sm_total_shares :: json
  sm_metadata :: json

definition share_post_init ::
  "(nat \<Rightarrow> bool) \<Rightarrow> share_message \<Rightarrow> share_message result" where
  "share_post_init printable m = nm_post_init printable (m\<lparr>nm_msg_type := Member SHARE\<rparr>)"

definition share_msg_to_dict :: "share_message \<Rightarrow> (string \<times> json) list result" where
  "share_msg_to_dict m = bindr (nm_to_dict m) (\<lambda>data. Inr (data @ [
     (''share_index'', sm_share_index m),
     (''share_data'', sm_share_data m),
     (''content_hash'', sm_content_hash m),
     (''threshold'', sm_threshold m),
     (''total_shares'', sm_total_shares m),
     (''metadata'', sm_metadata m)]))"

definition share_msg_from_dict ::
  "(nat \<Rightarrow> bool) \<Rightarrow> datetime \<Rightarrow> (string \<times> json) list \<Rightarrow> share_message result" where
  "share_msg_from_dict printable now data =
     bindr (read_msg_type data) (\<lambda>t.
     bindr (check_kwargs [''share_index'', ''share_data'', ''content_hash'', ''threshold'', ''total_shares'', ''metadata''] data) (\<lambda>_.
       share_post_init printable (network_message.extend (base_args now t data)
         (share_message.fields
            (kw data ''share_index'' (JInt 0))
            (kw data ''share_data'' (JStr []))
            (kw data ''content_hash'' (JStr []))
            (kw data ''threshold'' (JInt 0))
            (kw data ''total_shares'' (JInt 0))
            (kw data ''metadata'' (JStr []))))))"

subsection \<open>DeletionTokenMessage\<close>

record deletion_token_message = network_message +
  dm_node_hash :: json
  dm_originator_id :: json
  dm_token_signature :: json
  dm_cascade :: json
  dm_reason :: json

definition deletion_token_post_init ::
  "(nat \<Rightarrow> bool) \<Rightarrow> deletion_token_message \<Rightarrow> deletion_token_message result" where
  "deletion_token_post_init printable m = nm_post_init printable (m\<lparr>nm_msg_type := Member DELETION_TOKEN\<rparr>)"

definition deletion_token_to_dict :: "deletion_token_message \<Rightarrow> (string \<times> json) list result" where
  "deletion_token_to_dict m = bindr (nm_to_dict m) (\<lambda>data. Inr (data @ [
     (''node_hash'', dm_node_hash m),
     (''originator_id'', dm_originator_id m),
     (''token_signature'', dm_token_signature m),
     (''cascade'', dm_cascade m),
     (''reason'', dm_reason m)]))"

definition deletion_token_from_dict ::
  "(nat \<Rightarrow> bool) \<Rightarrow> datetime \<Rightarrow> (string \<times> json) list \<Rightarrow> deletion_token_message result" where
  "deletion_token_from_dict printable now data =
     bindr (read_msg_type data) (\<lambda>t.
     bindr (check_kwargs [''node_hash'', ''originator_id'', ''token_signature'', ''cascade'', ''reason''] data) (\<lambda>_.
       deletion_token_post_init printable (network_message.extend (base_args now t data)
         (deletion_token_message.fields
            (kw data ''node_hash'' (JStr []))
            (kw data ''originator_id'' (JStr []))
            (kw data ''token_signature'' (JStr []))
            (kw data ''cascade'' (JBool True))
            (kw data ''reason'' (JStr []))))))"

subsection \<open>CoCNodeMessage\<close>

record coc_node_message = network_message +
  cm_node_data :: json
  cm_parent_hash :: json
  cm_content_hash :: json
  cm_watermark_key :: json

definition coc_node_post_init ::
  "(nat \<Rightarrow> bool) \<Rightarrow> coc_node_message \<Rightarrow> coc_node_message result" where
  "coc_node_post_init printable m = nm_post_init printable (m\<lparr>nm_msg_type := Member COC_NODE\<rparr>)"

definition coc_node_to_dict :: "coc_node_message \<Rightarrow> (string \<times> json) list result" where
  "coc_node_to_dict m = bindr (nm_to_dict m) (\<lambda>data. Inr (data @ [
     (''node_data'', cm_node_data m),
     (''parent_hash'', cm_parent_hash m),
     (''content_hash'', cm_content_hash m),
     (''watermark_key'', cm_watermark_key m)]))"

definition coc_node_from_dict ::
  "(nat \<Rightarrow> bool) \<Rightarrow> datetime \<Rightarrow> (string \<times> json) list \<Rightarrow> coc_node_message result" where
  "coc_node_from_dict printable now data =
     bindr (read_msg_type data) (\<lambda>t.
     bindr (check_kwargs [''node_data'', ''parent_hash'', ''content_hash'', ''watermark_key''] data) (\<lambda>_.
       coc_node_post_init printable (network_message.extend (base_args now t data)
         (coc_node_message.fields
            (kw data ''node_data'' (JObj []))
            (kw data ''parent_hash'' (JStr []))
            (kw data ''content_hash'' (JStr []))
            (kw data ''watermark_key'' (JStr []))))))"

subsection \<open>PeerStatusMessage\<close>

record peer_status_message = network_message +
  pm_peer_id :: json
  pm_status :: "peer_status enum_field"
  pm_address :: json
  pm_capabilities :: json

definition peer_status_post_init ::
  "(nat \<Rightarrow> bool) \<Rightarrow> peer_status_message \<Rightarrow> peer_status_message result" where
  "peer_status_post_init printable m = nm_post_init printable (m\<lparr>nm_msg_type := Member PEER_STATUS\<rparr>)"

definition peer_status_to_dict :: "peer_status_message \<Rightarrow> (string \<times> json) list result" where
  "peer_status_to_dict m =
     bindr (nm_to_dict m) (\<lambda>data.
     bindr (enum_value peer_status_value (pm_status m)) (\<lambda>s. Inr (data @ [
       (''peer_id'', pm_peer_id m),
       (''status'', s),
       (''address'', pm_address m),
       (''capabilities'', pm_capabilities m)])))"

definition peer_status_from_dict ::
  "(nat \<Rightarrow> bool) \<Rightarrow> datetime \<Rightarrow> (string \<times> json) list \<Rightarrow> peer_status_message result" where
  "peer_status_from_dict printable now data =
     bindr (read_msg_type data) (\<lambda>t.
     bindr (case map_of data ''status'' of
              None \<Rightarrow> Inr (Member UNKNOWN)
            | Some j \<Rightarrow> read_enum PEER_STATUS_MAP j) (\<lambda>s.
     bindr (check_kwargs [''peer_id'', ''status'', ''address'', ''capabilities''] data) (\<lambda>_.
       peer_status_post_init printable (network_message.extend (base_args now t data)
         (peer_status_message.fields
            (kw data ''peer_id'' (JStr []))
            s
            (kw data ''address'' (JStr []))
            (kw data ''capabilities'' (JList [])))))))"

subsection \<open>ContentMessage\<close>

record content_message = network_message +
  em_content_hash :: json
  em_encrypted_content :: json
  em_timelock_expiry :: json
  em_encryption_metadata :: json

definition content_post_init ::
  "(nat \<Rightarrow> bool) \<Rightarrow> content_message \<Rightarrow> content_message result" where
  "content_post_init printable m = nm_post_init printable (m\<lparr>nm_msg_type := Member CONTENT\<rparr>)"

definition content_to_dict :: "content_message \<Rightarrow> (string \<times> json) list result" where
  "content_to_dict m = bindr (nm_to_dict m) (\<lambda>data. Inr (data @ [
     (''content_hash'', em_content_hash m),
     (''encrypted_content'', em_encrypted_content m),
     (''timelock_expiry'', em_timelock_expiry m),
     (''encryption_metadata'', em_encryption_metadata m)]))"

definition content_from_dict ::
  "(nat \<Rightarrow> bool) \<Rightarrow> datetime \<Rightarrow> (string \<times> json) list \<Rightarrow> content_message result" where
  "content_from_dict printable now data =
     bindr (read_msg_type data) (\<lambda>t.
     bindr (check_kwargs [''content_hash'', ''encrypted_content'', ''timelock_expiry'', ''encryption_metadata''] data) (\<lambda>_.
       content_post_init printable (network_message.extend (base_args now t data)
         (content_message.fields
            (kw data ''content_hash'' (JStr []))
            (kw data ''encrypted_content'' (JStr []))
            (kw data ''timelock_expiry'' (JInt 0))
            (kw data ''encryption_metadata'' (JObj []))))))"

subsection \<open>RequestMessage\<close>

record request_message = network_message +
  qm_request_type :: json
  qm_content_hash :: json
  qm_additional_params :: json

definition request_post_init ::
  "(nat \<Rightarrow> bool) \<Rightarrow> request_message \<Rightarrow> request_message result" where
  "request_post_init printable m = nm_post_init printable (m\<lparr>nm_msg_type := Member REQUEST_SHARE\<rparr>)"

definition request_to_dict :: "request_message \<Rightarrow> (string \<times> json) list result" where
  "request_to_dict m = bindr (nm_to_dict m) (\<lambda>data. Inr (data @ [
     (''request_type'', qm_request_type m),
     (''content_hash'', qm_content_hash m),
     (''additional_params'', qm_additional_params m)]))"

definition request_from_dict ::
  "(nat \<Rightarrow> bool) \<Rightarrow> datetime \<Rightarrow> (string \<times> json) list \<Rightarrow> request_message result" where
  "request_from_dict printable now data =
     bindr (read_msg_type data) (\<lambda>t.
     bindr (check_kwargs [''request_type'', ''content_hash'', ''additional_params''] data) (\<lambda>_.
       request_post_init printable (network_message.extend (base_args now t data)
         (request_message.fields
            (kw data ''request_type'' (JStr []))
            (kw data ''content_hash'' (JStr []))
            (kw data ''additional_params'' (JObj []))))))"

subsection \<open>ResponseMessage\<close>

record response_message = network_message +
  rm_request_id :: json
  rm_success :: json
  rm_data :: json
  rm_error_message :: json

definition response_post_init ::
  "(nat \<Rightarrow> bool) \<Rightarrow> response_message \<Rightarrow> response_message result" where
  "response_post_init printable m = nm_post_init printable (m\<lparr>nm_msg_type := Member RESPONSE\<rparr>)"

definition response_to_dict :: "response_message \<Rightarrow> (string \<times> json) list result" where
  "response_to_dict m = bindr (nm_to_dict m) (\<lambda>data. Inr (data @ [
     (''request_id'', rm_request_id m),
     (''success'', rm_success m),
     (''data'', rm_data m),
     (''error_message'', rm_error_message m)]))"

definition response_from_dict ::
  "(nat \<Rightarrow> bool) \<Rightarrow> datetime \<Rightarrow> (string \<times> json) list \<Rightarrow> response_message result" where
  "response_from_dict printable now data =
     bindr (read_msg_type data) (\<lambda>t.
     bindr (check_kwargs [''request_id'', ''success'', ''data'', ''error_message''] data) (\<lambda>_.
       response_post_init printable (network_message.extend (base_args now t data)
         (response_message.fields
            (kw data ''request_id'' (JStr []))
            (kw data ''success'' (JBool True))
            (kw data ''data'' (JObj []))
            (kw data ''error_message'' (JStr []))))))"

subsection \<open>HeartbeatMessage\<close>

record heartbeat_message = network_message +
  hm_sequence :: json
  hm_load :: json

definition heartbeat_post_init ::
  "(nat \<Rightarrow> bool) \<Rightarrow> heartbeat_message \<Rightarrow> heartbeat_message result" where
  "heartbeat_post_init printable m = nm_post_init printable (m\<lparr>nm_msg_type := Member HEARTBEAT\<rparr>)"

definition heartbeat_to_dict :: "heartbeat_message \<Rightarrow> (string \<times> json) list result" where
  "heartbeat_to_dict m = bindr (nm_to_dict m) (\<lambda>data. Inr (data @ [
     (''sequence'', hm_sequence m),
     (''load'', hm_load m)]))"

definition heartbeat_from_dict ::
  "(nat \<Rightarrow> bool) \<Rightarrow> datetime \<Rightarrow> (string \<times> json) list \<Rightarrow> heartbeat_message result" where
  "heartbeat_from_dict printable now data =
     bindr (read_msg_type data) (\<lambda>t.
     bindr (check_kwargs [''sequence'', ''load''] data) (\<lambda>_.
       heartbeat_post_init printable (network_message.extend (base_args now t data)
         (heartbeat_message.fields
            (kw data ''sequence'' (JInt 0))
            (kw data ''load'' (JInt 0))))))"

subsection \<open>KeyExchangeMessage\<close>

record key_exchange_message = network_message +
  km_public_key :: json
  km_peer_address :: json
  km_nonce :: json

definition key_exchange_post_init ::
  "(nat \<Rightarrow> bool) \<Rightarrow> string \<Rightarrow> key_exchange_message \<Rightarrow> key_exchange_message result" where
  "key_exchange_post_init printable rnd m = nm_post_init printable ((if truthy (km_nonce m) then m else m\<lparr>km_nonce := jstr rnd\<rparr>)\<lparr>nm_msg_type := Member KEY_EXCHANGE\<rparr>)"

definition key_exchange_to_dict :: "key_exchange_message \<Rightarrow> (string \<times> json) list result" where
  "key_exchange_to_dict m = bindr (nm_to_dict m) (\<lambda>data. Inr (data @ [
     (''public_key'', km_public_key m),
     (''peer_address'', km_peer_address m),
     (''nonce'', km_nonce m)]))"

definition key_exchange_from_dict ::
  "(nat \<Rightarrow> bool) \<Rightarrow> datetime \<Rightarrow> string \<Rightarrow> (string \<times> json) list \<Rightarrow> key_exchange_message result" where
  "key_exchange_from_dict printable now rnd data =
     bindr (read_msg_type data) (\<lambda>t.
     bindr (check_kwargs [''public_key'', ''peer_address'', ''nonce''] data) (\<lambda>_.
       key_exchange_post_init printable rnd (network_message.extend (base_args now t data)
         (key_exchange_message.fields
            (kw data ''public_key'' (JStr []))
            (kw data ''peer_address'' (JStr []))
            (kw data ''nonce'' (JStr []))))))"

subsection \<open>KeyExchangeAckMessage\<close>

record key_exchange_ack_message = network_message +
  am_public_key :: json
  am_peer_address :: json
  am_original_nonce :: json
  am_response_nonce :: json

definition key_exchange_ack_post_init ::
  "(nat \<Rightarrow> bool) \<Rightarrow> string \<Rightarrow> key_exchange_ack_message \<Rightarrow> key_exchange_ack_message result" where
  "key_exchange_ack_post_init printable rnd m = nm_post_init printable ((if truthy (am_response_nonce m) then m else m\<lparr>am_response_nonce := jstr rnd\<rparr>)\<lparr>nm_msg_type := Member KEY_EXCHANGE_ACK\<rparr>)"

definition key_exchange_ack_to_dict :: "key_exchange_ack_message \<Rightarrow> (string \<times> json) list result" where
  "key_exchange_ack_to_dict m = bindr (nm_to_dict m) (\<lambda>data. Inr (data @ [
     (''public_key'', am_public_key m),
     (''peer_address'', am_peer_address m),
     (''original_nonce'', am_original_nonce m),
     (''response_nonce'', am_response_nonce m)]))"

definition key_exchange_ack_from_dict ::
  "(nat \<Rightarrow> bool) \<Rightarrow> datetime \<Rightarrow> string \<Rightarrow> (string \<times> json) list \<Rightarrow> key_exchange_ack_message result" where
  "key_exchange_ack_from_dict printable now rnd data =
     bindr (read_msg_type data) (\<lambda>t.
     bindr (check_kwargs [''public_key'', ''peer_address'', ''original_nonce'', ''response_nonce''] data) (\<lambda>_.
       key_exchange_ack_post_init printable rnd (network_message.extend (base_args now t data)
         (key_exchange_ack_message.fields
            (kw data ''public_key'' (JStr []))
            (kw data ''peer_address'' (JStr []))
            (kw data ''original_nonce'' (JStr []))
            (kw data ''response_nonce'' (JStr []))))))"

section \<open>Any message\<close>

datatype wire_message =
    NetworkMessage network_message
  | ShareMessage share_message
  | DeletionTokenMessage deletion_token_message
  | CoCNodeMessage coc_node_message
  | PeerStatusMessage peer_status_message
  | ContentMessage content_message
  | RequestMessage request_message
  | ResponseMessage response_message
  | HeartbeatMessage heartbeat_message
  | KeyExchangeMessage key_exchange_message
  | KeyExchangeAckMessage key_exchange_ack_message

fun to_dict :: "wire_message \<Rightarrow> (string \<times> json) list result" where
  "to_dict (NetworkMessage m) = nm_to_dict m"
| "to_dict (ShareMessage m) = share_msg_to_dict m"
| "to_dict (DeletionTokenMessage m) = deletion_token_to_dict m"
| "to_dict (CoCNodeMessage m) = coc_node_to_dict m"
| "to_dict (PeerStatusMessage m) = peer_status_to_dict m"
| "to_dict (ContentMessage m) = content_to_dict m"
| "to_dict (RequestMessage m) = request_to_dict m"
| "to_dict (ResponseMessage m) = response_to_dict m"
| "to_dict (HeartbeatMessage m) = heartbeat_to_dict m"
| "to_dict (KeyExchangeMessage m) = key_exchange_to_dict m"
| "to_dict (KeyExchangeAckMessage m) = key_exchange_ack_to_dict m"

definition to_json :: "wire_message \<Rightarrow> string result" where
  "to_json m = bindr (to_dict m) (\<lambda>d. Inr (dumps (JObj d)))"

definition to_bytes :: "wire_message \<Rightarrow> bytes result" where
  "to_bytes m = bindr (to_json m) (\<lambda>s. Inr (encode s))"

abbreviation wrapr :: "('a \<Rightarrow> 'b) \<Rightarrow> 'a result \<Rightarrow> 'b result" where
  "wrapr f r \<equiv> bindr r (\<lambda>x. Inr (f x))"

text \<open>\<open>MESSAGE_CLASSES.get(msg_type, NetworkMessage)\<close> and the \<open>from_dict\<close> of the class found.\<close>

fun class_from_dict ::
  "message_type enum_field \<Rightarrow> (nat \<Rightarrow> bool) \<Rightarrow> datetime \<Rightarrow> string \<Rightarrow> (string \<times> json) list \<Rightarrow> wire_message result" where
  "class_from_dict (Member SHARE) pr now rnd data = wrapr ShareMessage (share_msg_from_dict pr now data)"
| "class_from_dict (Member COC_NODE) pr now rnd data = wrapr CoCNodeMessage (coc_node_from_dict pr now data)"
| "class_from_dict (Member DELETION_TOKEN) pr now rnd data = wrapr DeletionTokenMessage (deletion_token_from_dict pr now data)"
| "class_from_dict (Member PEER_STATUS) pr now rnd data = wrapr PeerStatusMessage (peer_status_from_dict pr now data)"
| "class_from_dict (Member CONTENT) pr now rnd data = wrapr ContentMessage (content_from_dict pr now data)"
| "class_from_dict (Member REQUEST_SHARE) pr now rnd data = wrapr RequestMessage (request_from_dict pr now data)"
| "class_from_dict (Member REQUEST_CONTENT) pr now rnd data = wrapr RequestMessage (request_from_dict pr now data)"
| "class_from_dict (Member RECONSTRUCT_REQUEST) pr now rnd data = wrapr RequestMessage (request_from_dict pr now data)"
| "class_from_dict (Member RESPONSE) pr now rnd data = wrapr ResponseMessage (response_from_dict pr now data)"
| "class_from_dict (Member ERROR) pr now rnd data = wrapr ResponseMessage (response_from_dict pr now data)"
| "class_from_dict (Member HEARTBEAT) pr now rnd data = wrapr HeartbeatMessage (heartbeat_from_dict pr now data)"
| "class_from_dict (Member KEY_EXCHANGE) pr now rnd data = wrapr KeyExchangeMessage (key_exchange_from_dict pr now rnd data)"
| "class_from_dict (Member KEY_EXCHANGE_ACK) pr now rnd data = wrapr KeyExchangeAckMessage (key_exchange_ack_from_dict pr now rnd data)"
| "class_from_dict _ pr now rnd data = wrapr NetworkMessage (nm_from_dict pr now data)"

text \<open>A list or dictionary cannot be a dictionary key.\<close>

definition hashable :: "json \<Rightarrow> bool" where
  "hashable j = (case j of JList _ \<Rightarrow> False | JObj _ \<Rightarrow> False | _ \<Rightarrow> True)"

definition deserialize_dict ::
  "(nat \<Rightarrow> bool) \<Rightarrow> datetime \<Rightarrow> string \<Rightarrow> json \<Rightarrow> wire_message result" where
  "deserialize_dict pr now rnd d =
     (case d of
        JObj data \<Rightarrow>
          (case map_of data ''msg_type'' of
             None \<Rightarrow> Inl KeyError
           | Some (JStr u) \<Rightarrow>
               class_from_dict (case map_of MESSAGE_TYPE_MAP u of None \<Rightarrow> Raw JNull | Some t \<Rightarrow> Member t) pr now rnd data
           | Some j \<Rightarrow> if hashable j then class_from_dict (Raw j) pr now rnd data else Inl TypeError)
      | _ \<Rightarrow> Inl TypeError)"

definition deserialize_message :: "(nat \<Rightarrow> bool) \<Rightarrow> datetime \<Rightarrow> string \<Rightarrow> bytes \<Rightarrow> wire_message result" where
  "deserialize_message pr now rnd bs = bindr (loads_bytes bs) (deserialize_dict pr now rnd)"

section \<open>SignedEnvelope\<close>

definition validate_message_timestamp :: "datetime \<Rightarrow> json \<Rightarrow> int \<Rightarrow> int \<Rightarrow> bool result" where
  "validate_message_timestamp now timestamp max_age max_future =
     bindr (as_number timestamp) (\<lambda>ts.
       let age = now - ts
       in Inr (if age > seconds max_age then False else if age < - seconds max_future then False else True))"

record signed_envelope =
  se_sender_id :: json
  se_timestamp :: json
  se_payload :: bytes
  se_signature :: json

definition se_signing_data :: "(nat \<Rightarrow> bool) \<Rightarrow> signed_envelope \<Rightarrow> ustr" where
  "se_signing_data pr e =
     py_str pr (se_sender_id e) @ ustr_of ''|'' @ py_str pr (se_timestamp e) @ ustr_of ''|'' @ ustr_of (sha256 (se_payload e))"

definition se_sign :: "crypto \<Rightarrow> (nat \<Rightarrow> bool) \<Rightarrow> signing_key \<Rightarrow> signed_envelope \<Rightarrow> signed_envelope" where
  "se_sign C pr sk e = e\<lparr>se_signature := jstr (bytes_hex (ed_sign C sk (utf8 (se_signing_data pr e))))\<rparr>"

text \<open>Whatever \<open>bytes.fromhex\<close> or the verification raises is \<open>False\<close>.\<close>

definition se_verify :: "crypto \<Rightarrow> (nat \<Rightarrow> bool) \<Rightarrow> verify_key \<Rightarrow> signed_envelope \<Rightarrow> bool" where
  "se_verify C pr vk e =
     (if \<not> truthy (se_signature e) then False
      else (case bindr (as_str (se_signature e)) (\<lambda>h. case fromhex h of None \<Rightarrow> Inl ValueError | Some s \<Rightarrow> Inr s) of
              Inl _ \<Rightarrow> False
            | Inr s \<Rightarrow> ed_verify C vk (utf8 (se_signing_data pr e)) s))"

definition se_validate_timestamp :: "datetime \<Rightarrow> signed_envelope \<Rightarrow> bool result" where
  "se_validate_timestamp now e =
     validate_message_timestamp now (se_timestamp e) MESSAGE_MAX_AGE_SECONDS MESSAGE_MAX_FUTURE_SECONDS"

definition se_unwrap :: "(nat \<Rightarrow> bool) \<Rightarrow> datetime \<Rightarrow> string \<Rightarrow> signed_envelope \<Rightarrow> wire_message result" where
  "se_unwrap pr now rnd e = deserialize_message pr now rnd (se_payload e)"

definition se_to_dict :: "signed_envelope \<Rightarrow> json" where
  "se_to_dict e = JObj [
     (''sender_id'', se_sender_id e),
     (''timestamp'', se_timestamp e),
     (''payload'', jstr (b64encode (se_payload e))),
     (''signature'', se_signature e)]"

definition se_to_bytes :: "signed_envelope \<Rightarrow> bytes" where
  "se_to_bytes e = encode (dumps (se_to_dict e))"

text \<open>\<open>data[k]\<close>: a \<open>TypeError\<close> on anything but a dictionary.\<close>

definition item :: "json \<Rightarrow> string \<Rightarrow> json result" where
  "item d k = (case d of JObj ms \<Rightarrow> jreq d k | _ \<Rightarrow> Inl TypeError)"

definition se_from_dict :: "json \<Rightarrow> signed_envelope result" where
  "se_from_dict d =
     bindr (item d ''sender_id'') (\<lambda>sender.
     bindr (item d ''timestamp'') (\<lambda>ts.
     bindr (item d ''payload'') (\<lambda>p.
     bindr (case p of JStr u \<Rightarrow> b64decode u | _ \<Rightarrow> Inl TypeError) (\<lambda>payload.
     bindr (item d ''signature'') (\<lambda>sig.
       Inr \<lparr>se_sender_id = sender, se_timestamp = ts, se_payload = payload, se_signature = sig\<rparr>)))))"

definition se_from_bytes :: "bytes \<Rightarrow> signed_envelope result" where
  "se_from_bytes bs = bindr (loads_bytes bs) se_from_dict"

definition wrap ::
  "crypto \<Rightarrow> (nat \<Rightarrow> bool) \<Rightarrow> datetime \<Rightarrow> wire_message \<Rightarrow> ustr \<Rightarrow> signing_key \<Rightarrow> signed_envelope result" where
  "wrap C pr now m sender sk =
     bindr (to_bytes m) (\<lambda>p.
       Inr (se_sign C pr sk \<lparr>se_sender_id = JStr sender, se_timestamp = JReal now, se_payload = p, se_signature = JStr []\<rparr>))"

text \<open>\<open>get_verify_key\<close> is the caller's lookup of a sender's key.\<close>

definition unwrap_and_verify ::
  "crypto \<Rightarrow> (nat \<Rightarrow> bool) \<Rightarrow> datetime \<Rightarrow> string \<Rightarrow> bytes \<Rightarrow> (json \<Rightarrow> verify_key option) \<Rightarrow> bool
   \<Rightarrow> (wire_message \<times> json) result" where
  "unwrap_and_verify C pr now rnd bs get_key validate_time =
     bindr (se_from_bytes bs) (\<lambda>e.
       case get_key (se_sender_id e) of
         None \<Rightarrow> Inl SignatureVerificationError
       | Some vk \<Rightarrow>
           if \<not> se_verify C pr vk e then Inl SignatureVerificationError
           else bindr (if validate_time then se_validate_timestamp now e else Inr True) (\<lambda>valid.
             if \<not> valid then Inl MessageTimestampError
             else bindr (se_unwrap pr now rnd e) (\<lambda>m. Inr (m, se_sender_id e))))"

section \<open>SocketConfig\<close>

definition PUB_PORT_START :: int where "PUB_PORT_START = 5550"
definition REP_PORT_START :: int where "REP_PORT_START = 5600"
definition COORDINATOR_PORT :: int where "COORDINATOR_PORT = 5500"

definition get_pub_address :: "int \<Rightarrow> string \<Rightarrow> string" where
  "get_pub_address peer_index host = ''tcp://'' @ host @ '':'' @ str_int (PUB_PORT_START + peer_index)"

definition get_rep_address :: "int \<Rightarrow> string \<Rightarrow> string" where
  "get_rep_address peer_index host = ''tcp://'' @ host @ '':'' @ str_int (REP_PORT_START + peer_index)"

definition get_coordinator_address :: "string \<Rightarrow> string" where
  "get_coordinator_address host = ''tcp://'' @ host @ '':'' @ str_int COORDINATOR_PORT"

section \<open>Round trips\<close>

lemma type_map_value: "map_of MESSAGE_TYPE_MAP (ustr_of (message_type_value t)) = Some t"
  by (cases t) (simp_all add: MESSAGE_TYPE_MAP_def message_types_def ustr_of_eq)

lemma status_map_value: "map_of PEER_STATUS_MAP (ustr_of (peer_status_value s)) = Some s"
  by (cases s) (simp_all add: PEER_STATUS_MAP_def ustr_of_eq)

definition base_ok :: "message_type \<Rightarrow> 'a network_message_scheme \<Rightarrow> bool" where
  "base_ok t m \<longleftrightarrow> nm_msg_type m = Member t \<and> truthy (nm_msg_id m) \<and>
     jwf (nm_sender_id m) \<and> jwf (nm_timestamp m) \<and> jwf (nm_msg_id m) \<and> jwf (nm_signature m)"

text \<open>A message as its constructor leaves it, with field values that are JSON.\<close>

fun msg_ok :: "wire_message \<Rightarrow> bool" where
  "msg_ok (NetworkMessage m) \<longleftrightarrow> base_ok DELETION_ACK m \<or> base_ok PEER_DISCOVERY m"
| "msg_ok (ShareMessage m) \<longleftrightarrow> base_ok SHARE m \<and> (\<forall>j \<in> {sm_share_index m, sm_share_data m, sm_content_hash m,
     sm_threshold m, sm_total_shares m, sm_metadata m}. jwf j)"
| "msg_ok (DeletionTokenMessage m) \<longleftrightarrow> base_ok DELETION_TOKEN m \<and> (\<forall>j \<in> {dm_node_hash m, dm_originator_id m,
     dm_token_signature m, dm_cascade m, dm_reason m}. jwf j)"
| "msg_ok (CoCNodeMessage m) \<longleftrightarrow> base_ok COC_NODE m \<and> (\<forall>j \<in> {cm_node_data m, cm_parent_hash m, cm_content_hash m,
     cm_watermark_key m}. jwf j)"
| "msg_ok (PeerStatusMessage m) \<longleftrightarrow> base_ok PEER_STATUS m \<and> (\<exists>s. pm_status m = Member s) \<and>
     (\<forall>j \<in> {pm_peer_id m, pm_address m, pm_capabilities m}. jwf j)"
| "msg_ok (ContentMessage m) \<longleftrightarrow> base_ok CONTENT m \<and> (\<forall>j \<in> {em_content_hash m, em_encrypted_content m,
     em_timelock_expiry m, em_encryption_metadata m}. jwf j)"
| "msg_ok (RequestMessage m) \<longleftrightarrow> base_ok REQUEST_SHARE m \<and> (\<forall>j \<in> {qm_request_type m, qm_content_hash m,
     qm_additional_params m}. jwf j)"
| "msg_ok (ResponseMessage m) \<longleftrightarrow> base_ok RESPONSE m \<and> (\<forall>j \<in> {rm_request_id m, rm_success m, rm_data m,
     rm_error_message m}. jwf j)"
| "msg_ok (HeartbeatMessage m) \<longleftrightarrow> base_ok HEARTBEAT m \<and> (\<forall>j \<in> {hm_sequence m, hm_load m}. jwf j)"
| "msg_ok (KeyExchangeMessage m) \<longleftrightarrow> base_ok KEY_EXCHANGE m \<and> truthy (km_nonce m) \<and>
     (\<forall>j \<in> {km_public_key m, km_peer_address m, km_nonce m}. jwf j)"
| "msg_ok (KeyExchangeAckMessage m) \<longleftrightarrow> base_ok KEY_EXCHANGE_ACK m \<and> truthy (am_response_nonce m) \<and>
     (\<forall>j \<in> {am_public_key m, am_peer_address m, am_original_nonce m, am_response_nonce m}. jwf j)"

lemma read_msg_type_value:
  "map_of data ''msg_type'' = Some (jstr (message_type_value t)) \<Longrightarrow> read_msg_type data = Inr (Some (Member t))"
  by (simp add: read_msg_type_def read_enum_def type_map_value)

lemma deserialize_typed:
  "map_of data ''msg_type'' = Some (jstr (message_type_value t)) \<Longrightarrow>
   deserialize_dict pr now rnd (JObj data) = class_from_dict (Member t) pr now rnd data"
  by (simp add: deserialize_dict_def type_map_value)

lemma nm_post_init_ok: "truthy (nm_msg_id m) \<Longrightarrow> nm_post_init pr m = Inr m"
  by (simp add: nm_post_init_def)

lemmas round_trip_simps = nm_to_dict_def enum_value_def base_ok_def check_kwargs_def kw_def base_args_def
  network_message.extend_def nm_post_init_ok

definition round_trips :: "wire_message \<Rightarrow> bool" where
  "round_trips m \<longleftrightarrow> (\<exists>d. to_dict m = Inr d \<and> jwf (JObj d) \<and>
     (\<forall>pr now rnd. deserialize_dict pr now rnd (JObj d) = Inr m))"

lemma network_round_trip: "msg_ok (NetworkMessage m) \<Longrightarrow> round_trips (NetworkMessage m)"
  by (cases m) (auto simp: round_trips_def nm_from_dict_def round_trip_simps
      deserialize_typed [of _ DELETION_ACK, simplified] read_msg_type_value [of _ DELETION_ACK, simplified]
      deserialize_typed [of _ PEER_DISCOVERY, simplified] read_msg_type_value [of _ PEER_DISCOVERY, simplified])

lemma share_round_trip: "msg_ok (ShareMessage m) \<Longrightarrow> round_trips (ShareMessage m)"
  by (cases m) (auto simp: round_trips_def share_msg_to_dict_def share_msg_from_dict_def share_post_init_def share_message.fields_def
      round_trip_simps deserialize_typed [of _ SHARE, simplified] read_msg_type_value [of _ SHARE, simplified])

lemma deletion_token_round_trip: "msg_ok (DeletionTokenMessage m) \<Longrightarrow> round_trips (DeletionTokenMessage m)"
  by (cases m) (auto simp: round_trips_def deletion_token_to_dict_def deletion_token_from_dict_def deletion_token_post_init_def deletion_token_message.fields_def
      round_trip_simps deserialize_typed [of _ DELETION_TOKEN, simplified] read_msg_type_value [of _ DELETION_TOKEN, simplified])

lemma coc_node_round_trip: "msg_ok (CoCNodeMessage m) \<Longrightarrow> round_trips (CoCNodeMessage m)"
  by (cases m) (auto simp: round_trips_def coc_node_to_dict_def coc_node_from_dict_def coc_node_post_init_def coc_node_message.fields_def
      round_trip_simps deserialize_typed [of _ COC_NODE, simplified] read_msg_type_value [of _ COC_NODE, simplified])

lemma peer_status_round_trip: "msg_ok (PeerStatusMessage m) \<Longrightarrow> round_trips (PeerStatusMessage m)"
  by (cases m) (auto simp: round_trips_def peer_status_to_dict_def peer_status_from_dict_def peer_status_post_init_def peer_status_message.fields_def
      round_trip_simps read_enum_def status_map_value deserialize_typed [of _ PEER_STATUS, simplified] read_msg_type_value [of _ PEER_STATUS, simplified])

lemma content_round_trip: "msg_ok (ContentMessage m) \<Longrightarrow> round_trips (ContentMessage m)"
  by (cases m) (auto simp: round_trips_def content_to_dict_def content_from_dict_def content_post_init_def content_message.fields_def
      round_trip_simps deserialize_typed [of _ CONTENT, simplified] read_msg_type_value [of _ CONTENT, simplified])

lemma request_round_trip: "msg_ok (RequestMessage m) \<Longrightarrow> round_trips (RequestMessage m)"
  by (cases m) (auto simp: round_trips_def request_to_dict_def request_from_dict_def request_post_init_def request_message.fields_def
      round_trip_simps deserialize_typed [of _ REQUEST_SHARE, simplified] read_msg_type_value [of _ REQUEST_SHARE, simplified])

lemma response_round_trip: "msg_ok (ResponseMessage m) \<Longrightarrow> round_trips (ResponseMessage m)"
  by (cases m) (auto simp: round_trips_def response_to_dict_def response_from_dict_def response_post_init_def response_message.fields_def
      round_trip_simps deserialize_typed [of _ RESPONSE, simplified] read_msg_type_value [of _ RESPONSE, simplified])

lemma heartbeat_round_trip: "msg_ok (HeartbeatMessage m) \<Longrightarrow> round_trips (HeartbeatMessage m)"
  by (cases m) (auto simp: round_trips_def heartbeat_to_dict_def heartbeat_from_dict_def heartbeat_post_init_def heartbeat_message.fields_def
      round_trip_simps deserialize_typed [of _ HEARTBEAT, simplified] read_msg_type_value [of _ HEARTBEAT, simplified])

lemma key_exchange_round_trip: "msg_ok (KeyExchangeMessage m) \<Longrightarrow> round_trips (KeyExchangeMessage m)"
  by (cases m) (auto simp: round_trips_def key_exchange_to_dict_def key_exchange_from_dict_def key_exchange_post_init_def key_exchange_message.fields_def
      round_trip_simps deserialize_typed [of _ KEY_EXCHANGE, simplified] read_msg_type_value [of _ KEY_EXCHANGE, simplified])

lemma key_exchange_ack_round_trip: "msg_ok (KeyExchangeAckMessage m) \<Longrightarrow> round_trips (KeyExchangeAckMessage m)"
  by (cases m) (auto simp: round_trips_def key_exchange_ack_to_dict_def key_exchange_ack_from_dict_def key_exchange_ack_post_init_def key_exchange_ack_message.fields_def
      round_trip_simps deserialize_typed [of _ KEY_EXCHANGE_ACK, simplified] read_msg_type_value [of _ KEY_EXCHANGE_ACK, simplified])

lemma msg_ok_round_trips: "msg_ok m \<Longrightarrow> round_trips m"
  by (cases m) (simp_all only: network_round_trip share_round_trip deletion_token_round_trip coc_node_round_trip peer_status_round_trip content_round_trip request_round_trip response_round_trip heartbeat_round_trip key_exchange_round_trip key_exchange_ack_round_trip)

lemma to_bytes_round_trip: "msg_ok m \<Longrightarrow> \<exists>bs. to_bytes m = Inr bs \<and> (\<forall>pr now rnd. deserialize_message pr now rnd bs = Inr m)"
  using msg_ok_round_trips [of m]
  by (auto simp: round_trips_def to_bytes_def to_json_def deserialize_message_def loads_bytes_dumps simp del: jwf.simps)

lemma se_round_trip:
  "jwf (se_sender_id e) \<Longrightarrow> jwf (se_timestamp e) \<Longrightarrow> jwf (se_signature e) \<Longrightarrow> se_from_bytes (se_to_bytes e) = Inr e"
  by (simp add: se_from_bytes_def se_to_bytes_def loads_bytes_dumps se_to_dict_def se_from_dict_def item_def jreq_def
      b64decode_b64encode)

lemma se_verify_sign:
  assumes "sig_correct C" "sig_nonempty C"
  shows "se_verify C pr (ed_verify_key C sk) (se_sign C pr sk e)"
proof -
  have "se_signing_data pr (e\<lparr>se_signature := s\<rparr>) = se_signing_data pr e" for s by (simp add: se_signing_data_def)
  moreover have "ustr_of (bytes_hex (ed_sign C sk b)) \<noteq> []" for b
    using assms(2) by (simp add: ustr_of_def sig_nonempty_def)
  ultimately show ?thesis using assms(1) by (simp add: se_verify_def se_sign_def sig_correct_def)
qed

lemma wrapD:
  assumes "wrap C pr t0 m sender sk = Inr e" "msg_ok m" "scalar_text sender"
  shows "se_from_bytes (se_to_bytes e) = Inr e" "se_sender_id e = JStr sender" "se_timestamp e = JReal t0"
    "se_unwrap pr' now rnd e = Inr m" "sig_correct C \<Longrightarrow> sig_nonempty C \<Longrightarrow> se_verify C pr (ed_verify_key C sk) e"
proof -
  obtain bs where bs: "to_bytes m = Inr bs" "\<And>pr now rnd. deserialize_message pr now rnd bs = Inr m"
    using to_bytes_round_trip [OF assms(2)] by blast
  define u where "u = \<lparr>se_sender_id = JStr sender, se_timestamp = JReal t0, se_payload = bs, se_signature = JStr []\<rparr>"
  have e: "e = se_sign C pr sk u" using assms(1) bs(1) by (simp add: wrap_def u_def)
  show "se_sender_id e = JStr sender" "se_timestamp e = JReal t0" "se_unwrap pr' now rnd e = Inr m"
    using bs(2) by (simp_all add: e se_sign_def u_def se_unwrap_def)
  then show "se_from_bytes (se_to_bytes e) = Inr e" using assms(3) by (intro se_round_trip) (simp_all add: e se_sign_def)
  show "sig_correct C \<Longrightarrow> sig_nonempty C \<Longrightarrow> se_verify C pr (ed_verify_key C sk) e" by (simp add: e se_verify_sign)
qed

lemma port_clash: "get_pub_address i host = get_rep_address j host \<longleftrightarrow> i = j + 50"
proof -
  have "str_int a = str_int b \<longleftrightarrow> a = b" for a b
    using dumps_inj [OF seps_default(1), of "JInt a" "JInt b"] by auto
  then show ?thesis by (auto simp: get_pub_address_def get_rep_address_def PUB_PORT_START_def REP_PORT_START_def)
qed

section \<open>Properties\<close>


definition sample_heartbeat :: heartbeat_message where
  "sample_heartbeat = \<lparr>nm_sender_id = jstr ''alice'', nm_msg_type = Member HEARTBEAT, nm_timestamp = JReal (seconds 5),
     nm_msg_id = jstr ''m1'', nm_signature = JStr [], hm_sequence = JInt 7, hm_load = JInt 0\<rparr>"

lemma toy_key: "ed_verify_key toy_crypto k = k"
  by (simp add: toy_crypto_def)

lemma sample_heartbeat_ok: "msg_ok (HeartbeatMessage sample_heartbeat)"
  by (simp add: sample_heartbeat_def base_ok_def scalar_text_def ustr_of_def scalar_def)


text \<open>C24: An envelope a peer has wrapped is accepted by a receiver who knows the peer's key exactly from
  60 seconds before to 300 seconds after the time it was signed, both ends included; then the
  receiver gets the message and the name of the signer, whatever sender the message itself names.
  Outside that window it raises \<open>MessageTimestampError\<close>.\<close>
theorem envelope_accepted_in_window:
  assumes "sig_correct C" "sig_nonempty C" "msg_ok m" "scalar_text sender"
    and "wrap C pr t0 m sender sk = Inr e" "get_key (JStr sender) = Some (ed_verify_key C sk)"
  shows "unwrap_and_verify C pr now rnd (se_to_bytes e) get_key True =
    (if - seconds 60 \<le> now - t0 \<and> now - t0 \<le> seconds 300 then Inr (m, JStr sender) else Inl MessageTimestampError)"
  using assms wrapD [OF assms(5,3,4)]
  by (simp add: unwrap_and_verify_def se_validate_timestamp_def validate_message_timestamp_def as_number_def Let_def
      MESSAGE_MAX_AGE_SECONDS_def MESSAGE_MAX_FUTURE_SECONDS_def)

theorem envelope_accepted_in_window_witness:
  "\<exists>e. wrap toy_crypto (\<lambda>_. True) 0 (HeartbeatMessage sample_heartbeat) (ustr_of ''mallory'') [1] = Inr e \<and>
     unwrap_and_verify toy_crypto (\<lambda>_. True) (seconds 300) '''' (se_to_bytes e) (\<lambda>_. Some [1]) True =
       Inr (HeartbeatMessage sample_heartbeat, jstr ''mallory'') \<and>
     unwrap_and_verify toy_crypto (\<lambda>_. True) (seconds 301) '''' (se_to_bytes e) (\<lambda>_. Some [1]) True = Inl MessageTimestampError"
proof -
  obtain e where e: "wrap toy_crypto (\<lambda>_. True) 0 (HeartbeatMessage sample_heartbeat) (ustr_of ''mallory'') [1] = Inr e"
    using to_bytes_round_trip [OF sample_heartbeat_ok] by (auto simp: wrap_def)
  have k: "Some [1] = Some (ed_verify_key toy_crypto [1])" by (simp add: toy_key)
  note w = envelope_accepted_in_window [OF toy_crypto_laws(1,2) sample_heartbeat_ok scalar_ustr_of e, of "\<lambda>_. Some [1]", OF k]
  show ?thesis using e w [of "seconds 300" "''''"] w [of "seconds 301" "''''"] by (auto simp: seconds_def)
qed



end
