(* ===== verification/Gossip.thy ===== *)
theory Gossip
  imports Protocol
begin

text \<open>
  \<open>coc_framework/network/gossip.py\<close>: gossip envelopes, the cache of seen messages and the gossip
  peer, whose asynchronous loops are modelled by the step they repeat.

  As in the protocol, an envelope read from the wire has JSON values as fields. What a step does to
  the outside, handing a message to a registered handler or sending bytes to an address, is
  recorded as a list of effects; an exception that reaches the receive loop is logged there, so it
  only ends the step. The clock, the random choices and the nonce are arguments. The sockets are
  those of pyzmq: a connected socket is the address it is connected to.
\<close>

definition DEFAULT_FANOUT :: nat where "DEFAULT_FANOUT = 3"
definition DEFAULT_TTL :: int where "DEFAULT_TTL = 10"
definition DEFAULT_CACHE_SIZE :: nat where "DEFAULT_CACHE_SIZE = 10000"
definition DEFAULT_CACHE_TTL :: int where "DEFAULT_CACHE_TTL = 300"
definition HEARTBEAT_TIMEOUT :: int where "HEARTBEAT_TIMEOUT = 15"

section \<open>GossipEnvelope\<close>

record gossip_envelope =
  ge_msg_id :: json
  ge_payload :: json
  ge_origin_id :: json
  ge_ttl :: json
  ge_timestamp :: json
  ge_path :: json
  ge_signature :: json

text \<open>\<open>self.ttl -= 1\<close> and the comparison with zero.\<close>

definition decrement_ttl :: "gossip_envelope \<Rightarrow> (gossip_envelope \<times> bool) result" where
  "decrement_ttl e =
     (case ge_ttl e of
        JInt i \<Rightarrow> Inr (e\<lparr>ge_ttl := JInt (i - 1)\<rparr>, i - 1 > 0)
      | JReal r \<Rightarrow> Inr (e\<lparr>ge_ttl := JReal (r - seconds 1)\<rparr>, r - seconds 1 > 0)
      | JBool b \<Rightarrow> Inr (e\<lparr>ge_ttl := JInt (of_bool b - 1)\<rparr>, False)
      | _ \<Rightarrow> Inl TypeError)"

definition add_to_path :: "ustr \<Rightarrow> gossip_envelope \<Rightarrow> gossip_envelope result" where
  "add_to_path pid e =
     (case ge_path e of JList ps \<Rightarrow> Inr (e\<lparr>ge_path := JList (ps @ [JStr pid])\<rparr>) | _ \<Rightarrow> Inl AttributeError)"

definition ge_signing_data :: "(nat \<Rightarrow> bool) \<Rightarrow> gossip_envelope \<Rightarrow> ustr" where
  "ge_signing_data pr e =
     (let payload_hash = sha256 (encode (dumps (sort_keys (ge_payload e))))
      in py_str pr (ge_origin_id e) @ ustr_of ''|'' @ py_str pr (ge_timestamp e) @ ustr_of ''|'' @
         py_str pr (ge_msg_id e) @ ustr_of ''|'' @ ustr_of payload_hash)"

definition ge_sign :: "crypto \<Rightarrow> (nat \<Rightarrow> bool) \<Rightarrow> signing_key \<Rightarrow> gossip_envelope \<Rightarrow> gossip_envelope" where
  "ge_sign C pr sk e = e\<lparr>ge_signature := jstr (bytes_hex (ed_sign C sk (utf8 (ge_signing_data pr e))))\<rparr>"

definition ge_verify :: "crypto \<Rightarrow> (nat \<Rightarrow> bool) \<Rightarrow> verify_key \<Rightarrow> gossip_envelope \<Rightarrow> bool" where
  "ge_verify C pr vk e =
     (if \<not> truthy (ge_signature e) then False
      else (case bindr (as_str (ge_signature e)) (\<lambda>h. case fromhex h of None \<Rightarrow> Inl ValueError | Some s \<Rightarrow> Inr s) of
              Inl _ \<Rightarrow> False
            | Inr s \<Rightarrow> ed_verify C vk (utf8 (ge_signing_data pr e)) s))"

definition ge_validate_timestamp :: "datetime \<Rightarrow> gossip_envelope \<Rightarrow> bool result" where
  "ge_validate_timestamp now e =
     bindr (as_number (ge_timestamp e)) (\<lambda>ts.
       let age = now - ts
       in Inr (if age > seconds MESSAGE_MAX_AGE_SECONDS then False
               else if age < - seconds MESSAGE_MAX_FUTURE_SECONDS then False else True))"

definition ge_to_dict :: "gossip_envelope \<Rightarrow> json" where
  "ge_to_dict e = JObj [
     (''msg_id'', ge_msg_id e),
     (''payload'', ge_payload e),
     (''origin_id'', ge_origin_id e),
     (''ttl'', ge_ttl e),
     (''timestamp'', ge_timestamp e),
     (''path'', ge_path e),
     (''signature'', ge_signature e)]"

text \<open>\<open>GossipEnvelope(**data)\<close>\<close>

definition ge_from_dict :: "datetime \<Rightarrow> json \<Rightarrow> gossip_envelope result" where
  "ge_from_dict now d =
     (case d of
        JObj data \<Rightarrow>
          if fst ` set data \<subseteq> {''msg_id'', ''payload'', ''origin_id'', ''ttl'', ''timestamp'', ''path'', ''signature''} \<and>
             {''msg_id'', ''payload'', ''origin_id''} \<subseteq> fst ` set data
          then Inr \<lparr>
            ge_msg_id = kw data ''msg_id'' JNull,
            ge_payload = kw data ''payload'' JNull,
            ge_origin_id = kw data ''origin_id'' JNull,
            ge_ttl = kw data ''ttl'' (JInt DEFAULT_TTL),
            ge_timestamp = kw data ''timestamp'' (JReal now),
            ge_path = kw data ''path'' (JList []),
            ge_signature = kw data ''signature'' (JStr [])\<rparr>
          else Inl TypeError
      | _ \<Rightarrow> Inl TypeError)"

definition ge_to_bytes :: "gossip_envelope \<Rightarrow> bytes" where
  "ge_to_bytes e = encode (dumps (ge_to_dict e))"

definition ge_from_bytes :: "datetime \<Rightarrow> bytes \<Rightarrow> gossip_envelope result" where
  "ge_from_bytes now bs = bindr (loads_bytes bs) (ge_from_dict now)"

section \<open>PeerInfo\<close>

record peer_info =
  pi_peer_id :: ustr
  pi_address :: string
  pi_last_seen :: datetime
  pi_status :: peer_status
  pi_capabilities :: "ustr set"

definition update_last_seen :: "datetime \<Rightarrow> peer_info \<Rightarrow> peer_info" where
  "update_last_seen now p = p\<lparr>pi_last_seen := now\<rparr>"

definition is_stale :: "datetime \<Rightarrow> peer_info \<Rightarrow> bool" where
  "is_stale now p \<longleftrightarrow> now - pi_last_seen p > seconds HEARTBEAT_TIMEOUT"

section \<open>MessageCache\<close>

text \<open>
  The dictionary's keys are message identifiers as they came from the wire. Numbers that are
  equal are the same key, and a list or dictionary is not a key.
\<close>

definition dict_key :: "json \<Rightarrow> json result" where
  "dict_key j =
     (case j of
        JList _ \<Rightarrow> Inl TypeError
      | JObj _ \<Rightarrow> Inl TypeError
      | JBool b \<Rightarrow> Inr (JInt (of_bool b))
      | JReal r \<Rightarrow> Inr (if r mod 1000000 = 0 then JInt (r div 1000000) else JReal r)
      | _ \<Rightarrow> Inr j)"

record message_cache =
  mc_cache :: "(json \<times> datetime) list"
  mc_max_size :: nat
  mc_ttl :: datetime
  mc_last_cleanup :: datetime
  mc_cleanup_interval :: datetime

definition message_cache_init :: "datetime \<Rightarrow> message_cache" where
  "message_cache_init now = \<lparr>mc_cache = [], mc_max_size = DEFAULT_CACHE_SIZE, mc_ttl = seconds DEFAULT_CACHE_TTL,
     mc_last_cleanup = now, mc_cleanup_interval = seconds 60\<rparr>"

definition cache_cleanup :: "datetime \<Rightarrow> message_cache \<Rightarrow> message_cache" where
  "cache_cleanup now mc =
     (if now - mc_last_cleanup mc < mc_cleanup_interval mc then mc
      else
        let cutoff = now - mc_ttl mc;
            cache = filter (\<lambda>(k, v). \<not> v < cutoff) (mc_cache mc);
            cache = (if length cache > mc_max_size mc
                     then fold (\<lambda>(k, v) c. dict_del k c)
                            (take (length cache - mc_max_size mc) (sort_key snd cache)) cache
                     else cache)
        in mc\<lparr>mc_cache := cache, mc_last_cleanup := now\<rparr>)"

definition has_seen :: "datetime \<Rightarrow> json \<Rightarrow> message_cache \<Rightarrow> message_cache \<times> bool result" where
  "has_seen now msg_id mc =
     (let mc = cache_cleanup now mc
      in case dict_key msg_id of
           Inl e \<Rightarrow> (mc, Inl e)
         | Inr k \<Rightarrow>
             (case map_of (mc_cache mc) k of
                None \<Rightarrow> (mc, Inr False)
              | Some t \<Rightarrow>
                  if now - t > mc_ttl mc then (mc\<lparr>mc_cache := dict_del k (mc_cache mc)\<rparr>, Inr False)
                  else (mc, Inr True)))"

definition mark_seen :: "datetime \<Rightarrow> json \<Rightarrow> message_cache \<Rightarrow> message_cache result" where
  "mark_seen now msg_id mc =
     bindr (dict_key msg_id) (\<lambda>k. Inr (cache_cleanup now (mc\<lparr>mc_cache := dict_set k now (mc_cache mc)\<rparr>)))"

definition get_recent_ids :: "nat \<Rightarrow> message_cache \<Rightarrow> json list" where
  "get_recent_ids n mc = map fst (take n (sort_key (\<lambda>x. - snd x) (mc_cache mc)))"

section \<open>GossipPeer\<close>

record gossip_peer =
  gp_peer_id :: ustr
  gp_host :: string
  gp_port :: int
  gp_fanout :: nat
  gp_max_peers :: nat
  gp_signing_key :: signing_key
  gp_peers :: "(ustr \<times> peer_info) list"
  gp_peer_keys :: "ustr \<rightharpoonup> verify_key"
  gp_seen_messages :: message_cache
  gp_handlers :: "message_type set"
  gp_dealers :: "ustr \<rightharpoonup> string"

text \<open>\<open>generated\<close> is the key \<open>SigningKey.generate()\<close> draws.\<close>

definition gossip_peer_init ::
  "datetime \<Rightarrow> ustr \<Rightarrow> string \<Rightarrow> int \<Rightarrow> nat \<Rightarrow> nat \<Rightarrow> signing_key option \<Rightarrow> signing_key \<Rightarrow> gossip_peer" where
  "gossip_peer_init now pid host port fanout max_peers key generated = \<lparr>
     gp_peer_id = pid, gp_host = host, gp_port = port, gp_fanout = fanout, gp_max_peers = max_peers,
     gp_signing_key = (case key of Some k \<Rightarrow> k | None \<Rightarrow> generated),
     gp_peers = [], gp_peer_keys = Map.empty, gp_seen_messages = message_cache_init now,
     gp_handlers = {}, gp_dealers = Map.empty\<rparr>"

definition gp_address :: "gossip_peer \<Rightarrow> string" where
  "gp_address p = ''tcp://'' @ gp_host p @ '':'' @ str_int (gp_port p)"

definition get_peer_count :: "gossip_peer \<Rightarrow> nat" where
  "get_peer_count p = length (gp_peers p)"

definition get_active_peers :: "datetime \<Rightarrow> gossip_peer \<Rightarrow> ustr list" where
  "get_active_peers now p = map pi_peer_id (filter (\<lambda>i. \<not> is_stale now i) (map snd (gp_peers p)))"

definition gp_remove_peer :: "ustr \<Rightarrow> gossip_peer \<Rightarrow> gossip_peer" where
  "gp_remove_peer pid p = p\<lparr>gp_peers := dict_del pid (gp_peers p), gp_dealers := (gp_dealers p)(pid := None),
     gp_peer_keys := (gp_peer_keys p)(pid := None)\<rparr>"

text \<open>\<open>min\<close> by \<open>last_seen\<close> is the first of the least in the dictionary's order.\<close>

definition evict_oldest_peer :: "gossip_peer \<Rightarrow> gossip_peer" where
  "evict_oldest_peer p =
     (case sort_key pi_last_seen (map snd (gp_peers p)) of
        [] \<Rightarrow> p
      | oldest # _ \<Rightarrow> gp_remove_peer (pi_peer_id oldest) p)"

definition gp_add_peer ::
  "datetime \<Rightarrow> ustr \<Rightarrow> string \<Rightarrow> ustr set option \<Rightarrow> verify_key option \<Rightarrow> gossip_peer \<Rightarrow> gossip_peer" where
  "gp_add_peer now pid address capabilities verify_key p =
     (if pid = gp_peer_id p then p
      else
        let p = (if length (gp_peers p) \<ge> gp_max_peers p \<and> pid \<notin> fst ` set (gp_peers p)
                 then evict_oldest_peer p else p);
            caps = (case capabilities of None \<Rightarrow> {} | Some s \<Rightarrow> s);
            info = \<lparr>pi_peer_id = pid, pi_address = address, pi_last_seen = now, pi_status = ONLINE,
                    pi_capabilities = caps\<rparr>;
            p = p\<lparr>gp_peers := dict_set pid info (gp_peers p)\<rparr>
        in case verify_key of
             None \<Rightarrow> p
           | Some k \<Rightarrow> p\<lparr>gp_peer_keys := (gp_peer_keys p)(pid \<mapsto> k)\<rparr>)"

definition register_peer_key :: "ustr \<Rightarrow> verify_key \<Rightarrow> gossip_peer \<Rightarrow> gossip_peer" where
  "register_peer_key pid k p = p\<lparr>gp_peer_keys := (gp_peer_keys p)(pid \<mapsto> k)\<rparr>"

definition get_peer_key :: "ustr \<Rightarrow> gossip_peer \<Rightarrow> verify_key option" where
  "get_peer_key pid p = gp_peer_keys p pid"

definition register_handler :: "message_type \<Rightarrow> gossip_peer \<Rightarrow> gossip_peer" where
  "register_handler t p = p\<lparr>gp_handlers := insert t (gp_handlers p)\<rparr>"

text \<open>\<open>random.sample\<close> is the argument \<open>pick\<close>.\<close>

definition select_gossip_targets ::
  "(ustr list \<Rightarrow> nat \<Rightarrow> ustr list) \<Rightarrow> json set \<Rightarrow> gossip_peer \<Rightarrow> ustr list" where
  "select_gossip_targets pick exclude p =
     (let available = filter (\<lambda>pid. JStr pid \<notin> exclude) (map fst (gp_peers p))
      in if length available \<le> gp_fanout p then available else pick available (gp_fanout p))"

definition get_dealer :: "ustr \<Rightarrow> gossip_peer \<Rightarrow> gossip_peer \<times> string option" where
  "get_dealer pid p =
     (case gp_dealers p pid of
        Some a \<Rightarrow> (p, Some a)
      | None \<Rightarrow>
          (case map_of (gp_peers p) pid of
             None \<Rightarrow> (p, None)
           | Some info \<Rightarrow> (p\<lparr>gp_dealers := (gp_dealers p)(pid \<mapsto> pi_address info)\<rparr>, Some (pi_address info))))"

datatype effect = Deliver wire_message | Send string bytes

fun send_all :: "bytes \<Rightarrow> ustr list \<Rightarrow> gossip_peer \<Rightarrow> gossip_peer \<times> effect list" where
  "send_all data [] p = (p, [])"
| "send_all data (pid # pids) p =
     (let (p, dealer) = get_dealer pid p;
          (p', effs) = send_all data pids p
      in (p', (case dealer of None \<Rightarrow> effs | Some a \<Rightarrow> Send a data # effs)))"

text \<open>
  \<open>tainted\<close> says that the payload dictionary holds an enumeration member: then \<open>json.dumps\<close>
  raises \<open>TypeError\<close>.
\<close>

definition send_to_peers ::
  "bool \<Rightarrow> gossip_envelope \<Rightarrow> ustr list \<Rightarrow> gossip_peer \<Rightarrow> gossip_peer \<times> effect list" where
  "send_to_peers tainted e pids p = (if tainted then (p, []) else send_all (ge_to_bytes e) pids p)"

text \<open>\<open>sent\<close> is false when pyzmq raises on the send.\<close>

definition send_direct :: "bool \<Rightarrow> ustr \<Rightarrow> wire_message \<Rightarrow> gossip_peer \<Rightarrow> gossip_peer \<times> effect list \<times> bool result" where
  "send_direct sent pid m p =
     (let (p, dealer) = get_dealer pid p
      in case dealer of
           None \<Rightarrow> (p, [], Inr False)
         | Some a \<Rightarrow>
             (case to_bytes m of
                Inl e \<Rightarrow> (p, [], Inl e)
              | Inr bs \<Rightarrow> (p, [Send a bs], Inr sent)))"

fun msg_base :: "wire_message \<Rightarrow> network_message" where
  "msg_base (NetworkMessage m) = m"
| "msg_base (ShareMessage m) = network_message.truncate m"
| "msg_base (DeletionTokenMessage m) = network_message.truncate m"
| "msg_base (CoCNodeMessage m) = network_message.truncate m"
| "msg_base (PeerStatusMessage m) = network_message.truncate m"
| "msg_base (ContentMessage m) = network_message.truncate m"
| "msg_base (RequestMessage m) = network_message.truncate m"
| "msg_base (ResponseMessage m) = network_message.truncate m"
| "msg_base (HeartbeatMessage m) = network_message.truncate m"
| "msg_base (KeyExchangeMessage m) = network_message.truncate m"
| "msg_base (KeyExchangeAckMessage m) = network_message.truncate m"

definition dispatch_message :: "wire_message \<Rightarrow> gossip_peer \<Rightarrow> effect list" where
  "dispatch_message m p =
     (case nm_msg_type (msg_base m) of
        Member t \<Rightarrow> if t \<in> gp_handlers p then [Deliver m] else []
      | Raw _ \<Rightarrow> [])"

text \<open>
  \<open>deserialize_message(envelope.payload)\<close>: a string is parsed first. A dictionary is read in place:
  \<open>from_dict\<close> stores the enumeration member it finds for \<open>msg_type\<close> in the caller's dictionary.
\<close>

definition read_payload :: "(nat \<Rightarrow> bool) \<Rightarrow> datetime \<Rightarrow> string \<Rightarrow> json \<Rightarrow> wire_message result" where
  "read_payload pr now rnd payload =
     (case payload of
        JStr u \<Rightarrow> (case loads (esc_text u) of None \<Rightarrow> Inl JSONDecodeError | Some d \<Rightarrow> deserialize_dict pr now rnd d)
      | _ \<Rightarrow> deserialize_dict pr now rnd payload)"

definition read_taints :: "json \<Rightarrow> bool" where
  "read_taints payload =
     (case payload of
        JObj data \<Rightarrow>
          (case map_of data ''msg_type'' of
             Some (JStr u) \<Rightarrow> map_of MESSAGE_TYPE_MAP u \<noteq> None
           | _ \<Rightarrow> False)
      | _ \<Rightarrow> False)"

text \<open>\<open>set(envelope.path)\<close>\<close>

definition path_set :: "json \<Rightarrow> json set result" where
  "path_set path = (case path of JList ps \<Rightarrow> bindr (mapr dict_key ps) (\<lambda>ks. Inr (set ks)) | _ \<Rightarrow> Inl TypeError)"

definition forward_received ::
  "(ustr list \<Rightarrow> nat \<Rightarrow> ustr list) \<Rightarrow> bool \<Rightarrow> ustr \<Rightarrow> gossip_envelope \<Rightarrow> gossip_peer \<Rightarrow> gossip_peer \<times> effect list" where
  "forward_received pick tainted sender e p =
     (case decrement_ttl e of
        Inl _ \<Rightarrow> (p, [])
      | Inr (e, alive) \<Rightarrow>
          if \<not> alive then (p, [])
          else (case add_to_path (gp_peer_id p) e of
                  Inl _ \<Rightarrow> (p, [])
                | Inr e \<Rightarrow>
                    (case (path_set (ge_path e), dict_key (ge_origin_id e)) of
                       (Inr path, Inr origin) \<Rightarrow>
                         send_to_peers tainted e
                           (select_gossip_targets pick (path \<union> {JStr sender, origin}) p) p
                     | _ \<Rightarrow> (p, []))))"

definition peer_key_of :: "json \<Rightarrow> gossip_peer \<Rightarrow> verify_key option" where
  "peer_key_of origin p = (case origin of JStr u \<Rightarrow> gp_peer_keys p u | _ \<Rightarrow> None)"

definition touch_sender :: "datetime \<Rightarrow> ustr \<Rightarrow> gossip_peer \<Rightarrow> gossip_peer" where
  "touch_sender now sender p =
     (case map_of (gp_peers p) sender of
        None \<Rightarrow> p
      | Some info \<Rightarrow> p\<lparr>gp_peers := dict_set sender (update_last_seen now info) (gp_peers p)\<rparr>)"

definition handle_received ::
  "crypto \<Rightarrow> (nat \<Rightarrow> bool) \<Rightarrow> (ustr list \<Rightarrow> nat \<Rightarrow> ustr list) \<Rightarrow> datetime \<Rightarrow> string \<Rightarrow> ustr \<Rightarrow> bytes \<Rightarrow> gossip_peer
   \<Rightarrow> gossip_peer \<times> effect list" where
  "handle_received C pr pick now rnd sender data p =
     (case ge_from_bytes now data of
        Inl _ \<Rightarrow>
          (case deserialize_message pr now rnd data of
             Inl _ \<Rightarrow> (p, [])
           | Inr m \<Rightarrow> (p, dispatch_message m p))
      | Inr e \<Rightarrow>
          let p = touch_sender now sender p;
              (mc, seen) = has_seen now (ge_msg_id e) (gp_seen_messages p);
              p = p\<lparr>gp_seen_messages := mc\<rparr>
          in if seen \<noteq> Inr False then (p, [])
             else (case peer_key_of (ge_origin_id e) p of
                     None \<Rightarrow> (p, [])
                   | Some k \<Rightarrow>
                       if \<not> ge_verify C pr k e then (p, [])
                       else if ge_validate_timestamp now e \<noteq> Inr True then (p, [])
                       else (case mark_seen now (ge_msg_id e) (gp_seen_messages p) of
                               Inl _ \<Rightarrow> (p, [])
                             | Inr mc \<Rightarrow>
                                 let p = p\<lparr>gp_seen_messages := mc\<rparr>;
                                     handled = (case read_payload pr now rnd (ge_payload e) of
                                                  Inl _ \<Rightarrow> [] | Inr m \<Rightarrow> dispatch_message m p);
                                     (p, sent) = forward_received pick (read_taints (ge_payload e)) sender e p
                                 in (p, handled @ sent))))"

definition gossip ::
  "crypto \<Rightarrow> (nat \<Rightarrow> bool) \<Rightarrow> (ustr list \<Rightarrow> nat \<Rightarrow> ustr list) \<Rightarrow> datetime \<Rightarrow> wire_message \<Rightarrow> gossip_peer
   \<Rightarrow> gossip_peer \<times> effect list result" where
  "gossip C pr pick now m p =
     (case to_dict m of
        Inl e \<Rightarrow> (p, Inl e)
      | Inr d \<Rightarrow>
          let msg_id = take 32 (sha256 (utf8 (gp_peer_id p @ ustr_of '':'' @ py_str pr (JReal now) @ ustr_of '':'' @
                py_str pr (nm_msg_id (msg_base m)))));
              e = ge_sign C pr (gp_signing_key p)
                \<lparr>ge_msg_id = jstr msg_id, ge_payload = JObj d, ge_origin_id = JStr (gp_peer_id p),
                 ge_ttl = JInt DEFAULT_TTL, ge_timestamp = JReal now, ge_path = JList [JStr (gp_peer_id p)],
                 ge_signature = JStr []\<rparr>
          in (case mark_seen now (jstr msg_id) (gp_seen_messages p) of
                Inl e \<Rightarrow> (p, Inl e)
              | Inr mc \<Rightarrow>
                  (let p = p\<lparr>gp_seen_messages := mc\<rparr>;
                       (p, sent) = send_to_peers False e (select_gossip_targets pick {} p) p
                   in (p, Inr sent))))"

text \<open>One round of the anti-entropy loop; \<open>chosen\<close> is \<open>random.choice\<close>.\<close>

definition anti_entropy_round :: "(ustr list \<Rightarrow> ustr) \<Rightarrow> gossip_peer \<Rightarrow> gossip_peer \<times> effect list" where
  "anti_entropy_round chosen p =
     (if gp_peers p = [] then (p, [])
      else
        let pull_request = JObj [
              (''type'', jstr ''pull_request''),
              (''sender_id'', JStr (gp_peer_id p)),
              (''message_ids'', JList (get_recent_ids 100 (gp_seen_messages p)))];
            (p, dealer) = get_dealer (chosen (map fst (gp_peers p))) p
        in (p, (case dealer of None \<Rightarrow> [] | Some a \<Rightarrow> [Send a (encode (dumps pull_request))])))"

text \<open>One round of the maintenance loop.\<close>

definition maintenance_round ::
  "crypto \<Rightarrow> (nat \<Rightarrow> bool) \<Rightarrow> (ustr list \<Rightarrow> nat \<Rightarrow> ustr list) \<Rightarrow> datetime \<Rightarrow> gossip_peer \<Rightarrow> gossip_peer \<times> effect list result" where
  "maintenance_round C pr pick now p =
     (let stale = filter (is_stale now) (map snd (gp_peers p));
          p = fold (\<lambda>info. gp_remove_peer (pi_peer_id info)) stale p
      in case heartbeat_from_dict pr now [(''sender_id'', JStr (gp_peer_id p))] of
           Inl e \<Rightarrow> (p, Inl e)
         | Inr m \<Rightarrow> gossip C pr pick now (HeartbeatMessage m) p)"

section \<open>GossipNetwork\<close>

record gossip_network =
  gn_host :: string
  gn_peers :: "(ustr \<times> gossip_peer) list"
  gn_next_port :: int

definition gossip_network_init :: "string \<Rightarrow> int \<Rightarrow> gossip_network" where
  "gossip_network_init host base_port = \<lparr>gn_host = host, gn_peers = [], gn_next_port = base_port\<rparr>"

definition create_peer :: "datetime \<Rightarrow> signing_key \<Rightarrow> ustr \<Rightarrow> nat \<Rightarrow> gossip_network \<Rightarrow> gossip_network" where
  "create_peer now generated pid fanout n =
     n\<lparr>gn_peers := dict_set pid (gossip_peer_init now pid (gn_host n) (gn_next_port n) fanout 50 None generated) (gn_peers n),
       gn_next_port := gn_next_port n + 1\<rparr>"

definition get_peer :: "ustr \<Rightarrow> gossip_network \<Rightarrow> gossip_peer option" where
  "get_peer pid n = map_of (gn_peers n) pid"

text \<open>\<open>start_all\<close> after the sockets are bound: every peer is told the address of every other.\<close>

definition introduce :: "datetime \<Rightarrow> gossip_peer list \<Rightarrow> gossip_peer \<Rightarrow> gossip_peer" where
  "introduce now others p =
     fold (\<lambda>other p. if gp_peer_id other \<noteq> gp_peer_id p
                     then gp_add_peer now (gp_peer_id other) (gp_address other) None None p else p) others p"

definition start_all :: "datetime \<Rightarrow> gossip_network \<Rightarrow> gossip_network" where
  "start_all now n =
     n\<lparr>gn_peers := map (\<lambda>(pid, p). (pid, introduce now (map snd (gn_peers n)) p)) (gn_peers n)\<rparr>"

definition broadcast ::
  "crypto \<Rightarrow> (nat \<Rightarrow> bool) \<Rightarrow> (ustr list \<Rightarrow> nat \<Rightarrow> ustr list) \<Rightarrow> (ustr list \<Rightarrow> ustr) \<Rightarrow> datetime \<Rightarrow> wire_message \<Rightarrow> gossip_network
   \<Rightarrow> gossip_network \<times> effect list result" where
  "broadcast C pr pick chosen now m n =
     (if gn_peers n = [] then (n, Inr [])
      else
        let pid = chosen (map fst (gn_peers n))
        in case map_of (gn_peers n) pid of
             None \<Rightarrow> (n, Inr [])
           | Some p \<Rightarrow>
               let (p, r) = gossip C pr pick now m p
               in (n\<lparr>gn_peers := dict_set pid p (gn_peers n)\<rparr>, r))"

section \<open>Envelopes\<close>

lemma ge_round_trip:
  "jwf (ge_to_dict e) \<Longrightarrow> ge_from_bytes now (ge_to_bytes e) = Inr e"
  by (simp add: ge_from_bytes_def ge_to_bytes_def loads_bytes_dumps) (simp add: ge_to_dict_def ge_from_dict_def kw_def)

lemma ge_verify_sign:
  assumes "sig_correct C" "sig_nonempty C"
  shows "ge_verify C pr (ed_verify_key C sk) (ge_sign C pr sk e)"
proof -
  have "ge_signing_data pr (e\<lparr>ge_signature := s\<rparr>) = ge_signing_data pr e" for s by (simp add: ge_signing_data_def)
  moreover have "ustr_of (bytes_hex (ed_sign C sk b)) \<noteq> []" for b
    using assms(2) by (simp add: ustr_of_def sig_nonempty_def)
  ultimately show ?thesis using assms(1) by (simp add: ge_verify_def ge_sign_def sig_correct_def)
qed

section \<open>One step of a peer\<close>

lemma touch_sender_sel [simp]:
  "gp_peer_keys (touch_sender now s p) = gp_peer_keys p" "gp_handlers (touch_sender now s p) = gp_handlers p"
  "gp_seen_messages (touch_sender now s p) = gp_seen_messages p" "gp_peer_id (touch_sender now s p) = gp_peer_id p"
  by (simp_all add: touch_sender_def split: option.splits)

lemma dispatch_only_delivers: "Deliver m' \<in> set (dispatch_message m p) \<Longrightarrow> m' = m" "Send a bs \<notin> set (dispatch_message m p)"
  by (auto simp: dispatch_message_def split: enum_field.splits if_splits)

lemma send_all_only_sends: "Deliver m \<notin> set (snd (send_all data pids p))"
  by (induction pids arbitrary: p) (auto simp: case_prod_unfold Let_def split: option.splits)

lemma forward_only_sends: "Deliver m \<notin> set (snd (forward_received pick tainted sender e p))"
  by (auto simp: forward_received_def send_to_peers_def send_all_only_sends split: sum.splits prod.splits)

lemma forward_tainted: "forward_received pick True sender e p = (p, [])"
  by (auto simp: forward_received_def send_to_peers_def split: sum.splits prod.splits)

definition accepts :: "crypto \<Rightarrow> (nat \<Rightarrow> bool) \<Rightarrow> datetime \<Rightarrow> gossip_envelope \<Rightarrow> gossip_peer \<Rightarrow> bool" where
  "accepts C pr now e p \<longleftrightarrow>
     snd (has_seen now (ge_msg_id e) (gp_seen_messages p)) = Inr False \<and>
     (\<exists>u k ts. ge_origin_id e = JStr u \<and> gp_peer_keys p u = Some k \<and> ge_verify C pr k e \<and>
        as_number (ge_timestamp e) = Inr ts \<and> - seconds 60 \<le> now - ts \<and> now - ts \<le> seconds 300)"

lemma ge_validate_iff:
  "ge_validate_timestamp now e = Inr True \<longleftrightarrow>
     (\<exists>ts. as_number (ge_timestamp e) = Inr ts \<and> - seconds 60 \<le> now - ts \<and> now - ts \<le> seconds 300)"
  by (auto simp: ge_validate_timestamp_def bindr_eq_Inr Let_def MESSAGE_MAX_AGE_SECONDS_def MESSAGE_MAX_FUTURE_SECONDS_def not_less)

lemma peer_key_of_Some: "peer_key_of j p = Some k \<longleftrightarrow> (\<exists>u. j = JStr u \<and> gp_peer_keys p u = Some k)"
  by (cases j) (simp_all add: peer_key_of_def)

lemma accepts_key:
  "accepts C pr now e p \<longleftrightarrow> snd (has_seen now (ge_msg_id e) (gp_seen_messages p)) = Inr False \<and>
     (\<exists>k. peer_key_of (ge_origin_id e) p = Some k \<and> ge_verify C pr k e \<and> ge_validate_timestamp now e = Inr True)"
  unfolding accepts_def ge_validate_iff peer_key_of_Some by blast

lemma handle_rejected:
  assumes "ge_from_bytes now data = Inr e" "\<not> accepts C pr now e p"
  shows "snd (handle_received C pr pick now rnd sender data p) = []"
proof -
  obtain mc seen where h: "has_seen now (ge_msg_id e) (gp_seen_messages p) = (mc, seen)" by fastforce
  have k: "peer_key_of j (touch_sender now sender p\<lparr>gp_seen_messages := mc\<rparr>) = peer_key_of j p" for j
    by (cases j) (simp_all add: peer_key_of_def)
  show ?thesis
    using assms(2) unfolding handle_received_def assms(1) accepts_key h
    by (auto simp: h k Let_def split: option.splits)
qed

lemma handle_accepted:
  assumes "ge_from_bytes now data = Inr e" "accepts C pr now e p"
  obtains q where "gp_handlers q = gp_handlers p"
    "snd (handle_received C pr pick now rnd sender data p) =
       (case read_payload pr now rnd (ge_payload e) of Inl _ \<Rightarrow> [] | Inr m \<Rightarrow> dispatch_message m q) @
       snd (forward_received pick (read_taints (ge_payload e)) sender e q)"
proof -
  obtain mc where h: "has_seen now (ge_msg_id e) (gp_seen_messages p) = (mc, Inr False)"
    using assms(2) unfolding accepts_key by (metis prod.collapse)
  have k: "peer_key_of j (touch_sender now sender p\<lparr>gp_seen_messages := mc\<rparr>) = peer_key_of j p" for j
    by (cases j) (simp_all add: peer_key_of_def)
  obtain key where key: "peer_key_of (ge_origin_id e) p = Some key" "ge_verify C pr key e" "ge_validate_timestamp now e = Inr True"
    using assms(2) unfolding accepts_key by blast
  have "\<exists>x. dict_key (ge_msg_id e) = Inr x" using h by (auto simp: has_seen_def Let_def split: sum.splits)
  then obtain mc' where m: "mark_seen now (ge_msg_id e) mc = Inr mc'" by (auto simp: mark_seen_def)
  let ?q = "touch_sender now sender p\<lparr>gp_seen_messages := mc'\<rparr>"
  have "snd (handle_received C pr pick now rnd sender data p) =
       (case read_payload pr now rnd (ge_payload e) of Inl _ \<Rightarrow> [] | Inr m \<Rightarrow> dispatch_message m ?q) @
       snd (forward_received pick (read_taints (ge_payload e)) sender e ?q)"
    unfolding handle_received_def assms(1) using h k key m
    by (simp add: Let_def case_prod_unfold)
  then show thesis by (rule that [rotated]) simp
qed

section \<open>The cache\<close>

datatype cache_op = Has json | Mark json

text \<open>An operation on an unhashable identifier raises and leaves the cache.\<close>

fun cache_run :: "(datetime \<times> cache_op) list \<Rightarrow> message_cache \<Rightarrow> message_cache" where
  "cache_run [] mc = mc"
| "cache_run ((t, Has i) # ops) mc = cache_run ops (fst (has_seen t i mc))"
| "cache_run ((t, Mark i) # ops) mc = cache_run ops (case mark_seen t i mc of Inr mc' \<Rightarrow> mc' | Inl _ \<Rightarrow> mc)"

fun op_marks :: "json \<Rightarrow> cache_op \<Rightarrow> bool" where
  "op_marks k (Has i) = False"
| "op_marks k (Mark i) = (dict_key i = Inr k)"

text \<open>The entry of \<open>k\<close> at time \<open>t\<close> is there, or no longer needed.\<close>

definition still_seen :: "json \<Rightarrow> datetime \<Rightarrow> datetime \<Rightarrow> message_cache \<Rightarrow> bool" where
  "still_seen k t1 now mc \<longleftrightarrow> distinct (map fst (mc_cache mc)) \<and>
     (if now - t1 \<le> mc_ttl mc then map_of (mc_cache mc) k = Some t1
      else map_of (mc_cache mc) k \<in> {None, Some t1})"

lemma distinct_filter_keys: "distinct (map fst xs) \<Longrightarrow> distinct (map fst (filter P xs))"
  by (induction xs) auto

lemma map_of_filter_key:
  "distinct (map fst xs) \<Longrightarrow> map_of (filter (\<lambda>(k, v). P v) xs) k =
     (case map_of xs k of None \<Rightarrow> None | Some v \<Rightarrow> if P v then Some v else None)"
  by (induction xs) (auto simp: map_of_eq_None_iff split: option.splits dest: map_of_SomeD intro: rev_image_eqI)

lemma cache_cleanup_small:
  assumes "length (mc_cache mc) \<le> mc_max_size mc"
  shows "cache_cleanup now mc = (if now - mc_last_cleanup mc < mc_cleanup_interval mc then mc
    else mc\<lparr>mc_cache := filter (\<lambda>(k, v). now - v \<le> mc_ttl mc) (mc_cache mc), mc_last_cleanup := now\<rparr>)"
proof -
  have "filter (\<lambda>(k, v). \<not> v < now - mc_ttl mc) (mc_cache mc) = filter (\<lambda>(k, v). now - v \<le> mc_ttl mc) (mc_cache mc)"
    by (rule filter_cong) auto
  moreover have "length (filter (\<lambda>(k, v). now - v \<le> mc_ttl mc) (mc_cache mc)) \<le> mc_max_size mc"
    using assms length_filter_le le_trans by blast
  ultimately show ?thesis by (simp add: cache_cleanup_def Let_def)
qed

lemma cleanup_sel:
  assumes "length (mc_cache mc) \<le> mc_max_size mc"
  shows "length (mc_cache (cache_cleanup now mc)) \<le> length (mc_cache mc)"
    "mc_max_size (cache_cleanup now mc) = mc_max_size mc" "mc_ttl (cache_cleanup now mc) = mc_ttl mc"
  unfolding cache_cleanup_small [OF assms] by simp_all

lemma still_seen_cleanup:
  assumes "still_seen k t1 now mc" "length (mc_cache mc) \<le> mc_max_size mc"
  shows "still_seen k t1 now (cache_cleanup now mc)"
  using assms(1) unfolding cache_cleanup_small [OF assms(2)] still_seen_def
  by (auto simp: distinct_filter_keys map_of_filter_key [of _ "\<lambda>v. now - v \<le> mc_ttl mc"] split: if_splits)

lemma still_seen_later: "still_seen k t1 now mc \<Longrightarrow> now \<le> now' \<Longrightarrow> still_seen k t1 now' mc"
  by (auto simp: still_seen_def split: if_splits)

lemma length_dict_set: "length (dict_set k v d) \<le> Suc (length d)"
  by (induction k v d rule: dict_set.induct) auto

lemma length_dict_del: "length (dict_del k d) \<le> length d"
  by (simp add: dict_del_def)

lemma has_seen_fst:
  assumes "still_seen k t1 now mc" "length (mc_cache mc) \<le> mc_max_size mc"
  shows "still_seen k t1 now (fst (has_seen now i mc))" "length (mc_cache (fst (has_seen now i mc))) \<le> length (mc_cache mc)"
    "mc_max_size (fst (has_seen now i mc)) = mc_max_size mc" "mc_ttl (fst (has_seen now i mc)) = mc_ttl mc"
proof -
  let ?m = "cache_cleanup now mc"
  note s = cleanup_sel [OF assms(2), of now] and r = still_seen_cleanup [OF assms]
  have c: "fst (has_seen now i mc) = ?m \<or> (\<exists>k' t. map_of (mc_cache ?m) k' = Some t \<and> now - t > mc_ttl ?m \<and>
      fst (has_seen now i mc) = ?m\<lparr>mc_cache := dict_del k' (mc_cache ?m)\<rparr>)"
    by (auto simp: has_seen_def Let_def split: sum.splits option.splits)
  then show "still_seen k t1 now (fst (has_seen now i mc))"
    using r by (auto simp: still_seen_def distinct_dict_del simp del: map_of_eq_Some_iff split: if_splits)
  show "mc_max_size (fst (has_seen now i mc)) = mc_max_size mc" "mc_ttl (fst (has_seen now i mc)) = mc_ttl mc"
    using c s(2,3) by auto
  show "length (mc_cache (fst (has_seen now i mc))) \<le> length (mc_cache mc)"
    using c s(1) length_dict_del [THEN le_trans, OF s(1)] by auto
qed

lemma mark_seen_other:
  assumes "still_seen k t1 now mc" "Suc (length (mc_cache mc)) \<le> mc_max_size mc" "\<not> op_marks k (Mark i)"
    and "mark_seen now i mc = Inr mc'"
  shows "still_seen k t1 now mc'" "length (mc_cache mc') \<le> Suc (length (mc_cache mc))"
    "mc_max_size mc' = mc_max_size mc" "mc_ttl mc' = mc_ttl mc"
proof -
  obtain k' where k': "dict_key i = Inr k'" "k' \<noteq> k" "mc' = cache_cleanup now (mc\<lparr>mc_cache := dict_set k' now (mc_cache mc)\<rparr>)"
    using assms(3,4) by (auto simp: mark_seen_def bindr_eq_Inr)
  let ?m = "mc\<lparr>mc_cache := dict_set k' now (mc_cache mc)\<rparr>"
  have l: "length (mc_cache ?m) \<le> mc_max_size ?m" using assms(2) length_dict_set [of k' now "mc_cache mc"] by simp
  have "still_seen k t1 now ?m" using assms(1) k'(2) by (auto simp: still_seen_def distinct_dict_set split: if_splits)
  then show "still_seen k t1 now mc'" unfolding k'(3) by (rule still_seen_cleanup [OF _ l])
  show "length (mc_cache mc') \<le> Suc (length (mc_cache mc))" "mc_max_size mc' = mc_max_size mc" "mc_ttl mc' = mc_ttl mc"
    using cleanup_sel [OF l, of now] length_dict_set [of k' now "mc_cache mc"] unfolding k'(3) by simp_all
qed

lemma still_seen_run:
  assumes "still_seen k t1 t mc" "length (mc_cache mc) + length ops \<le> mc_max_size mc"
    and "\<forall>(s, oper) \<in> set ops. \<not> op_marks k oper" "sorted (t # map fst ops @ [t2])"
  shows "still_seen k t1 t2 (cache_run ops mc) \<and> length (mc_cache (cache_run ops mc)) \<le> mc_max_size (cache_run ops mc) \<and>
    mc_ttl (cache_run ops mc) = mc_ttl mc"
  using assms
proof (induction ops mc arbitrary: t rule: cache_run.induct)
  case (1 mc)
  then show ?case by (auto intro: still_seen_later)
next
  case (2 s i ops mc)
  then have r: "still_seen k t1 s mc" by (auto intro: still_seen_later)
  have l: "length (mc_cache mc) \<le> mc_max_size mc" using 2 by simp
  note h = has_seen_fst [OF r l, of i]
  show ?case using 2(1) [OF h(1)] h 2(3-) by auto
next
  case (3 s i ops mc)
  then have r: "still_seen k t1 s mc" by (auto intro: still_seen_later)
  show ?case
  proof (cases "mark_seen s i mc")
    case (Inr mc')
    have "Suc (length (mc_cache mc)) \<le> mc_max_size mc" "\<not> op_marks k (Mark i)" using 3 by auto
    note m = mark_seen_other [OF r this Inr]
    show ?thesis using 3(1) [of s] m 3(3-) Inr by auto
  next
    case Inl
    then show ?thesis using 3(1) [of s] r 3(3-) by auto
  qed
qed

section \<open>Sending\<close>

lemma send_all_data: "Send a bs \<in> set (snd (send_all data pids p)) \<Longrightarrow> bs = data"
  by (induction pids arbitrary: p) (auto simp: case_prod_unfold Let_def split: option.splits)

lemma nm_to_dict_typed:
  "nm_to_dict x = Inr d \<Longrightarrow> \<exists>t. map_of d ''msg_type'' = Some (jstr (message_type_value t))"
  by (auto simp: nm_to_dict_def enum_value_def bindr_eq_Inr split: enum_field.splits)

lemma to_dict_typed:
  assumes "to_dict m = Inr d"
  shows "\<exists>t. map_of d ''msg_type'' = Some (jstr (message_type_value t))"
  using assms
  by (cases m) (auto simp: bindr_eq_Inr share_msg_to_dict_def deletion_token_to_dict_def coc_node_to_dict_def
      peer_status_to_dict_def content_to_dict_def request_to_dict_def response_to_dict_def heartbeat_to_dict_def
      key_exchange_to_dict_def key_exchange_ack_to_dict_def dest!: nm_to_dict_typed)

lemma read_taints_to_dict: "to_dict m = Inr d \<Longrightarrow> read_taints (JObj d)"
  using to_dict_typed [of m d] by (auto simp: read_taints_def type_map_value)

definition first_envelope :: "crypto \<Rightarrow> (nat \<Rightarrow> bool) \<Rightarrow> datetime \<Rightarrow> string \<Rightarrow> (string \<times> json) list \<Rightarrow> gossip_peer \<Rightarrow> gossip_envelope" where
  "first_envelope C pr t0 i d q = ge_sign C pr (gp_signing_key q)
      \<lparr>ge_msg_id = jstr i, ge_payload = JObj d, ge_origin_id = JStr (gp_peer_id q), ge_ttl = JInt DEFAULT_TTL,
       ge_timestamp = JReal t0, ge_path = JList [JStr (gp_peer_id q)], ge_signature = JStr []\<rparr>"

lemma gossip_sends:
  assumes "gossip C pr pick t0 m q = (q', Inr sent)" "Send a bs \<in> set sent" "to_dict m = Inr d"
  shows "\<exists>i. bs = ge_to_bytes (first_envelope C pr t0 i d q)"
proof -
  define i where "i = take 32 (sha256 (utf8 (gp_peer_id q @ ustr_of '':'' @ py_str pr (JReal t0) @ ustr_of '':'' @
                py_str pr (nm_msg_id (msg_base m)))))"
  obtain mc where "mark_seen t0 (jstr i) (gp_seen_messages q) = Inr mc" by (auto simp: mark_seen_def dict_key_def)
  then have "\<exists>pids p. sent = snd (send_all (ge_to_bytes (first_envelope C pr t0 i d q)) pids p)"
    using assms(1,3) unfolding gossip_def Let_def first_envelope_def send_to_peers_def i_def [symmetric]
    by (auto simp: case_prod_unfold)
  then show ?thesis using assms(2) send_all_data by blast
qed

lemma gossipD:
  assumes "gossip C pr pick t0 m q = (q', Inr sent)" "Send a bs \<in> set sent" "msg_ok m" "scalar_text (gp_peer_id q)"
    and "sig_correct C" "sig_nonempty C"
  obtains e d i where "to_dict m = Inr d" "ge_from_bytes now bs = Inr e" "ge_payload e = JObj d"
    "ge_origin_id e = JStr (gp_peer_id q)" "ge_timestamp e = JReal t0" "ge_verify C pr (ed_verify_key C (gp_signing_key q)) e"
    "deserialize_dict pr now rnd (JObj d) = Inr m" "ge_msg_id e = jstr i"
proof -
  obtain d where d: "to_dict m = Inr d" "jwf (JObj d)" "deserialize_dict pr now rnd (JObj d) = Inr m"
    using msg_ok_round_trips [OF assms(3)] unfolding round_trips_def by blast
  obtain i where b: "bs = ge_to_bytes (first_envelope C pr t0 i d q)" using gossip_sends [OF assms(1,2) d(1)] by blast
  let ?e = "first_envelope C pr t0 i d q"
  have "jwf (ge_to_dict ?e)" using assms(4) d(2) by (simp add: first_envelope_def ge_sign_def ge_to_dict_def)
  from ge_round_trip [OF this, of now] have "ge_from_bytes now bs = Inr ?e" by (simp add: b)
  moreover have "ge_verify C pr (ed_verify_key C (gp_signing_key q)) ?e"
    unfolding first_envelope_def by (rule ge_verify_sign [OF assms(5,6)])
  ultimately show thesis using that [OF d(1), of ?e i] d(3) by (simp add: first_envelope_def ge_sign_def)
qed

section \<open>Networks\<close>

lemma gp_add_peer_keys: "gp_peer_keys p = Map.empty \<Longrightarrow> gp_peer_keys (gp_add_peer now pid a c None p) = Map.empty"
  by (auto simp: gp_add_peer_def evict_oldest_peer_def gp_remove_peer_def Let_def split: list.splits)

lemma introduce_keys: "gp_peer_keys p = Map.empty \<Longrightarrow> gp_peer_keys (introduce now others p) = Map.empty"
  unfolding introduce_def by (induction others arbitrary: p) (auto simp: gp_add_peer_keys)

lemma evict_oldest_length:
  assumes "gp_peers p \<noteq> []" "\<forall>(k, i) \<in> set (gp_peers p). pi_peer_id i = k"
  shows "length (gp_peers (evict_oldest_peer p)) < length (gp_peers p)"
proof -
  obtain i is' where s: "sort_key pi_last_seen (map snd (gp_peers p)) = i # is'"
    using assms(1) by (metis list.map_disc_iff list.exhaust set_empty set_sort)
  then have "i \<in> snd ` set (gp_peers p)" by (metis list.set_intros(1) list.set_map set_sort)
  then have "(pi_peer_id i, i) \<in> set (gp_peers p)" using assms(2) by force
  then have "length (dict_del (pi_peer_id i) (gp_peers p)) < length (gp_peers p)"
    unfolding dict_del_def by (intro length_filter_less) auto
  then show ?thesis using s by (simp add: evict_oldest_peer_def gp_remove_peer_def)
qed

lemma pull_request_ignored:
  assumes "jwf ids" "scalar_text s"
  shows "handle_received C pr pick now rnd sender
     (encode (dumps (JObj [(''type'', jstr ''pull_request''), (''sender_id'', JStr s), (''message_ids'', ids)]))) p = (p, [])"
  using assms by (simp add: handle_received_def ge_from_bytes_def deserialize_message_def loads_bytes_dumps ge_from_dict_def
      deserialize_dict_def)

section \<open>The peer table\<close>

definition gp_inv :: "gossip_peer \<Rightarrow> bool" where
  "gp_inv p \<longleftrightarrow> distinct (map fst (gp_peers p)) \<and> (\<forall>(k, i) \<in> set (gp_peers p). pi_peer_id i = k \<and> k \<noteq> gp_peer_id p) \<and>
     length (gp_peers p) \<le> max 1 (gp_max_peers p)"

lemma gp_inv_init: "gp_inv (gossip_peer_init now pid host port fanout max_peers key generated)"
  by (simp add: gp_inv_def gossip_peer_init_def)

lemma gp_inv_remove: "gp_inv p \<Longrightarrow> gp_inv (gp_remove_peer pid p)"
  by (auto simp: gp_inv_def gp_remove_peer_def distinct_dict_del dict_del_def length_filter_le [THEN le_trans]
      intro: distinct_filter_keys)

lemma evict_frame:
  "gp_inv p \<Longrightarrow> gp_inv (evict_oldest_peer p)" "gp_peer_id (evict_oldest_peer p) = gp_peer_id p"
  "gp_max_peers (evict_oldest_peer p) = gp_max_peers p"
  by (auto simp: evict_oldest_peer_def gp_inv_remove split: list.splits) (simp_all add: gp_remove_peer_def)

lemma length_dict_set_known: "k \<in> fst ` set d \<Longrightarrow> length (dict_set k v d) = length d"
  by (induction k v d rule: dict_set.induct) auto

lemma gp_inv_set:
  assumes "gp_inv p" "pid \<noteq> gp_peer_id p" "pi_peer_id i = pid"
    and "length (gp_peers p) < max 1 (gp_max_peers p) \<or> pid \<in> fst ` set (gp_peers p)"
  shows "gp_inv (p\<lparr>gp_peers := dict_set pid i (gp_peers p)\<rparr>)"
proof -
  have "length (dict_set pid i (gp_peers p)) \<le> max 1 (gp_max_peers p)"
    using assms(4)
  proof
    assume "pid \<in> fst ` set (gp_peers p)"
    then show ?thesis using assms(1) length_dict_set_known [of pid "gp_peers p" i] by (simp add: gp_inv_def)
  qed (use length_dict_set [of pid i "gp_peers p"] in simp)
  then show ?thesis using assms(1-3) by (auto simp: gp_inv_def distinct_dict_set dest!: set_dict_set)
qed

lemma gp_inv_keys: "gp_inv (p\<lparr>gp_peer_keys := f\<rparr>) = gp_inv p"
  by (simp add: gp_inv_def)

lemma gp_inv_add_peer:
  assumes "gp_inv p"
  shows "gp_inv (gp_add_peer now pid a caps k p)"
proof (cases "pid = gp_peer_id p")
  case False
  let ?q = "if length (gp_peers p) \<ge> gp_max_peers p \<and> pid \<notin> fst ` set (gp_peers p) then evict_oldest_peer p else p"
  have q: "gp_inv ?q" "gp_peer_id ?q = gp_peer_id p" using assms evict_frame by auto
  have "length (gp_peers ?q) < max 1 (gp_max_peers ?q) \<or> pid \<in> fst ` set (gp_peers ?q)"
  proof (cases "gp_peers p = []")
    case True
    then show ?thesis by (simp add: evict_oldest_peer_def)
  next
    case False
    have "\<forall>(k, i) \<in> set (gp_peers p). pi_peer_id i = k" using assms by (auto simp: gp_inv_def)
    note l = evict_oldest_length [OF False this]
    have m: "length (gp_peers p) \<le> max 1 (gp_max_peers p)" using assms by (simp add: gp_inv_def)
    show ?thesis
    proof (cases "length (gp_peers p) \<ge> gp_max_peers p \<and> pid \<notin> fst ` set (gp_peers p)")
      case True
      then show ?thesis using less_le_trans [OF l m] evict_frame(3) [of p] by simp
    next
      case False
      then have "length (gp_peers p) < gp_max_peers p \<or> pid \<in> fst ` set (gp_peers p)" by linarith
      then show ?thesis unfolding if_not_P [OF False] by (auto simp only: less_max_iff_disj)
    qed
  qed
  from gp_inv_set [OF q(1) _ _ this] False q(2)
  have "gp_inv (?q\<lparr>gp_peers := dict_set pid \<lparr>pi_peer_id = pid, pi_address = a, pi_last_seen = now, pi_status = ONLINE,
      pi_capabilities = (case caps of None \<Rightarrow> {} | Some s \<Rightarrow> s)\<rparr> (gp_peers ?q)\<rparr>)"
    by simp
  then show ?thesis
    unfolding gp_add_peer_def Let_def if_not_P [OF False] by (cases k) (simp_all only: option.case gp_inv_keys)
qed (simp add: gp_add_peer_def assms)

section \<open>Properties\<close>


text \<open>C27: Gossip travels one hop: what a peer gossips is delivered by a receiver that knows the origin's key,
  has a handler for its type and has not seen it, within the window; but reading the payload puts an
  enumeration member into it, so the receiver never forwards it, whoever its peers are.\<close>
theorem gossip_travels_one_hop:
  assumes "sig_correct C" "sig_nonempty C" "msg_ok m" "scalar_text (gp_peer_id q)"
    and "gossip C pr pick t0 m q = (q', Inr sent)" "Send a bs \<in> set sent" "ge_from_bytes now bs = Inr e"
    and "gp_peer_keys p (gp_peer_id q) = Some (ed_verify_key C (gp_signing_key q))"
    and "nm_msg_type (msg_base m) = Member t" "t \<in> gp_handlers p"
    and "snd (has_seen now (ge_msg_id e) (gp_seen_messages p)) = Inr False"
    and "- seconds 60 \<le> now - t0" "now - t0 \<le> seconds 300"
  shows "snd (handle_received C pr pick' now rnd sender bs p) = [Deliver m]"
proof -
  obtain d where d: "to_dict m = Inr d" "ge_payload e = JObj d" "ge_origin_id e = JStr (gp_peer_id q)"
    "ge_timestamp e = JReal t0" "ge_verify C pr (ed_verify_key C (gp_signing_key q)) e"
    "deserialize_dict pr now rnd (JObj d) = Inr m"
    using gossipD [OF assms(5,6,3,4,1,2), of now rnd] assms(7) by (metis sum.inject(2))
  have "accepts C pr now e p"
    using assms(8,11-13) d(3-5) by (auto simp: accepts_def as_number_def)
  then obtain r where "gp_handlers r = gp_handlers p" "snd (handle_received C pr pick' now rnd sender bs p) =
      (case read_payload pr now rnd (ge_payload e) of Inl _ \<Rightarrow> [] | Inr m \<Rightarrow> dispatch_message m r) @
       snd (forward_received pick' (read_taints (ge_payload e)) sender e r)"
    using handle_accepted [OF assms(7)] by metis
  then show ?thesis
    using d(2,6) read_taints_to_dict [OF d(1)] assms(9,10)
    by (simp add: read_payload_def forward_tainted dispatch_message_def)
qed

definition sample_sender :: gossip_peer where
  "sample_sender = (gossip_peer_init 0 (ustr_of ''a'') ''h'' 1 3 50 (Some [1]) [])\<lparr>gp_dealers := [ustr_of ''b'' \<mapsto> ''tcp://h:2''],
     gp_peers := [(ustr_of ''b'', \<lparr>pi_peer_id = ustr_of ''b'', pi_address = ''tcp://h:2'', pi_last_seen = 0, pi_status = ONLINE, pi_capabilities = {}\<rparr>)]\<rparr>"

definition sample_receiver :: gossip_peer where
  "sample_receiver = register_handler HEARTBEAT (register_peer_key (ustr_of ''a'') [1]
     (gossip_peer_init 0 (ustr_of ''b'') ''h'' 2 3 50 (Some [2]) []))"

lemma sample_has_seen: "snd (has_seen 0 (jstr i) (gp_seen_messages sample_receiver)) = Inr False"
  by (simp add: sample_receiver_def register_handler_def register_peer_key_def gossip_peer_init_def message_cache_init_def
      has_seen_def cache_cleanup_def seconds_def dict_key_def)

lemma sample_gossip:
  "\<exists>q' bs. gossip toy_crypto (\<lambda>_. True) (\<lambda>xs n. take n xs) 0 (HeartbeatMessage sample_heartbeat) sample_sender = (q', Inr [Send ''tcp://h:2'' bs])"
proof -
  obtain d where "to_dict (HeartbeatMessage sample_heartbeat) = Inr d"
    using msg_ok_round_trips [OF sample_heartbeat_ok] by (auto simp: round_trips_def)
  then show ?thesis
    by (simp add: gossip_def Let_def mark_seen_def dict_key_def send_to_peers_def select_gossip_targets_def get_dealer_def
        sample_sender_def gossip_peer_init_def)
qed

lemma sample_exchange:
  obtains q' bs e i where
    "gossip toy_crypto (\<lambda>_. True) (\<lambda>xs n. take n xs) 0 (HeartbeatMessage sample_heartbeat) sample_sender = (q', Inr [Send ''tcp://h:2'' bs])"
    "scalar_text (gp_peer_id sample_sender)" "ge_from_bytes 0 bs = Inr e" "ge_msg_id e = jstr i"
proof -
  obtain q' bs where g: "gossip toy_crypto (\<lambda>_. True) (\<lambda>xs n. take n xs) 0 (HeartbeatMessage sample_heartbeat) sample_sender =
      (q', Inr [Send ''tcp://h:2'' bs])"
    using sample_gossip by blast
  have s: "Send ''tcp://h:2'' bs \<in> set [Send ''tcp://h:2'' bs]" "scalar_text (gp_peer_id sample_sender)"
    by (simp_all add: sample_sender_def gossip_peer_init_def)
  from gossipD [OF g s(1) sample_heartbeat_ok s(2) toy_crypto_laws(1,2), of 0 "''''"] show thesis using that [OF g s(2)] by metis
qed

lemma sample_receiver_sel:
  "gp_peer_keys sample_receiver (gp_peer_id sample_sender) = Some (ed_verify_key toy_crypto (gp_signing_key sample_sender))"
  "nm_msg_type (msg_base (HeartbeatMessage sample_heartbeat)) = Member HEARTBEAT" "HEARTBEAT \<in> gp_handlers sample_receiver"
  by (simp_all add: sample_receiver_def register_handler_def register_peer_key_def gossip_peer_init_def sample_sender_def
      toy_key sample_heartbeat_def network_message.truncate_def)

theorem gossip_travels_one_hop_witness:
  "\<exists>q' bs. gossip toy_crypto (\<lambda>_. True) (\<lambda>xs n. take n xs) 0 (HeartbeatMessage sample_heartbeat) sample_sender = (q', Inr [Send ''tcp://h:2'' bs]) \<and>
     snd (handle_received toy_crypto (\<lambda>_. True) (\<lambda>xs n. take n xs) 0 '''' (ustr_of ''a'') bs sample_receiver) = [Deliver (HeartbeatMessage sample_heartbeat)]"
proof -
  obtain q' bs e i where x:
    "gossip toy_crypto (\<lambda>_. True) (\<lambda>xs n. take n xs) 0 (HeartbeatMessage sample_heartbeat) sample_sender = (q', Inr [Send ''tcp://h:2'' bs])"
    "scalar_text (gp_peer_id sample_sender)" "ge_from_bytes 0 bs = Inr e" "ge_msg_id e = jstr i"
    by (rule sample_exchange)
  have "snd (handle_received toy_crypto (\<lambda>_. True) (\<lambda>xs n. take n xs) 0 '''' (ustr_of ''a'') bs sample_receiver) = [Deliver (HeartbeatMessage sample_heartbeat)]"
    by (rule gossip_travels_one_hop [OF toy_crypto_laws(1,2) sample_heartbeat_ok x(2,1) _ x(3) sample_receiver_sel])
      (simp_all add: x(4) sample_has_seen seconds_def)
  then show ?thesis using x(1) by blast
qed


text \<open>C28: The cache still_seen an identifier for exactly its lifetime: whatever other identifiers are looked up
  and marked in between, as long as they fit in the cache, an identifier marked at one time counts as
  seen at a later time exactly if no more than the lifetime has passed. The default lifetime is 300
  seconds, while an envelope dated 60 seconds ahead stays acceptable for 360.\<close>
theorem seen_exactly_for_ttl:
  assumes "distinct (map fst (mc_cache mc))" "mark_seen t1 i mc = Inr mc1" "dict_key i = Inr k"
    and "Suc (length (mc_cache mc)) + length ops \<le> mc_max_size mc" "0 \<le> mc_ttl mc"
    and "\<forall>(s, oper) \<in> set ops. \<not> op_marks k oper" "sorted (t1 # map fst ops @ [t2])"
  shows "snd (has_seen t2 i (cache_run ops mc1)) = Inr (t2 - t1 \<le> mc_ttl mc)"
proof -
  let ?m = "mc\<lparr>mc_cache := dict_set k t1 (mc_cache mc)\<rparr>" and ?r = "cache_run ops mc1"
  have l: "length (mc_cache ?m) \<le> mc_max_size ?m" using assms(4) length_dict_set [of k t1 "mc_cache mc"] by simp
  have mc1: "mc1 = cache_cleanup t1 ?m" using assms(2,3) by (simp add: mark_seen_def)
  have "still_seen k t1 t1 ?m" using assms(1,5) by (simp add: still_seen_def distinct_dict_set del: map_of_eq_Some_iff)
  then have r1: "still_seen k t1 t1 mc1" unfolding mc1 by (rule still_seen_cleanup [OF _ l])
  have "length (mc_cache mc1) + length ops \<le> mc_max_size mc1" "mc_ttl mc1 = mc_ttl mc"
    using cleanup_sel [OF l, of t1] assms(4) length_dict_set [of k t1 "mc_cache mc"] unfolding mc1 by simp_all
  then have r: "still_seen k t1 t2 ?r" "length (mc_cache ?r) \<le> mc_max_size ?r" "mc_ttl ?r = mc_ttl mc"
    using still_seen_run [OF r1 _ assms(6,7)] by auto
  have "still_seen k t1 t2 (cache_cleanup t2 ?r)" by (rule still_seen_cleanup [OF r(1,2)])
  then show ?thesis
    using cleanup_sel(3) [OF r(2), of t2] r(3)
    by (auto simp: has_seen_def Let_def assms(3) still_seen_def simp del: map_of_eq_Some_iff split: if_splits)
qed

theorem seen_exactly_for_ttl_witness:
  "\<exists>mc1. mark_seen 0 (jstr ''m'') (message_cache_init 0) = Inr mc1 \<and>
     snd (has_seen (seconds 300) (jstr ''m'') (cache_run [(seconds 100, Mark (jstr ''n''))] mc1)) = Inr True \<and>
     snd (has_seen (seconds 301) (jstr ''m'') (cache_run [(seconds 100, Mark (jstr ''n''))] mc1)) = Inr False"
proof -
  obtain mc1 where m: "mark_seen 0 (jstr ''m'') (message_cache_init 0) = Inr mc1"
    by (auto simp: mark_seen_def dict_key_def)
  have "snd (has_seen t2 (jstr ''m'') (cache_run [(seconds 100, Mark (jstr ''n''))] mc1)) = Inr (t2 - 0 \<le> mc_ttl (message_cache_init 0))"
    if "seconds 100 \<le> t2" for t2
    by (rule seen_exactly_for_ttl [OF _ m, of "jstr ''m''"])
      (use that in \<open>simp_all add: message_cache_init_def dict_key_def DEFAULT_CACHE_SIZE_def DEFAULT_CACHE_TTL_def seconds_def ustr_of_eq\<close>)
  then show ?thesis using m by (auto simp: message_cache_init_def DEFAULT_CACHE_TTL_def seconds_def)
qed

text \<open>A network started with \<open>start_all\<close> delivers no gossip: the peers are introduced to each other
  without keys, so every envelope any of its peers receives, whoever signed it, has no effect.\<close>
lemma started_network_drops_gossip:
  assumes "n = start_all now (fold (\<lambda>(t, generated, pid, fanout). create_peer t generated pid fanout) cs (gossip_network_init host port))"
    and "get_peer pid n = Some p" "ge_from_bytes t data = Inr e"
  shows "snd (handle_received C pr pick t rnd sender data p) = []"
proof -
  have "\<forall>(pid, p) \<in> set (gn_peers (fold (\<lambda>(t, generated, pid, fanout). create_peer t generated pid fanout) cs (gossip_network_init host port))).
      gp_peer_keys p = Map.empty"
    by (rule fold_invariant [where P = "\<lambda>n. \<forall>(pid, p) \<in> set (gn_peers n). gp_peer_keys p = Map.empty" and Q = "\<lambda>_. True"])
      (auto simp: gossip_network_init_def create_peer_def gossip_peer_init_def dest!: set_dict_set)
  then have "\<forall>(pid, p) \<in> set (gn_peers n). gp_peer_keys p = Map.empty"
    unfolding assms(1) start_all_def by (auto intro: introduce_keys)
  then have "gp_peer_keys p = Map.empty" using assms(2) unfolding get_peer_def by (blast dest: map_of_SomeD)
  then have "\<not> accepts C pr t e p" by (simp add: accepts_def)
  then show ?thesis by (rule handle_rejected [OF assms(3)])
qed

end
