(* ===== verification/Paths.thy ===== *)
theory Paths
  imports Prelude
begin

text \<open>
  \<open>TrustFlowService.find_paths_in_edges\<close> of \<open>trustdocs/trustflow_service.py\<close>: directed paths in a
  list of edges, one shortest path by breadth-first search or all simple paths by depth-first search,
  both bounded in depth.

  An edge is the pair of its two dictionary entries, \<open>None\<close> where an entry is missing. The successors
  of a node are a Python set, which has no fixed iteration order: the operations take the order as an
  argument \<open>order\<close>, and the theorems assume only that it lists each member once. The loops are partial
  functions; that they return is part of what is proved.
\<close>

type_synonym edge = "string option \<times> string option"

definition present :: "string option \<Rightarrow> bool" where
  "present s \<longleftrightarrow> s \<noteq> None \<and> s \<noteq> Some []"

text \<open>The members of the set \<open>adjacency[u]\<close>.\<close>

definition adjacency :: "edge list \<Rightarrow> string \<Rightarrow> string list" where
  "adjacency edges u =
     remdups (map (\<lambda>(frm, to). the to) (filter (\<lambda>(frm, to). present frm \<and> present to \<and> frm = Some u) edges))"

definition clamp :: "int \<Rightarrow> int \<Rightarrow> nat" where
  "clamp hi n = nat (max 1 (min n hi))"

section \<open>The shortest path\<close>

record bfs =
  b_queue :: "string list"
  b_parents :: "string \<rightharpoonup> string"
  b_visited :: "string set"
  b_depth :: "string \<rightharpoonup> nat"

definition bfs_init :: "string \<Rightarrow> bfs" where
  "bfs_init source = \<lparr>b_queue = [source], b_parents = Map.empty, b_visited = {source}, b_depth = [source \<mapsto> 0]\<rparr>"

text \<open>The loop over the successors of \<open>current\<close>; finding the target empties the queue and leaves it.\<close>

fun visit :: "string \<Rightarrow> string \<Rightarrow> nat \<Rightarrow> string list \<Rightarrow> bfs \<Rightarrow> bfs" where
  "visit target current d [] s = s"
| "visit target current d (nxt # ns) s =
     (if nxt \<in> b_visited s then visit target current d ns s
      else
        let s = s\<lparr>b_visited := insert nxt (b_visited s), b_parents := (b_parents s)(nxt \<mapsto> current),
                  b_depth := (b_depth s)(nxt \<mapsto> d + 1)\<rparr>
        in if nxt = target then s\<lparr>b_queue := []\<rparr>
           else visit target current d ns (s\<lparr>b_queue := b_queue s @ [nxt]\<rparr>))"

definition bfs_step :: "(string list \<Rightarrow> string list) \<Rightarrow> edge list \<Rightarrow> string \<Rightarrow> nat \<Rightarrow> bfs \<Rightarrow> bfs" where
  "bfs_step order edges target max_depth s =
     (case b_queue s of
        [] \<Rightarrow> s
      | current # q \<Rightarrow>
          let s = s\<lparr>b_queue := q\<rparr>;
              current_depth = (case b_depth s current of None \<Rightarrow> 0 | Some d \<Rightarrow> d)
          in if current_depth \<ge> max_depth then s
             else visit target current current_depth (order (adjacency edges current)) s)"

partial_function (option) bfs_loop ::
  "(string list \<Rightarrow> string list) \<Rightarrow> edge list \<Rightarrow> string \<Rightarrow> nat \<Rightarrow> bfs \<Rightarrow> bfs option" where
  "bfs_loop order edges target max_depth s =
     (if b_queue s = [] then Some s else bfs_loop order edges target max_depth (bfs_step order edges target max_depth s))"

text \<open>The walk from the target back along the parents; the argument is the path found so far.\<close>

partial_function (option) walk_back :: "(string \<rightharpoonup> string) \<Rightarrow> string list \<Rightarrow> string list option" where
  "walk_back parents path =
     (case parents (hd path) of None \<Rightarrow> Some path | Some p \<Rightarrow> walk_back parents (p # path))"

definition shortest_path ::
  "(string list \<Rightarrow> string list) \<Rightarrow> edge list \<Rightarrow> string \<Rightarrow> string \<Rightarrow> nat \<Rightarrow> string list option option" where
  "shortest_path order edges source target max_depth =
     Option.bind (bfs_loop order edges target max_depth (bfs_init source)) (\<lambda>s.
       if b_parents s target = None then Some None
       else Option.bind (walk_back (b_parents s) [target]) (\<lambda>p. Some (Some p)))"

section \<open>All paths\<close>

text \<open>The list \<open>collected_paths\<close> and the flag \<open>truncated\<close>.\<close>

type_synonym found = "string list list \<times> bool"

fun each :: "(string \<Rightarrow> found \<Rightarrow> found) \<Rightarrow> string set \<Rightarrow> string list \<Rightarrow> found \<Rightarrow> found" where
  "each f seen [] st = st"
| "each f seen (nxt # ns) st =
     (if nxt \<in> seen then each f seen ns st
      else let st = f nxt st in if snd st then st else each f seen ns st)"

text \<open>The first argument is \<open>max_depth + 1 - (len(trail) - 1)\<close>: it is 0 when the trail is too long.\<close>

fun dfs ::
  "nat \<Rightarrow> (string list \<Rightarrow> string list) \<Rightarrow> edge list \<Rightarrow> string \<Rightarrow> nat \<Rightarrow> string \<Rightarrow> string list \<Rightarrow> string set \<Rightarrow> found \<Rightarrow> found" where
  "dfs 0 order edges target max_paths current trail seen st = st"
| "dfs (Suc r) order edges target max_paths current trail seen st =
     (if snd st then st
      else if current = target then
        (let collected = fst st @ [trail] in (collected, length collected \<ge> max_paths))
      else each (\<lambda>nxt. dfs r order edges target max_paths nxt (trail @ [nxt]) (insert nxt seen)) seen
             (order (adjacency edges current)) st)"

section \<open>The operation\<close>

record path_result =
  pr_paths :: "(string list \<times> (string \<times> string) list) list"
  pr_path_count :: nat
  pr_truncated :: bool

definition with_edges :: "string list \<Rightarrow> string list \<times> (string \<times> string) list" where
  "with_edges p = (p, map (\<lambda>i. (p ! i, p ! (i + 1))) [0..<length p - 1])"

text \<open>\<open>None\<close> when a loop does not end; the mode, source and target are copied into the result.\<close>

definition find_paths_in_edges ::
  "(string list \<Rightarrow> string list) \<Rightarrow> edge list \<Rightarrow> string \<Rightarrow> string \<Rightarrow> string \<Rightarrow> int \<Rightarrow> int \<Rightarrow> path_result result option" where
  "find_paths_in_edges order edges source target mode max_paths max_depth =
     (if mode \<notin> {''shortest'', ''all''} then Some (Inl ValueError)
      else
        let max_paths = clamp 200 max_paths;
            max_depth = clamp 64 max_depth
        in if source = target then
             Some (Inr \<lparr>pr_paths = [([source], [])], pr_path_count = 1, pr_truncated = False\<rparr>)
           else if mode = ''shortest'' then
             map_option (\<lambda>p. case p of
                 None \<Rightarrow> Inr \<lparr>pr_paths = [], pr_path_count = 0, pr_truncated = False\<rparr>
               | Some p \<Rightarrow> Inr \<lparr>pr_paths = [with_edges p], pr_path_count = 1, pr_truncated = False\<rparr>)
               (shortest_path order edges source target max_depth)
           else
             let (collected, truncated) = dfs (Suc max_depth) order edges target max_paths source [source] {source} ([], False);
                 paths = map with_edges collected
             in Some (Inr \<lparr>pr_paths = paths, pr_path_count = length paths, pr_truncated = truncated\<rparr>))"

section \<open>Walks\<close>

fun walk :: "edge list \<Rightarrow> string list \<Rightarrow> bool" where
  "walk edges [] = False"
| "walk edges [a] = True"
| "walk edges (a # b # p) = (b \<in> set (adjacency edges a) \<and> walk edges (b # p))"

definition connects :: "edge list \<Rightarrow> string \<Rightarrow> string \<Rightarrow> string list \<Rightarrow> bool" where
  "connects edges a b p \<longleftrightarrow> walk edges p \<and> hd p = a \<and> last p = b"

text \<open>The number of edges of a walk.\<close>

abbreviation hops :: "string list \<Rightarrow> nat" where
  "hops p \<equiv> length p - 1"

lemma walk_nonempty: "walk edges p \<Longrightarrow> p \<noteq> []"
  by auto

lemma walk_snoc: "walk edges (p @ [b]) \<longleftrightarrow> p = [] \<or> walk edges p \<and> b \<in> set (adjacency edges (last p))"
  by (induction edges p rule: walk.induct) auto

lemma connects_snoc:
  "connects edges a b p \<Longrightarrow> c \<in> set (adjacency edges b) \<Longrightarrow> connects edges a c (p @ [c])"
  using walk_nonempty [of edges p] by (auto simp: connects_def walk_snoc)

lemma connects_snocE:
  assumes "connects edges a b p" "a \<noteq> b"
  obtains q c where "p = q @ [b]" "connects edges a c q" "b \<in> set (adjacency edges c)"
proof -
  have "p \<noteq> []" using assms(1) walk_nonempty by (auto simp: connects_def)
  then obtain q where q: "p = q @ [b]" using assms(1) by (metis append_butlast_last_id connects_def)
  then have "q \<noteq> []" using assms by (auto simp: connects_def)
  then show thesis using that [OF q, of "last q"] assms(1) q by (auto simp: connects_def walk_snoc)
qed

definition lists_members :: "(string list \<Rightarrow> string list) \<Rightarrow> bool" where
  "lists_members order \<longleftrightarrow> (\<forall>xs. distinct xs \<longrightarrow> distinct (order xs) \<and> set (order xs) = set xs)"

lemma distinct_adjacency [simp]: "distinct (adjacency edges u)"
  by (simp add: adjacency_def)

lemma order_adjacency:
  assumes "lists_members order"
  shows "distinct (order (adjacency edges u))" "set (order (adjacency edges u)) = set (adjacency edges u)"
  using assms by (simp_all add: lists_members_def)

definition universe :: "edge list \<Rightarrow> string set" where
  "universe edges = set (map (\<lambda>(frm, to). the to) edges)"

lemma adjacency_universe: "set (adjacency edges u) \<subseteq> universe edges"
  by (auto simp: adjacency_def universe_def)

section \<open>Breadth-first search\<close>

definition extend :: "string \<Rightarrow> nat \<Rightarrow> string list \<Rightarrow> bfs \<Rightarrow> bfs" where
  "extend c d new s = s\<lparr>b_visited := b_visited s \<union> set new,
     b_parents := (\<lambda>v. if v \<in> set new then Some c else b_parents s v),
     b_depth := (\<lambda>v. if v \<in> set new then Some (d + 1) else b_depth s v)\<rparr>"

lemma extend_sel [simp]:
  "b_visited (extend c d new s) = b_visited s \<union> set new"
  "b_parents (extend c d new s) v = (if v \<in> set new then Some c else b_parents s v)"
  "b_depth (extend c d new s) v = (if v \<in> set new then Some (d + 1) else b_depth s v)"
  "b_queue (extend c d new s) = b_queue s"
  by (simp_all add: extend_def)

lemma visit_spec:
  assumes "distinct ns"
  shows "visit t c d ns s =
    (let new = filter (\<lambda>v. v \<notin> b_visited s) ns
     in if t \<in> set new then (extend c d (takeWhile (\<lambda>v. v \<noteq> t) new @ [t]) s)\<lparr>b_queue := []\<rparr>
        else (extend c d new s)\<lparr>b_queue := b_queue s @ new\<rparr>)"
  using assms
proof (induction ns arbitrary: s)
  case Nil
  then show ?case by (simp add: extend_def)
next
  case (Cons n ns)
  show ?case
  proof (cases "n \<in> b_visited s")
    case True
    then show ?thesis using Cons by simp
  next
    case False
    define s1 where "s1 = (extend c d [n] s)\<lparr>b_queue := b_queue s @ [n]\<rparr>"
    have e: "(extend c d xs s1)\<lparr>b_queue := q\<rparr> = (extend c d (n # xs) s)\<lparr>b_queue := q\<rparr>" for xs q
      by (auto simp: extend_def s1_def fun_eq_iff)
    have v: "b_visited s1 = insert n (b_visited s)" "b_queue s1 = b_queue s @ [n]" by (simp_all add: s1_def)
    have f: "filter (\<lambda>v. v \<notin> b_visited s1) ns = filter (\<lambda>v. v \<notin> b_visited s) ns"
      using Cons.prems by (intro filter_cong) (auto simp: v)
    have n: "visit t c d (n # ns) s = (if n = t then (extend c d [n] s)\<lparr>b_queue := []\<rparr> else visit t c d ns s1)"
      using False by (simp add: Let_def s1_def extend_def fun_upd_def cong: if_cong)
    show ?thesis
    proof (cases "n = t")
      case True
      then show ?thesis using False unfolding n by simp
    next
      case nt: False
      then show ?thesis
        using Cons.IH [of s1] Cons.prems False unfolding n f v(2) by (simp add: Let_def e)
    qed
  qed
qed

definition dep :: "bfs \<Rightarrow> string \<Rightarrow> nat" where
  "dep s v = the (b_depth s v)"

text \<open>The parents form a tree of walks from the source.\<close>

definition tree :: "edge list \<Rightarrow> string \<Rightarrow> bfs \<Rightarrow> bool" where
  "tree edges source s \<longleftrightarrow>
     source \<in> b_visited s \<and> b_depth s source = Some 0 \<and> b_parents s source = None \<and>
     (\<forall>v. v \<in> b_visited s \<longleftrightarrow> b_depth s v \<noteq> None) \<and>
     (\<forall>v \<in> b_visited s. v \<noteq> source \<longrightarrow> (\<exists>u. b_parents s v = Some u \<and> u \<in> b_visited s \<and>
        v \<in> set (adjacency edges u) \<and> dep s v = dep s u + 1)) \<and>
     (\<forall>v. v \<notin> b_visited s \<longrightarrow> b_parents s v = None)"

definition frontier :: "edge list \<Rightarrow> nat \<Rightarrow> bfs \<Rightarrow> bool" where
  "frontier edges M s \<longleftrightarrow>
     set (b_queue s) \<subseteq> b_visited s \<and> sorted (map (dep s) (b_queue s)) \<and>
     (\<forall>c q. b_queue s = c # q \<longrightarrow> (\<forall>v \<in> b_visited s. dep s v \<le> dep s c + 1)) \<and>
     (\<forall>u \<in> b_visited s - set (b_queue s). dep s u < M \<longrightarrow>
        (\<forall>v \<in> set (adjacency edges u). v \<in> b_visited s \<and> dep s v \<le> dep s u + 1))"

lemma walks_visited:
  assumes "tree edges source s" "frontier edges M s" "\<forall>u \<in> set (b_queue s). d \<le> dep s u" "d \<le> M"
    and "connects edges source v p" "hops p \<le> d"
  shows "v \<in> b_visited s \<and> dep s v \<le> hops p"
  using assms(5,6)
proof (induction p arbitrary: v rule: rev_induct)
  case Nil
  then show ?case by (simp add: connects_def)
next
  case (snoc b p)
  show ?case
  proof (cases "source = v")
    case True
    then show ?thesis using assms(1) by (auto simp: tree_def dep_def)
  next
    case False
    obtain q c where q: "p @ [b] = q @ [v]" "connects edges source c q" "v \<in> set (adjacency edges c)"
      using connects_snocE [OF snoc.prems(1) False] by metis
    then have qp: "q = p" by simp
    have ne: "p \<noteq> []" using q(2) walk_nonempty by (auto simp: connects_def qp)
    then have h: "hops (p @ [b]) = Suc (hops p)" by (cases p) auto
    have ih: "c \<in> b_visited s" "dep s c \<le> hops p" using snoc.IH [of c] q(2) snoc.prems(2) h by (auto simp: qp)
    then have "dep s c < d" using snoc.prems(2) h by linarith
    then have "c \<notin> set (b_queue s)" using assms(3) by fastforce
    then have "v \<in> b_visited s \<and> dep s v \<le> dep s c + 1"
      using assms(2,4) ih(1) q(3) \<open>dep s c < d\<close> unfolding frontier_def by auto
    then show ?thesis using ih(2) h by linarith
  qed
qed

lemma tree_extend:
  assumes "tree edges source s" "c \<in> b_visited s" "dep s c = d" "set new \<subseteq> set (adjacency edges c)" "set new \<inter> b_visited s = {}"
  shows "tree edges source ((extend c d new s)\<lparr>b_queue := q\<rparr>)"
proof -
  let ?s = "(extend c d new s)\<lparr>b_queue := q\<rparr>"
  have dold: "dep ?s v = dep s v" if "v \<in> b_visited s" for v using that assms(5) by (auto simp: dep_def)
  have dnew: "dep ?s v = d + 1" if "v \<in> set new" for v using that by (simp add: dep_def)
  have src: "source \<in> b_visited s" "source \<notin> set new" using assms(1,5) by (auto simp: tree_def)
  have "\<exists>u. b_parents ?s v = Some u \<and> u \<in> b_visited ?s \<and> v \<in> set (adjacency edges u) \<and> dep ?s v = dep ?s u + 1"
    if vv: "v \<in> b_visited ?s" "v \<noteq> source" for v
  proof (cases "v \<in> set new")
    case True
    then show ?thesis using assms(2-4) dold [OF assms(2)] dnew by auto
  next
    case False
    then have "v \<in> b_visited s" using vv(1) by simp
    then obtain u where "b_parents s v = Some u" "u \<in> b_visited s" "v \<in> set (adjacency edges u)" "dep s v = dep s u + 1"
      using vv(2) assms(1) unfolding tree_def by blast
    then show ?thesis using False dold vv by auto
  qed
  then show ?thesis using assms(1,5) src unfolding tree_def by auto
qed

lemma queue_upd: "b_queue (s\<lparr>b_queue := q\<rparr>) = q"
  by simp

lemma frontier_pop:
  assumes "frontier edges M s" "b_queue s = c # q" "M \<le> dep s c"
  shows "frontier edges M (s\<lparr>b_queue := q\<rparr>)"
proof -
  let ?s = "s\<lparr>b_queue := q\<rparr>"
  have d: "dep ?s = dep s" by (auto simp: dep_def fun_eq_iff)
  have fr: "set q \<subseteq> b_visited s" "sorted (map (dep s) (c # q))" "\<forall>v \<in> b_visited s. dep s v \<le> dep s c + 1"
    using assms(1,2) by (auto simp: frontier_def)
  show ?thesis
    unfolding frontier_def d queue_upd
  proof (intro conjI allI impI ballI)
    fix c' q' v assume *: "q = c' # q'" "v \<in> b_visited ?s"
    then have "dep s c \<le> dep s c'" using fr(2) by simp
    then show "dep s v \<le> dep s c' + 1" using * fr(3) by fastforce
  next
    fix u v assume *: "u \<in> b_visited ?s - set q" "dep s u < M" "v \<in> set (adjacency edges u)"
    then have "u \<in> b_visited s - set (b_queue s)" using assms(2,3) by auto
    then show "v \<in> b_visited ?s" "dep s v \<le> dep s u + 1" using assms(1) *(2,3) unfolding frontier_def by auto
  qed (use fr in simp_all)
qed

lemma dep_extend:
  "v \<notin> set new \<Longrightarrow> dep ((extend c d new s)\<lparr>b_queue := q\<rparr>) v = dep s v"
  "v \<in> set new \<Longrightarrow> dep ((extend c d new s)\<lparr>b_queue := q\<rparr>) v = d + 1"
  by (simp_all add: dep_def)

lemma frontier_expand:
  assumes "frontier edges M s" "b_queue s = c # q" "dep s c = d" "new = filter (\<lambda>v. v \<notin> b_visited s) ns"
    and "set ns = set (adjacency edges c)"
  shows "frontier edges M ((extend c d new s)\<lparr>b_queue := q @ new\<rparr>)"
proof -
  let ?s = "(extend c d new s)\<lparr>b_queue := q @ new\<rparr>"
  have cv: "c \<in> b_visited s" using assms(1,2) by (auto simp: frontier_def)
  have fr: "set q \<subseteq> b_visited s" "sorted (map (dep s) (c # q))" "\<forall>v \<in> b_visited s. dep s v \<le> d + 1"
    using assms(1-3) by (auto simp: frontier_def)
  have nv: "v \<notin> b_visited s" if "v \<in> set new" for v using that assms(4) by simp
  have old: "dep ?s v = dep s v" if "v \<in> b_visited s" for v using that nv by (intro dep_extend(1)) blast
  have le: "dep ?s v \<le> d + 1" if "v \<in> b_visited ?s" for v
    using that fr(3) old dep_extend(2) [of v new _ c d s] by (cases "v \<in> set new") auto
  have ge: "d \<le> dep ?s u" if "u \<in> set (q @ new)" for u
    using that fr(1,2) old dep_extend(2) [of u new _ c d s] assms(3) by (cases "u \<in> set new") auto
  have m1: "map (dep ?s) q = map (dep s) q" using old fr(1) by auto
  have m2: "map (dep ?s) new = replicate (length new) (d + 1)"
    by (subst map_replicate_const [symmetric]) (simp add: dep_extend(2))
  have srt: "sorted (map (dep ?s) (q @ new))"
    unfolding map_append m1 m2 using fr by (auto simp: sorted_append)
  have proc: "v \<in> b_visited ?s \<and> dep ?s v \<le> dep ?s u + 1"
    if u: "u \<in> b_visited ?s - set (q @ new)" "dep ?s u < M" "v \<in> set (adjacency edges u)" for u v
  proof (cases "u = c")
    case True
    have "v \<in> b_visited ?s" using u(3) assms(4,5) True by auto
    moreover have "dep ?s u = d" using True assms(3) old [of c] cv by simp
    ultimately show ?thesis using le [of v] by linarith
  next
    case False
    have uv: "u \<in> b_visited s" "u \<notin> set (b_queue s)" using u(1) False assms(2) by auto
    then have "v \<in> b_visited s \<and> dep s v \<le> dep s u + 1"
      using assms(1) u(2,3) old [OF uv(1)] unfolding frontier_def by auto
    then show ?thesis using old uv(1) by auto
  qed
  show ?thesis
    unfolding frontier_def
  proof (intro conjI allI impI ballI)
    show "set (b_queue ?s) \<subseteq> b_visited ?s" using fr(1) by auto
    show "sorted (map (dep ?s) (b_queue ?s))" using srt by simp
  next
    fix c' q' v assume "b_queue ?s = c' # q'" "v \<in> b_visited ?s"
    moreover from this(1) have "c' \<in> set (q @ new)" by (simp only: queue_upd) (metis list.set_intros(1))
    ultimately show "dep ?s v \<le> dep ?s c' + 1" using ge [of c'] le [of v] by linarith
  next
    fix u v assume "u \<in> b_visited ?s - set (b_queue ?s)" "dep ?s u < M" "v \<in> set (adjacency edges u)"
    then show "v \<in> b_visited ?s" "dep ?s v \<le> dep ?s u + 1" using proc [of u v] by auto
  qed
qed

definition bfs_found :: "edge list \<Rightarrow> string \<Rightarrow> string \<Rightarrow> nat \<Rightarrow> bfs \<Rightarrow> bool" where
  "bfs_found edges source target M s \<longleftrightarrow> tree edges source s \<and> target \<in> b_visited s \<and> dep s target \<le> M \<and>
     (\<forall>p. connects edges source target p \<longrightarrow> dep s target \<le> hops p)"

definition bfs_size :: "edge list \<Rightarrow> bfs \<Rightarrow> nat" where
  "bfs_size edges s = card (universe edges - b_visited s) + length (b_queue s)"

lemma bfs_step_cases:
  assumes "lists_members order" "tree edges source s" "frontier edges M s" "target \<notin> b_visited s" "b_queue s = c # q"
  defines "s' \<equiv> bfs_step order edges target M s"
  shows "bfs_found edges source target M s' \<and> b_queue s' = [] \<or>
    tree edges source s' \<and> frontier edges M s' \<and> target \<notin> b_visited s' \<and> bfs_size edges s' < bfs_size edges s"
proof -
  define d where "d = dep s c"
  have cv: "c \<in> b_visited s" using assms(3,5) by (auto simp: frontier_def)
  then have dc: "b_depth s c = Some d" using assms(2) by (auto simp: tree_def dep_def d_def)
  have t0: "tree edges source (s\<lparr>b_queue := q\<rparr>)"
    using tree_extend [OF assms(2) cv, of d "[]" q] by (simp add: d_def) (simp add: extend_def)
  show ?thesis
  proof (cases "M \<le> d")
    case True
    then have s': "s' = s\<lparr>b_queue := q\<rparr>" using assms(5) dc by (simp add: s'_def bfs_step_def)
    have "frontier edges M s'" unfolding s' by (rule frontier_pop [OF assms(3,5)]) (use True d_def in simp)
    then show ?thesis using t0 assms(4,5) by (simp add: s' bfs_size_def)
  next
    case False
    define ns where "ns = order (adjacency edges c)"
    define new where "new = filter (\<lambda>v. v \<notin> b_visited s) ns"
    have ns: "distinct ns" "set ns = set (adjacency edges c)" using order_adjacency [OF assms(1)] by (simp_all add: ns_def)
    have new: "distinct new" "set new \<subseteq> set (adjacency edges c)" "set new \<inter> b_visited s = {}" using ns by (auto simp: new_def)
    have ex: "(extend c d xs (s\<lparr>b_queue := q\<rparr>))\<lparr>b_queue := r\<rparr> = (extend c d xs s)\<lparr>b_queue := r\<rparr>" for xs r
      by (simp add: extend_def cong: if_cong)
    have "s' = visit target c d ns (s\<lparr>b_queue := q\<rparr>)" using False assms(5) dc by (simp add: s'_def bfs_step_def ns_def)
    then have s': "s' = (if target \<in> set new then (extend c d (takeWhile (\<lambda>v. v \<noteq> target) new @ [target]) s)\<lparr>b_queue := []\<rparr>
        else (extend c d new s)\<lparr>b_queue := q @ new\<rparr>)"
      unfolding visit_spec [OF ns(1)] Let_def by (simp add: ex new_def [symmetric])
    show ?thesis
    proof (cases "target \<in> set new")
      case True
      let ?pre = "takeWhile (\<lambda>v. v \<noteq> target) new @ [target]"
      have pre: "set ?pre \<subseteq> set new" using True set_takeWhileD by fastforce
      have s1: "s' = (extend c d ?pre s)\<lparr>b_queue := []\<rparr>" using s' True by simp
      have "tree edges source s'" unfolding s1 using pre new by (intro tree_extend [OF assms(2) cv]) (auto simp: d_def)
      moreover have dt: "dep s' target = d + 1" unfolding s1 by (rule dep_extend(2)) simp
      moreover have "d + 1 \<le> hops p" if "connects edges source target p" for p
      proof (rule ccontr)
        assume "\<not> d + 1 \<le> hops p"
        then have "hops p \<le> d" by simp
        moreover have "\<forall>u \<in> set (b_queue s). d \<le> dep s u" using assms(3,5) by (auto simp: frontier_def d_def)
        ultimately have "target \<in> b_visited s" using walks_visited [OF assms(2,3) _ _ that] False by simp
        then show False using assms(4) by simp
      qed
      ultimately have "bfs_found edges source target M s'" using False by (simp add: bfs_found_def s1)
      then show ?thesis by (simp add: s1)
    next
      case nt: False
      have s1: "s' = (extend c d new s)\<lparr>b_queue := q @ new\<rparr>" using s' nt by simp
      have "frontier edges M s'" unfolding s1 by (rule frontier_expand [OF assms(3,5) _ new_def ns(2)]) (simp add: d_def)
      moreover have "tree edges source s'" unfolding s1 using new by (intro tree_extend [OF assms(2) cv]) (auto simp: d_def)
      moreover have "card (universe edges - b_visited s') + length new = card (universe edges - b_visited s)"
      proof -
        have fin: "finite (universe edges - b_visited s)" by (simp add: universe_def)
        have sub: "set new \<subseteq> universe edges - b_visited s" using new adjacency_universe by blast
        have "universe edges - b_visited s' = (universe edges - b_visited s) - set new" by (auto simp: s1)
        moreover have "card (set new) = length new" using new(1) by (rule distinct_card)
        ultimately show ?thesis using card_Diff_subset [OF _ sub] card_mono [OF fin sub] by simp
      qed
      ultimately show ?thesis using assms(4,5) nt by (simp add: bfs_size_def s1)
    qed
  qed
qed

lemma bfs_loop_empty: "b_queue s = [] \<Longrightarrow> bfs_loop order edges target M s = Some s"
  by (subst bfs_loop.simps) simp

lemma bfs_loop_returns:
  assumes "lists_members order" "tree edges source s" "frontier edges M s" "target \<notin> b_visited s"
  shows "\<exists>s'. bfs_loop order edges target M s = Some s' \<and> (bfs_found edges source target M s' \<or>
    tree edges source s' \<and> frontier edges M s' \<and> b_queue s' = [] \<and> target \<notin> b_visited s')"
  using assms(2-4)
proof (induction "bfs_size edges s" arbitrary: s rule: less_induct)
  case less
  show ?case
  proof (cases "b_queue s")
    case Nil
    then show ?thesis using less.prems by (simp add: bfs_loop_empty)
  next
    case (Cons c q)
    then have l: "bfs_loop order edges target M s = bfs_loop order edges target M (bfs_step order edges target M s)"
      by (subst bfs_loop.simps) simp
    show ?thesis
      using bfs_step_cases [OF assms(1) less.prems Cons] less.hyps [of "bfs_step order edges target M s"] bfs_loop_empty
      unfolding l by blast
  qed
qed

lemma walk_back_path:
  assumes "tree edges source s"
  shows "v \<in> b_visited s \<Longrightarrow> dep s v = k \<Longrightarrow>
    \<exists>p. walk_back (b_parents s) (v # rest) = Some (p @ rest) \<and> connects edges source v p \<and> hops p = k"
proof (induction k arbitrary: v rest)
  case 0
  then have "v = source" using assms unfolding tree_def by fastforce
  then show ?case using assms by (subst walk_back.simps) (auto simp: tree_def connects_def intro: exI [of _ "[source]"])
next
  case (Suc k)
  then have "v \<noteq> source" using assms by (auto simp: tree_def dep_def)
  then obtain u where u: "b_parents s v = Some u" "u \<in> b_visited s" "v \<in> set (adjacency edges u)" "dep s v = dep s u + 1"
    using assms Suc.prems(1) unfolding tree_def by blast
  obtain p where p: "walk_back (b_parents s) (u # v # rest) = Some (p @ v # rest)" "connects edges source u p" "hops p = k"
    using Suc.IH [OF u(2), of "v # rest"] u(4) Suc.prems(2) by auto
  have "p \<noteq> []" using p(2) walk_nonempty by (auto simp: connects_def)
  then have "hops (p @ [v]) = Suc k" using p(3) by (cases p) auto
  moreover have "walk_back (b_parents s) (v # rest) = Some ((p @ [v]) @ rest)" using p(1) u(1) by (subst walk_back.simps) simp
  ultimately show ?case using connects_snoc [OF p(2) u(3)] by blast
qed

lemma shortest_path_correct:
  assumes "lists_members order" "source \<noteq> target"
  shows "\<exists>r. shortest_path order edges source target M = Some r \<and>
    (case r of
       None \<Rightarrow> \<forall>p. connects edges source target p \<longrightarrow> hops p > M
     | Some p \<Rightarrow> connects edges source target p \<and> hops p \<le> M \<and> (\<forall>q. connects edges source target q \<longrightarrow> hops p \<le> hops q))"
proof -
  let ?s = "bfs_init source"
  have i: "tree edges source ?s" "frontier edges M ?s" "target \<notin> b_visited ?s"
    using assms(2) by (auto simp: bfs_init_def tree_def frontier_def dep_def)
  obtain s where s: "bfs_loop order edges target M ?s = Some s" "bfs_found edges source target M s \<or>
      tree edges source s \<and> frontier edges M s \<and> b_queue s = [] \<and> target \<notin> b_visited s"
    using bfs_loop_returns [OF assms(1) i] by blast
  show ?thesis
  proof (cases "bfs_found edges source target M s")
    case True
    then have t: "tree edges source s" "target \<in> b_visited s" by (auto simp: bfs_found_def)
    obtain p where p: "walk_back (b_parents s) [target] = Some p" "connects edges source target p" "hops p = dep s target"
      using walk_back_path [OF t refl, of "[]"] by auto
    have "b_parents s target \<noteq> None" using t assms(2) unfolding tree_def by fastforce
    then have "shortest_path order edges source target M = Some (Some p)" using p(1) s(1) by (simp add: shortest_path_def)
    then show ?thesis using p True by (simp add: bfs_found_def)
  next
    case False
    with s(2) have f: "tree edges source s" "frontier edges M s" "b_queue s = []" "target \<notin> b_visited s" by auto
    then have "b_parents s target = None" by (simp add: tree_def)
    moreover have "hops p > M" if "connects edges source target p" for p
      using walks_visited [OF f(1,2) _ order_refl that] f(3,4) by fastforce
    ultimately show ?thesis using s(1) by (simp add: shortest_path_def)
  qed
qed

section \<open>Depth-first search\<close>

text \<open>The paths a trail extends to, in the order they are found.\<close>

fun trails :: "nat \<Rightarrow> (string list \<Rightarrow> string list) \<Rightarrow> edge list \<Rightarrow> string \<Rightarrow> string \<Rightarrow> string list \<Rightarrow> string set \<Rightarrow> string list list" where
  "trails 0 order edges target current trail seen = []"
| "trails (Suc r) order edges target current trail seen =
     (if current = target then [trail]
      else concat (map (\<lambda>nxt. trails r order edges target nxt (trail @ [nxt]) (insert nxt seen))
             (filter (\<lambda>nxt. nxt \<notin> seen) (order (adjacency edges current)))))"

definition collect :: "nat \<Rightarrow> string list list \<Rightarrow> found \<Rightarrow> found" where
  "collect m ps st = (if snd st then st else (take m (fst st @ ps), length (fst st @ ps) \<ge> m))"

definition open_found :: "nat \<Rightarrow> found \<Rightarrow> bool" where
  "open_found m st \<longleftrightarrow> snd st \<or> length (fst st) < m"

lemma collect_append: "open_found m st \<Longrightarrow> collect m (ps @ qs) st = collect m qs (collect m ps st)"
  by (auto simp: collect_def open_found_def)

lemma open_collect: "open_found m st \<Longrightarrow> open_found m (collect m ps st)"
  by (auto simp: collect_def open_found_def)

lemma collect_Nil: "open_found m st \<Longrightarrow> collect m [] st = st"
  by (cases st) (auto simp: collect_def open_found_def)

lemma each_collect:
  assumes "\<And>n st. n \<notin> seen \<Longrightarrow> open_found m st \<Longrightarrow> f n st = collect m (g n) st"
  shows "open_found m st \<Longrightarrow> each f seen ns st = collect m (concat (map g (filter (\<lambda>n. n \<notin> seen) ns))) st"
proof (induction ns arbitrary: st)
  case Nil
  then show ?case by (simp add: collect_Nil)
next
  case (Cons n ns)
  show ?case
  proof (cases "n \<in> seen")
    case False
    have "each f seen ns (collect m (g n) st) = collect m (g n) st" if "snd (collect m (g n) st)"
      using Cons.IH [OF open_collect [OF Cons.prems]] that by (simp add: collect_def)
    then show ?thesis
      using False Cons assms [OF False Cons.prems] open_collect collect_append by (simp add: Let_def)
  qed (use Cons in simp)
qed

lemma dfs_collect:
  "open_found m st \<Longrightarrow> dfs r order edges target m current trail seen st = collect m (trails r order edges target current trail seen) st"
proof (induction r arbitrary: current trail seen st)
  case 0
  then show ?case by (simp add: collect_Nil)
next
  case (Suc r)
  show ?case
  proof (cases "snd st \<or> current = target")
    case True
    then show ?thesis using Suc.prems by (auto simp: collect_def open_found_def Let_def)
  next
    case False
    have "each (\<lambda>nxt. dfs r order edges target m nxt (trail @ [nxt]) (insert nxt seen)) seen (order (adjacency edges current)) st =
        collect m (concat (map (\<lambda>nxt. trails r order edges target nxt (trail @ [nxt]) (insert nxt seen))
          (filter (\<lambda>n. n \<notin> seen) (order (adjacency edges current))))) st"
      using Suc.prems by (intro each_collect Suc.IH)
    then show ?thesis using False by simp
  qed
qed

text \<open>The simple paths that extend a trail.\<close>

lemma trails_iff:
  assumes "lists_members order"
  shows "seen = set trail \<Longrightarrow> trail \<noteq> [] \<Longrightarrow> last trail = current \<Longrightarrow>
    p \<in> set (trails r order edges target current trail seen) \<longleftrightarrow>
    (\<exists>q. p = trail @ q \<and> walk edges (current # q) \<and> last (current # q) = target \<and> target \<notin> set (butlast (current # q)) \<and>
       distinct q \<and> set q \<inter> set trail = {} \<and> length q < r)"
proof (induction r arbitrary: current trail seen)
  case (Suc r)
  show ?case
  proof (cases "current = target")
    case True
    have "q = []" if "target \<notin> set (butlast (target # q))" for q using that by (cases q) auto
    then have "(\<exists>q. p = trail @ q \<and> walk edges (current # q) \<and> last (current # q) = target \<and> target \<notin> set (butlast (current # q)) \<and>
       distinct q \<and> set q \<inter> set trail = {} \<and> length q < Suc r) \<longleftrightarrow> p = trail"
      using True by (metis append_Nil2 walk.simps(2) last.simps butlast.simps(2) empty_iff list.set(1) distinct.simps(1) inf_bot_left list.size(3) zero_less_Suc)
    moreover have "set (trails (Suc r) order edges target current trail seen) = {trail}" using True by simp
    ultimately show ?thesis by blast
  next
    case False
    have ih: "p \<in> set (trails r order edges target n (trail @ [n]) (insert n seen)) \<longleftrightarrow>
      (\<exists>q. p = (trail @ [n]) @ q \<and> walk edges (n # q) \<and> last (n # q) = target \<and> target \<notin> set (butlast (n # q)) \<and>
        distinct q \<and> set q \<inter> set (trail @ [n]) = {} \<and> length q < r)" for n
      using Suc.prems by (intro Suc.IH) auto
    have "p \<in> set (trails (Suc r) order edges target current trail seen) \<longleftrightarrow>
        (\<exists>n \<in> set (adjacency edges current) - seen. p \<in> set (trails r order edges target n (trail @ [n]) (insert n seen)))"
      using False order_adjacency(2) [OF assms] by auto
    also have "\<dots> \<longleftrightarrow> (\<exists>n q. n \<in> set (adjacency edges current) \<and> n \<notin> set trail \<and> p = (trail @ [n]) @ q \<and> walk edges (n # q) \<and>
        last (n # q) = target \<and> target \<notin> set (butlast (n # q)) \<and> distinct q \<and> set q \<inter> set (trail @ [n]) = {} \<and> length q < r)"
      unfolding ih using Suc.prems(1) by blast
    also have "\<dots> \<longleftrightarrow> (\<exists>q. p = trail @ q \<and> walk edges (current # q) \<and> last (current # q) = target \<and>
        target \<notin> set (butlast (current # q)) \<and> distinct q \<and> set q \<inter> set trail = {} \<and> length q < Suc r)"
    proof
      assume "\<exists>n q. n \<in> set (adjacency edges current) \<and> n \<notin> set trail \<and> p = (trail @ [n]) @ q \<and> walk edges (n # q) \<and>
        last (n # q) = target \<and> target \<notin> set (butlast (n # q)) \<and> distinct q \<and> set q \<inter> set (trail @ [n]) = {} \<and> length q < r"
      then obtain n q where "n \<in> set (adjacency edges current)" "n \<notin> set trail" "p = (trail @ [n]) @ q" "walk edges (n # q)"
        "last (n # q) = target" "target \<notin> set (butlast (n # q))" "distinct q" "set q \<inter> set (trail @ [n]) = {}" "length q < r"
        by blast
      then show "\<exists>q. p = trail @ q \<and> walk edges (current # q) \<and> last (current # q) = target \<and>
        target \<notin> set (butlast (current # q)) \<and> distinct q \<and> set q \<inter> set trail = {} \<and> length q < Suc r"
        using False by (intro exI [of _ "n # q"]) auto
    next
      assume "\<exists>q. p = trail @ q \<and> walk edges (current # q) \<and> last (current # q) = target \<and>
        target \<notin> set (butlast (current # q)) \<and> distinct q \<and> set q \<inter> set trail = {} \<and> length q < Suc r"
      then obtain q where q: "p = trail @ q" "walk edges (current # q)" "last (current # q) = target"
        "target \<notin> set (butlast (current # q))" "distinct q" "set q \<inter> set trail = {}" "length q < Suc r" by blast
      then obtain n q' where "q = n # q'" using False by (cases q) auto
      with q show "\<exists>n q. n \<in> set (adjacency edges current) \<and> n \<notin> set trail \<and> p = (trail @ [n]) @ q \<and> walk edges (n # q) \<and>
        last (n # q) = target \<and> target \<notin> set (butlast (n # q)) \<and> distinct q \<and> set q \<inter> set (trail @ [n]) = {} \<and> length q < r"
        by (intro exI [of _ n] exI [of _ q']) auto
    qed
    finally show ?thesis .
  qed
qed simp

lemma distinct_concat_map:
  assumes "distinct ns" "\<And>n. n \<in> set ns \<Longrightarrow> distinct (g n)"
    and "\<And>n m. n \<in> set ns \<Longrightarrow> m \<in> set ns \<Longrightarrow> n \<noteq> m \<Longrightarrow> set (g n) \<inter> set (g m) = {}"
  shows "distinct (concat (map g ns))"
  using assms
proof (induction ns)
  case (Cons n ns)
  have "set (g n) \<inter> set (g m) = {}" if "m \<in> set ns" for m
    using Cons.prems(1) that by (intro Cons.prems(3)) auto
  moreover have "distinct (concat (map g ns))" using Cons.prems by (intro Cons.IH) auto
  ultimately show ?case using Cons.prems(2) [of n] by auto
qed simp

lemma trails_distinct:
  assumes "lists_members order"
  shows "distinct (trails r order edges target current trail seen) \<and>
    (\<forall>p \<in> set (trails r order edges target current trail seen). \<exists>q. p = trail @ q)"
proof (induction r arbitrary: current trail seen)
  case (Suc r)
  let ?ns = "filter (\<lambda>nxt. nxt \<notin> seen) (order (adjacency edges current))"
  let ?t = "\<lambda>nxt. trails r order edges target nxt (trail @ [nxt]) (insert nxt seen)"
  have pre: "\<exists>q. p = trail @ n # q" if "p \<in> set (?t n)" for p n
    using Suc.IH [of n "trail @ [n]" "insert n seen"] that by fastforce
  have "distinct (concat (map ?t ?ns))"
  proof (rule distinct_concat_map)
    show "distinct ?ns" using order_adjacency(1) [OF assms] by simp
    show "distinct (?t n)" for n using Suc.IH by blast
    show "set (?t n) \<inter> set (?t m) = {}" if "n \<noteq> m" for n m
      using pre that by (fastforce dest: pre)
  qed
  moreover have "\<exists>q. p = trail @ q" if "p \<in> set (concat (map ?t ?ns))" for p
    using that pre by fastforce
  ultimately show ?case by simp
qed simp

definition simple_paths :: "edge list \<Rightarrow> string \<Rightarrow> string \<Rightarrow> nat \<Rightarrow> string list set" where
  "simple_paths edges source target M = {p. connects edges source target p \<and> distinct p \<and> hops p \<le> M}"

lemma trails_simple_paths:
  assumes "lists_members order"
  shows "set (trails (Suc M) order edges target source [source] {source}) = simple_paths edges source target M"
proof (intro set_eqI iffI)
  fix p assume "p \<in> set (trails (Suc M) order edges target source [source] {source})"
  then obtain q where "p = [source] @ q" "walk edges (source # q)" "last (source # q) = target" "distinct q"
    "set q \<inter> set [source] = {}" "length q < Suc M"
    using trails_iff [OF assms, of "{source}" "[source]" source p "Suc M" edges target] by auto
  then show "p \<in> simple_paths edges source target M" by (auto simp: simple_paths_def connects_def)
next
  fix p assume p: "p \<in> simple_paths edges source target M"
  then have w: "walk edges p" "hd p = source" "last p = target" "distinct p" "hops p \<le> M"
    by (auto simp: simple_paths_def connects_def)
  obtain q where q: "p = source # q" using w(1,2) by (cases p) auto
  have "p = butlast p @ [target]" using w(1,3) walk_nonempty by (metis append_butlast_last_id)
  then have "target \<notin> set (butlast (source # q))" using w(4) q by (metis distinct_append list.set_intros(1) disjoint_iff)
  then show "p \<in> set (trails (Suc M) order edges target source [source] {source})"
    using trails_iff [OF assms, of "{source}" "[source]" source p "Suc M" edges target] w q by auto
qed

section \<open>Properties\<close>

lemma fst_with_edges: "fst (with_edges p) = p"
  by (simp add: with_edges_def)

text \<open>C29: The search for a shortest path always ends; it returns a path from source to target of least
  length when one exists within the depth bound, and no path exactly when there is none within it,
  in whatever order the sets of successors are walked.\<close>
theorem shortest_mode_correct:
  assumes "lists_members order" "source \<noteq> target"
  shows "\<exists>r. find_paths_in_edges order edges source target ''shortest'' max_paths max_depth = Some (Inr r) \<and>
    (if \<exists>p. connects edges source target p \<and> hops p \<le> clamp 64 max_depth
     then \<exists>p. pr_paths r = [with_edges p] \<and> connects edges source target p \<and> hops p \<le> clamp 64 max_depth \<and>
            (\<forall>q. connects edges source target q \<longrightarrow> hops p \<le> hops q)
     else pr_paths r = [])"
proof -
  obtain o' where o': "shortest_path order edges source target (clamp 64 max_depth) = Some o'"
    "case o' of
       None \<Rightarrow> \<forall>p. connects edges source target p \<longrightarrow> hops p > clamp 64 max_depth
     | Some p \<Rightarrow> connects edges source target p \<and> hops p \<le> clamp 64 max_depth \<and> (\<forall>q. connects edges source target q \<longrightarrow> hops p \<le> hops q)"
    using shortest_path_correct [OF assms, of edges "clamp 64 max_depth"] by blast
  show ?thesis
  proof (cases o')
    case None
    then have "\<not> (\<exists>p. connects edges source target p \<and> hops p \<le> clamp 64 max_depth)" using o'(2) by fastforce
    then show ?thesis using None o'(1) assms(2) by (simp add: find_paths_in_edges_def Let_def)
  next
    case (Some p)
    then have p: "connects edges source target p" "hops p \<le> clamp 64 max_depth" "\<forall>q. connects edges source target q \<longrightarrow> hops p \<le> hops q"
      using o'(2) by auto
    have "find_paths_in_edges order edges source target ''shortest'' max_paths max_depth =
        Some (Inr \<lparr>pr_paths = [with_edges p], pr_path_count = 1, pr_truncated = False\<rparr>)"
      using Some o'(1) assms(2) by (simp add: find_paths_in_edges_def Let_def)
    then show ?thesis using p by auto
  qed
qed

definition diamond :: "edge list" where
  "diamond = [(Some ''a'', Some ''b''), (Some ''b'', Some ''d''), (Some ''a'', Some ''c''), (Some ''c'', Some ''b''), (Some '''', Some ''d'')]"

lemma rev_lists_members: "lists_members rev"
  by (simp add: lists_members_def)

lemma diamond_walk: "connects diamond ''a'' ''d'' [''a'', ''b'', ''d'']"
  by (simp add: connects_def diamond_def adjacency_def present_def)

theorem shortest_mode_correct_witness:
  "\<exists>r p. find_paths_in_edges rev diamond ''a'' ''d'' ''shortest'' 25 16 = Some (Inr r) \<and> pr_paths r = [with_edges p] \<and>
     connects diamond ''a'' ''d'' p \<and> hops p \<le> 2"
proof -
  have w: "\<exists>p. connects diamond ''a'' ''d'' p \<and> hops p \<le> clamp 64 16"
    by (rule exI [of _ "[''a'', ''b'', ''d'']"]) (use diamond_walk in \<open>simp add: clamp_def\<close>)
  obtain r p where "find_paths_in_edges rev diamond ''a'' ''d'' ''shortest'' 25 16 = Some (Inr r)" "pr_paths r = [with_edges p]"
    "connects diamond ''a'' ''d'' p" "\<forall>q. connects diamond ''a'' ''d'' q \<longrightarrow> hops p \<le> hops q"
    using shortest_mode_correct [OF rev_lists_members, of "''a''" "''d''" diamond 25 16] unfolding if_P [OF w] by auto
  moreover from this(4) diamond_walk have "hops p \<le> 2" by fastforce
  ultimately show ?thesis by blast
qed

text \<open>C30: The search for all paths returns simple paths within the depth bound, each once and at most as
  many as asked for; it lists all of them unless it reports truncation, and it reports truncation
  exactly if there are at least as many as asked for.\<close>
theorem all_mode_correct:
  assumes "lists_members order" "source \<noteq> target"
  shows "\<exists>r. find_paths_in_edges order edges source target ''all'' max_paths max_depth = Some (Inr r) \<and>
    (let ps = map fst (pr_paths r); P = simple_paths edges source target (clamp 64 max_depth)
     in distinct ps \<and> set ps \<subseteq> P \<and> length ps \<le> clamp 200 max_paths \<and> pr_path_count r = length ps \<and>
        (pr_truncated r \<longleftrightarrow> clamp 200 max_paths \<le> card P) \<and>
        (if pr_truncated r then length ps = clamp 200 max_paths else set ps = P))"
proof -
  let ?N = "clamp 200 max_paths" and ?M = "clamp 64 max_depth"
  let ?t = "trails (Suc ?M) order edges target source [source] {source}"
  have N: "0 < ?N" by (simp add: clamp_def)
  have d: "dfs (Suc ?M) order edges target ?N source [source] {source} ([], False) = (take ?N ?t, ?N \<le> length ?t)"
    using dfs_collect [of ?N "([], False)" "Suc ?M" order edges target source "[source]" "{source}"] N
    by (simp add: open_found_def collect_def del: dfs.simps trails.simps)
  have t: "set ?t = simple_paths edges source target ?M" "distinct ?t"
    using trails_simple_paths [OF assms(1)] trails_distinct [OF assms(1)] by blast+
  have c: "card (simple_paths edges source target ?M) = length ?t" using t distinct_card by metis
  have "find_paths_in_edges order edges source target ''all'' max_paths max_depth =
      Some (Inr \<lparr>pr_paths = map with_edges (take ?N ?t), pr_path_count = length (take ?N ?t), pr_truncated = ?N \<le> length ?t\<rparr>)"
    using assms(2) by (simp add: find_paths_in_edges_def Let_def d del: dfs.simps trails.simps)
  moreover have "set (take ?N ?t) \<subseteq> simple_paths edges source target ?M" using t(1) set_take_subset by fast
  moreover have "set (take ?N ?t) = simple_paths edges source target ?M" if "\<not> ?N \<le> length ?t" using that t(1) by simp
  ultimately show ?thesis using t(2) c by (simp add: Let_def fst_with_edges comp_def image_image del: trails.simps)
qed

theorem all_mode_correct_witness:
  "\<exists>r. find_paths_in_edges rev diamond ''a'' ''d'' ''all'' 1 16 = Some (Inr r) \<and> pr_path_count r = 1 \<and> pr_truncated r"
proof -
  have "[''a'', ''b'', ''d''] \<in> simple_paths diamond ''a'' ''d'' 16" using diamond_walk by (simp add: simple_paths_def)
  moreover have "finite (simple_paths diamond ''a'' ''d'' 16)"
    using trails_simple_paths [OF rev_lists_members, of 16 diamond "''d''" "''a''"] by (metis List.finite_set)
  ultimately have "1 \<le> card (simple_paths diamond ''a'' ''d'' 16)" by (metis One_nat_def Suc_leI card_gt_0_iff empty_iff)
  then show ?thesis
    using all_mode_correct [OF rev_lists_members, of "''a''" "''d''" diamond 1 16] by (auto simp: clamp_def Let_def)
qed

end
