(* ===== verification/Database.thy ===== *)
theory Database
  imports Prelude
begin

text \<open>
  The tables of the document service and the query helpers of \<open>trustdocs/database.py\<close>.

  A table maps the identifiers of its rows to the rows, in the order in which a scan meets them:
  for the in-memory fallback this is the dictionary \<open>_mem[table]\<close>, for PostgreSQL the same six
  helpers are the SQL statements they send. The \<open>column=value\<close> filters of a query are a predicate
  on rows and the assignments of an update a function on rows; each table gives its columns as a
  record. \<open>find_many\<close> sorts by \<open>created_at\<close>, and every call in the service leaves its limit at one
  hundred.
\<close>

section \<open>Query helpers\<close>

type_synonym 'r table = "(string \<times> 'r) list"

definition insert_row :: "string \<Rightarrow> 'r \<Rightarrow> 'r table \<Rightarrow> 'r table" where
  "insert_row i r t = dict_set i r t"

definition find_one :: "('r \<Rightarrow> bool) \<Rightarrow> 'r table \<Rightarrow> 'r option" where
  "find_one P t = find P (map snd t)"

definition find_limit :: nat where
  "find_limit = 100"

definition find_many :: "('r \<Rightarrow> datetime) \<Rightarrow> ('r \<Rightarrow> bool) \<Rightarrow> 'r table \<Rightarrow> 'r list" where
  "find_many created_at P t = take find_limit (sort_key created_at (filter P (map snd t)))"

definition update_one :: "string \<Rightarrow> ('r \<Rightarrow> 'r) \<Rightarrow> 'r table \<Rightarrow> 'r table" where
  "update_one i f t = (case map_of t i of None \<Rightarrow> t | Some r \<Rightarrow> dict_set i (f r) t)"

definition delete_one :: "string \<Rightarrow> 'r table \<Rightarrow> 'r table \<times> bool" where
  "delete_one i t = (dict_del i t, map_of t i \<noteq> None)"

definition delete_where :: "('r \<Rightarrow> bool) \<Rightarrow> 'r table \<Rightarrow> 'r table \<times> nat" where
  "delete_where P t = (filter (\<lambda>(i, r). \<not> P r) t, length (filter (\<lambda>(i, r). P r) t))"

section \<open>Tables\<close>

text \<open>The columns of the tables, as \<open>_create_tables\<close> declares them.\<close>

record user_row =
  u_id :: string
  u_username :: string
  u_email :: string
  u_password_hash :: string
  u_encrypted_signing_key :: bytes
  u_verify_key_hex :: string
  u_peer_id :: string
  u_node_id :: string
  u_created_at :: datetime
  u_last_seen_at :: datetime

record document_row =
  d_id :: string
  d_owner_id :: string
  d_filename :: string
  d_mime_type :: string
  d_size_bytes :: nat
  d_storage_path :: string
  d_storage_node :: string
  d_content_hash :: string
  d_coc_node_hash :: string
  d_status :: string
  d_created_at :: datetime
  d_deleted_at :: "datetime option"
  d_recycled_at :: "datetime option"

record share_row =
  s_id :: string
  s_document_id :: string
  s_owner_id :: string
  s_recipient_id :: string
  s_child_coc_node_hash :: string
  s_status :: string
  s_created_at :: datetime
  s_revoked_at :: "datetime option"
  s_suspended_at :: "datetime option"

record session_row =
  se_id :: string
  se_user_id :: string
  se_token_hash :: string
  se_expires_at :: datetime
  se_created_at :: datetime

record pg_node =
  pn_node_hash :: string
  pn_content_hash :: string
  pn_parent_hash :: "string option"
  pn_owner_peer_id :: string
  pn_signature :: "string option"
  pn_depth :: int
  pn_schema_version :: int
  pn_created_at :: datetime

record pg_tombstone =
  pt_content_hash :: string
  pt_deleted_at :: datetime
  pt_delete_after :: datetime
  pt_originator_id :: string
  pt_node_hash :: string

section \<open>Laws of the helpers\<close>

text \<open>In a table of the service every row is filed under the identifier it carries.\<close>

definition table_ok :: "('r \<Rightarrow> string) \<Rightarrow> 'r table \<Rightarrow> bool" where
  "table_ok ident t \<longleftrightarrow> distinct (map fst t) \<and> (\<forall>(i, r) \<in> set t. ident r = i)"

abbreviation rows :: "'r table \<Rightarrow> 'r set" where
  "rows t \<equiv> snd ` set t"

lemma table_ok_empty [simp]: "table_ok ident []"
  by (simp add: table_ok_def)

lemma rows_map_of: "table_ok ident t \<Longrightarrow> r \<in> rows t \<longleftrightarrow> map_of t (ident r) = Some r"
  by (force simp: table_ok_def dest: map_of_SomeD)

lemma map_of_ident: "table_ok ident t \<Longrightarrow> map_of t i = Some r \<Longrightarrow> ident r = i"
  by (force simp: table_ok_def dest: map_of_SomeD)

lemma rows_inj: "table_ok ident t \<Longrightarrow> r \<in> rows t \<Longrightarrow> s \<in> rows t \<Longrightarrow> ident r = ident s \<Longrightarrow> r = s"
  using rows_map_of by (metis option.inject)

lemma find_one_None_iff: "find_one P t = None \<longleftrightarrow> (\<forall>r \<in> rows t. \<not> P r)"
  by (simp add: find_one_def find_None_iff)

lemma find_one_SomeD: "find_one P t = Some r \<Longrightarrow> r \<in> rows t \<and> P r"
  by (auto simp: find_one_def find_Some_iff)

lemma find_one_ident:
  assumes "table_ok ident t"
  shows "find_one (\<lambda>r. ident r = i) t = map_of t i"
proof (cases "map_of t i")
  case None
  then have "\<forall>r \<in> rows t. ident r \<noteq> i" using rows_map_of [OF assms] by (metis option.distinct(1))
  with None show ?thesis by (simp add: find_one_None_iff)
next
  case (Some r)
  have r: "ident r = i" "r \<in> rows t" using Some map_of_ident [OF assms] rows_map_of [OF assms] by metis+
  then have "find_one (\<lambda>r. ident r = i) t \<noteq> None" unfolding find_one_None_iff by blast
  then obtain s where s: "find_one (\<lambda>r. ident r = i) t = Some s" by blast
  have "s \<in> rows t" "ident s = i" using find_one_SomeD [OF s] by blast+
  then have "s = r" using rows_inj [OF assms, of s r] r by simp
  with s Some show ?thesis by simp
qed

lemma set_find_many: "set (find_many k P t) \<subseteq> {r \<in> rows t. P r}"
  unfolding find_many_def using set_take_subset by fastforce

lemma find_many_complete:
  "length (filter P (map snd t)) \<le> find_limit \<Longrightarrow> set (find_many k P t) = {r \<in> rows t. P r}"
  by (auto simp: find_many_def)

lemma length_find_many: "length (find_many k P t) = min (length (filter P (map snd t))) find_limit"
  by (simp add: find_many_def)

lemma table_ok_distinct_rows: "table_ok ident t \<Longrightarrow> distinct (map snd t)"
  by (induction t) (force simp: table_ok_def)+

lemma distinct_find_many: "table_ok ident t \<Longrightarrow> distinct (find_many k P t)"
  unfolding find_many_def by (simp add: distinct_take table_ok_distinct_rows distinct_filter)

lemma table_ok_insert: "table_ok ident t \<Longrightarrow> ident r = i \<Longrightarrow> table_ok ident (insert_row i r t)"
  by (induction t) (auto simp: table_ok_def insert_row_def fst_set_dict_set split: if_splits)

lemma dict_set_present: "distinct (map fst t) \<Longrightarrow> map_of t i = Some r \<Longrightarrow>
    dict_set i x t = map (\<lambda>(j, s). (j, if j = i then x else s)) t"
proof (induction t)
  case (Cons a t)
  have "map (\<lambda>(j, s). (j, if j = i then x else s)) t = t" if "i \<notin> fst ` set t"
    using that by (intro map_idI) force
  with Cons show ?case by (cases a) (auto split: if_splits)
qed simp

lemma update_one_map:
  assumes "table_ok ident t"
  shows "update_one i f t = map (\<lambda>(j, s). (j, if ident s = i then f s else s)) t"
proof -
  have d: "distinct (map fst t)" and k: "\<And>j s. (j, s) \<in> set t \<Longrightarrow> ident s = j" using assms by (auto simp: table_ok_def)
  show ?thesis
  proof (cases "map_of t i")
    case None
    then have "\<forall>(j, s) \<in> set t. ident s \<noteq> i" using k by (force simp: map_of_eq_None_iff)
    then show ?thesis using None by (auto simp: update_one_def intro!: map_idI[symmetric])
  next
    case (Some r)
    have "(j, s) \<in> set t \<Longrightarrow> j = i \<Longrightarrow> s = r" for j s using Some d by (metis map_of_is_SomeI option.inject)
    then show ?thesis using Some k by (auto simp: update_one_def dict_set_present [OF d Some])
  qed
qed

lemma table_ok_map:
  "table_ok ident t \<Longrightarrow> (\<And>r. r \<in> rows t \<Longrightarrow> ident (g r) = ident r) \<Longrightarrow> table_ok ident (map (\<lambda>(j, s). (j, g s)) t)"
  by (force simp: table_ok_def comp_def case_prod_beta)

text \<open>The loops over the rows a query found update exactly those rows.\<close>

lemma update_each:
  assumes "table_ok ident t" "distinct rs" "set rs \<subseteq> rows t" "\<And>r. ident (f r) = ident r"
  shows "fold (\<lambda>r. update_one (ident r) f) rs t = map (\<lambda>(j, s). (j, if s \<in> set rs then f s else s)) t"
  using assms(2,3)
proof (induction rs rule: rev_induct)
  case Nil
  then show ?case by (simp add: case_prod_beta)
next
  case (snoc r rs)
  let ?u = "map (\<lambda>(j, s). (j, if s \<in> set rs then f s else s)) t"
  have u: "table_ok ident ?u" using assms(1,4) by (intro table_ok_map) auto
  have eq: "(ident (if s \<in> set rs then f s else s) = ident r) = (s = r)" if "s \<in> rows t" for s
    using rows_inj [OF assms(1) that] snoc.prems assms(4) by auto
  have "fold (\<lambda>r. update_one (ident r) f) (rs @ [r]) t = update_one (ident r) f ?u" using snoc by simp
  also have "\<dots> = map (\<lambda>(j, s). (j, if s \<in> set (rs @ [r]) then f s else s)) t"
    unfolding update_one_map [OF u] using eq snoc.prems by (force simp: case_prod_beta)
  finally show ?case .
qed

end
