(* ===== verification/Service.thy ===== *)
theory Service
  imports Storage AuditLog Stegano Paths Database
begin

text \<open>
  The custody graph in PostgreSQL (\<open>coc_framework/interfaces/postgres_backend.py\<close>) and the service
  around it (\<open>TrustFlowService\<close> of \<open>trustdocs/trustflow_service.py\<close>): root nodes for uploads,
  watermarked children for shares, leak detection, and the graph and trace queries.

  The tables are lists of rows without duplicate keys. The set of a node's children has no fixed
  iteration order, so the walks take the order as an argument, as in Paths; their loops are partial
  functions and that they return is proved. The key that signs all nodes is an argument.
\<close>

section \<open>PostgresStorageBackend\<close>

record coc_db =
  coc_nodes :: "pg_node list"
  coc_recipients :: "(string \<times> string) list"
  tombstones :: "pg_tombstone list"

definition parse_ts :: "string \<Rightarrow> datetime result" where
  "parse_ts ts = read_instant (replace_Z ts)"

definition find_node :: "string \<Rightarrow> coc_db \<Rightarrow> pg_node option" where
  "find_node h db = find (\<lambda>r. pn_node_hash r = h) (coc_nodes db)"

text \<open>\<open>INSERT ... ON CONFLICT DO NOTHING\<close> into the table of recipients.\<close>

definition add_recipient :: "string \<Rightarrow> string \<Rightarrow> coc_db \<Rightarrow> coc_db" where
  "add_recipient h pid db =
     (if (h, pid) \<in> set (coc_recipients db) then db
      else db\<lparr>coc_recipients := coc_recipients db @ [(h, pid)]\<rparr>)"

definition pg_node_row :: "datetime \<Rightarrow> coc_node \<Rightarrow> pg_node" where
  "pg_node_row ts n =
     \<lparr>pn_node_hash = node_hash n, pn_content_hash = content_hash n, pn_parent_hash = parent_hash n,
      pn_owner_peer_id = owner_id n,
      pn_signature = (case signature n of None \<Rightarrow> None | Some s \<Rightarrow> if s = [] then None else Some (bytes_hex s)),
      pn_depth = depth n, pn_schema_version = schema_version n, pn_created_at = ts\<rparr>"

text \<open>An exception is logged and leaves the tables alone.\<close>

definition pg_add_node :: "coc_node \<Rightarrow> coc_db \<Rightarrow> coc_db" where
  "pg_add_node n db =
     (case parse_ts (timestamp n) of
        Inl _ \<Rightarrow> db
      | Inr ts \<Rightarrow>
          fold (add_recipient (node_hash n)) (recipient_ids n)
            (if find_node (node_hash n) db \<noteq> None then db
             else db\<lparr>coc_nodes := coc_nodes db @ [pg_node_row ts n]\<rparr>))"

text \<open>The two queries of \<open>get_node\<close>, for the children and the recipients of a node.\<close>

definition children_of :: "coc_db \<Rightarrow> string \<Rightarrow> string list" where
  "children_of db h = map pn_node_hash (filter (\<lambda>c. pn_parent_hash c = Some h) (coc_nodes db))"

definition recipients_of :: "coc_db \<Rightarrow> string \<Rightarrow> string list" where
  "recipients_of db h = map snd (filter (\<lambda>p. fst p = h) (coc_recipients db))"

text \<open>The dictionary \<open>get_node\<close> builds from a row and hands to \<open>CoCNode.from_dict\<close>.\<close>

definition row_dict :: "coc_db \<Rightarrow> pg_node \<Rightarrow> json" where
  "row_dict db r = JObj [
     (''schema_version'', JInt (pn_schema_version r)),
     (''node_hash'', jstr (pn_node_hash r)),
     (''content_hash'', jstr (pn_content_hash r)),
     (''parent_hash'', jopt jstr (pn_parent_hash r)),
     (''owner_id'', jstr (pn_owner_peer_id r)),
     (''recipient_ids'', JList (map jstr (recipients_of db (pn_node_hash r)))),
     (''timestamp'', jstr (isoformat (pn_created_at r))),
     (''children_hashes'', JList (map jstr (children_of db (pn_node_hash r)))),
     (''depth'', JInt (pn_depth r)),
     (''signature'', jopt jstr (pn_signature r))]"

definition pg_get_node :: "string \<Rightarrow> coc_db \<Rightarrow> coc_node option result" where
  "pg_get_node h db =
     (case find_node h db of
        None \<Rightarrow> Inr None
      | Some r \<Rightarrow> bindr (node_from_dict (row_dict db r)) (\<lambda>n. Inr (Some n)))"

definition pg_get_all_nodes :: "coc_db \<Rightarrow> coc_node list result" where
  "pg_get_all_nodes db =
     bindr (mapr (\<lambda>r. pg_get_node (pn_node_hash r) db) (sort_key pn_created_at (coc_nodes db))) (\<lambda>ns.
     Inr (List.map_filter id ns))"

definition pg_add_tombstone :: "tombstone \<Rightarrow> coc_db \<Rightarrow> coc_db" where
  "pg_add_tombstone t db =
     (case (parse_ts (deleted_at t), parse_ts (delete_after t)) of
        (Inr da, Inr af) \<Rightarrow>
          if \<exists>r \<in> set (tombstones db). pt_content_hash r = ts_content_hash t then db
          else db\<lparr>tombstones := tombstones db @
                 [\<lparr>pt_content_hash = ts_content_hash t, pt_deleted_at = da, pt_delete_after = af,
                   pt_originator_id = ts_originator_id t, pt_node_hash = ts_node_hash t\<rparr>]\<rparr>
      | _ \<Rightarrow> db)"

definition pg_get_tombstone :: "string \<Rightarrow> coc_db \<Rightarrow> tombstone option" where
  "pg_get_tombstone h db =
     map_option (\<lambda>r. \<lparr>ts_content_hash = pt_content_hash r, deleted_at = isoformat (pt_deleted_at r),
         delete_after = isoformat (pt_delete_after r), ts_originator_id = pt_originator_id r, ts_node_hash = pt_node_hash r\<rparr>)
       (find (\<lambda>r. pt_content_hash r = h) (tombstones db))"

section \<open>TrustFlowService\<close>

record service =
  sv_audit_log :: audit_log
  sv_stegano :: stegano_engine
  sv_storage :: coc_db

definition service_init :: "datetime \<Rightarrow> string option \<Rightarrow> coc_db \<Rightarrow> service" where
  "service_init now log_text db = \<lparr>sv_audit_log = audit_log_init now log_text, sv_stegano = [], sv_storage = db\<rparr>"

definition tf_get_peer_status :: "string \<Rightarrow> user_row table \<Rightarrow> bool" where
  "tf_get_peer_status pid users \<longleftrightarrow> find_one (\<lambda>u. u_peer_id u = pid) users \<noteq> None"

definition register_peer_for_stegano :: "string \<Rightarrow> service \<Rightarrow> service" where
  "register_peer_for_stegano pid s = s\<lparr>sv_stegano := stegano_register pid (sv_stegano s)\<rparr>"

definition service_log :: "datetime \<Rightarrow> string \<Rightarrow> string \<Rightarrow> string \<Rightarrow> string \<Rightarrow> service \<Rightarrow> service" where
  "service_log now ety actor target det s = s\<lparr>sv_audit_log := file_log_event now ety actor target det (sv_audit_log s)\<rparr>"

definition create_document_node ::
  "crypto \<Rightarrow> signing_key \<Rightarrow> datetime \<Rightarrow> string \<Rightarrow> ustr \<Rightarrow> string list \<Rightarrow> service \<Rightarrow> service \<times> coc_node" where
  "create_document_node C sk now owner_peer_id content recipients s =
     (let node = new_node C now (hash_content content) owner_peer_id sk recipients None 0 NODE_SCHEMA_VERSION;
          s = s\<lparr>sv_storage := pg_add_node node (sv_storage s)\<rparr>
      in (service_log now ''UPLOAD'' owner_peer_id (node_hash node) [] s, node))"

text \<open>A row that violates a key of the recipients' table is not inserted, and the exception is dropped.\<close>

definition insert_recipient :: "string \<Rightarrow> string \<Rightarrow> coc_db \<Rightarrow> coc_db" where
  "insert_recipient h pid db = (if find_node h db = None then db else add_recipient h pid db)"

definition tf_share_document ::
  "crypto \<Rightarrow> signing_key \<Rightarrow> (nat \<Rightarrow> bool) \<Rightarrow> datetime \<Rightarrow> string \<Rightarrow> coc_node \<Rightarrow> string list \<Rightarrow> ustr \<Rightarrow> service
   \<Rightarrow> service \<times> (coc_node \<times> ustr) result" where
  "tf_share_document C sk alnum now owner_peer_id parent recipients content s =
     (case recipients of
        [] \<Rightarrow> (s, Inl IndexError)
      | primary # _ \<Rightarrow>
          let (engine, watermarked) = embed_watermark alnum now content primary (depth parent + 1) None True True True (sv_stegano s);
              child = new_node C now (hash_content watermarked) owner_peer_id sk recipients (Some (node_hash parent))
                        (depth parent + 1) NODE_SCHEMA_VERSION;
              db = fold (insert_recipient (node_hash parent)) recipients (pg_add_node child (sv_storage s));
              s = s\<lparr>sv_stegano := engine, sv_storage := db\<rparr>
          in (service_log now ''SHARE'' owner_peer_id (node_hash child) (''To: '' @ join '','' (map (take 8) recipients)) s,
              Inr (child, watermarked)))"

definition detect_leak ::
  "(nat \<Rightarrow> bool) \<Rightarrow> ustr \<Rightarrow> string list \<Rightarrow> service \<Rightarrow> service \<times> extraction_result result" where
  "detect_leak alnum content candidates s =
     (let s = fold register_peer_for_stegano candidates s
      in (s, extract_watermark alnum content (Some candidates) (sv_stegano s)))"

definition tf_delete_document :: "datetime \<Rightarrow> string \<Rightarrow> string \<Rightarrow> service \<Rightarrow> service" where
  "tf_delete_document now owner_peer_id h s = service_log now ''DELETE'' owner_peer_id h [] s"

section \<open>Graph queries\<close>

text \<open>A node as the user interface shows it: with its owner's name and presence, and a file name.\<close>

record shown_node =
  sn_node :: coc_node
  sn_owner_username :: string
  sn_is_online :: bool
  sn_filename :: string

definition is_online :: "datetime \<Rightarrow> user_row \<Rightarrow> bool" where
  "is_online now u \<longleftrightarrow> now - u_last_seen_at u < seconds 120"

definition augment_nodes :: "datetime \<Rightarrow> user_row table \<Rightarrow> document_row table \<Rightarrow> coc_node list \<Rightarrow> shown_node list" where
  "augment_nodes now users documents nodes =
     (let user_map = map_of (rev (map (\<lambda>u. (u_peer_id u, (u_username u, is_online now u))) (find_many u_created_at (\<lambda>_. True) users)));
          doc_map = map_of (rev (map (\<lambda>d. (d_coc_node_hash d, d_filename d)) (find_many d_created_at (\<lambda>_. True) documents)))
      in map (\<lambda>n. let (name, online) = (case user_map (owner_id n) of None \<Rightarrow> (''Unknown'', False) | Some i \<Rightarrow> i)
                  in \<lparr>sn_node = n, sn_owner_username = name, sn_is_online = online,
                      sn_filename = (case doc_map (node_hash n) of None \<Rightarrow> [] | Some f \<Rightarrow> f)\<rparr>) nodes)"

text \<open>The values of \<open>{n["node_hash"]: n for n in augmented}\<close>.\<close>

definition by_hash :: "shown_node list \<Rightarrow> shown_node list" where
  "by_hash ns = map snd (fold (\<lambda>n. dict_set (node_hash (sn_node n)) n) ns [])"

definition tf_get_all_nodes ::
  "datetime \<Rightarrow> user_row table \<Rightarrow> document_row table \<Rightarrow> coc_db \<Rightarrow> (shown_node list \<times> edge list) result" where
  "tf_get_all_nodes now users documents db =
     bindr (pg_get_all_nodes db) (\<lambda>nodes.
     Inr (by_hash (augment_nodes now users documents nodes),
          map (\<lambda>n. (parent_hash n, Some (node_hash n))) (filter (\<lambda>n. present (parent_hash n)) nodes)))"

text \<open>
  The walk down from the nodes of a stack, its top first. A node met before is skipped; of any other
  the edges to all its children are noted and the children that can be looked up are pushed.
\<close>

partial_function (option) walk_down ::
  "(string \<Rightarrow> coc_node option) \<Rightarrow> (string list \<Rightarrow> string list) \<Rightarrow> coc_node list \<Rightarrow> coc_node list \<Rightarrow> edge list
   \<Rightarrow> (coc_node list \<times> edge list) option" where
  "walk_down get order stack seen edges =
     (case stack of
        [] \<Rightarrow> Some (seen, edges)
      | n # st \<Rightarrow>
          if node_hash n \<in> node_hash ` set seen then walk_down get order st seen edges
          else let cs = order (children_hashes n)
               in walk_down get order (rev (List.map_filter get cs) @ st) (seen @ [n])
                    (edges @ map (\<lambda>c. (Some (node_hash n), Some c)) cs))"

definition lookup_node :: "coc_db \<Rightarrow> string \<Rightarrow> coc_node option" where
  "lookup_node db h = (case pg_get_node h db of Inl _ \<Rightarrow> None | Inr n \<Rightarrow> n)"

definition get_trace_for_document ::
  "(string list \<Rightarrow> string list) \<Rightarrow> datetime \<Rightarrow> user_row table \<Rightarrow> document_row table \<Rightarrow> string \<Rightarrow> coc_db
   \<Rightarrow> (shown_node list \<times> edge list) option" where
  "get_trace_for_document order now users documents root_hash db =
     (case lookup_node db root_hash of
        None \<Rightarrow> Some ([], [])
      | Some root \<Rightarrow>
          map_option (\<lambda>(nodes, edges). (augment_nodes now users documents nodes, edges))
            (walk_down (lookup_node db) order [root] [] []))"

text \<open>The climb from a node to the last ancestor that can be found.\<close>

partial_function (option) climb :: "(string \<rightharpoonup> coc_node) \<Rightarrow> coc_node \<Rightarrow> coc_node option" where
  "climb nodes_by_hash current =
     (case parent_hash current of
        None \<Rightarrow> Some current
      | Some p \<Rightarrow>
          if p = [] then Some current
          else (case nodes_by_hash p of None \<Rightarrow> Some current | Some n \<Rightarrow> climb nodes_by_hash n))"

fun climb_all :: "(string \<rightharpoonup> coc_node) \<Rightarrow> coc_node list \<Rightarrow> string list option" where
  "climb_all nodes_by_hash [] = Some []"
| "climb_all nodes_by_hash (n # ns) =
     Option.bind (climb nodes_by_hash n) (\<lambda>r.
     Option.bind (climb_all nodes_by_hash ns) (\<lambda>rs. Some (node_hash r # rs)))"

fun lineages ::
  "(string \<rightharpoonup> coc_node) \<Rightarrow> (string list \<Rightarrow> string list) \<Rightarrow> string list \<Rightarrow> coc_node list \<times> edge list
   \<Rightarrow> (coc_node list \<times> edge list) option" where
  "lineages nodes_by_hash order [] st = Some st"
| "lineages nodes_by_hash order (r # rs) st =
     (case nodes_by_hash r of
        None \<Rightarrow> lineages nodes_by_hash order rs st
      | Some root \<Rightarrow>
          Option.bind (walk_down nodes_by_hash order [root] (fst st) (snd st)) (lineages nodes_by_hash order rs))"

definition get_graph_for_peer ::
  "(string list \<Rightarrow> string list) \<Rightarrow> datetime \<Rightarrow> user_row table \<Rightarrow> document_row table \<Rightarrow> string \<Rightarrow> coc_db
   \<Rightarrow> (shown_node list \<times> edge list) result option" where
  "get_graph_for_peer order now users documents pid db =
     (case pg_get_all_nodes db of
        Inl e \<Rightarrow> Some (Inl e)
      | Inr nodes \<Rightarrow>
          let visible = filter (\<lambda>n. owner_id n = pid \<or> pid \<in> set (recipient_ids n)) nodes;
              nodes_by_hash = map_of (rev (map (\<lambda>n. (node_hash n, n)) nodes))
          in Option.bind (climb_all nodes_by_hash visible) (\<lambda>roots.
             map_option (\<lambda>(seen, edges). Inr (by_hash (augment_nodes now users documents seen), remdups edges))
               (lineages nodes_by_hash order (order (remdups roots)) ([], []))))"

text \<open>A path query on a graph: \<open>Inl\<close> is the answer that source or target is not visible.\<close>

definition visible_paths ::
  "(string list \<Rightarrow> string list) \<Rightarrow> shown_node list \<times> edge list \<Rightarrow> string \<Rightarrow> string \<Rightarrow> string \<Rightarrow> int \<Rightarrow> int
   \<Rightarrow> (unit + path_result) result option" where
  "visible_paths order graph source target mode max_paths max_depth =
     (let visible = (\<lambda>n. node_hash (sn_node n)) ` set (fst graph)
      in if source \<notin> visible \<or> target \<notin> visible then Some (Inr (Inl ()))
         else map_option (\<lambda>r. bindr r (\<lambda>p. Inr (Inr p)))
                (find_paths_in_edges order (snd graph) source target mode max_paths max_depth))"

definition get_graph_paths_for_peer ::
  "(string list \<Rightarrow> string list) \<Rightarrow> datetime \<Rightarrow> user_row table \<Rightarrow> document_row table \<Rightarrow> coc_db \<Rightarrow> string \<Rightarrow> string \<Rightarrow> string
   \<Rightarrow> string \<Rightarrow> int \<Rightarrow> int \<Rightarrow> (unit + path_result) result option" where
  "get_graph_paths_for_peer order now users documents db pid source target mode max_paths max_depth =
     Option.bind (get_graph_for_peer order now users documents pid db) (\<lambda>g.
       case g of Inl e \<Rightarrow> Some (Inl e) | Inr g \<Rightarrow> visible_paths order g source target mode max_paths max_depth)"

definition get_graph_paths_for_document ::
  "(string list \<Rightarrow> string list) \<Rightarrow> datetime \<Rightarrow> user_row table \<Rightarrow> document_row table \<Rightarrow> coc_db \<Rightarrow> string \<Rightarrow> string \<Rightarrow> string
   \<Rightarrow> string \<Rightarrow> int \<Rightarrow> int \<Rightarrow> (unit + path_result) result option" where
  "get_graph_paths_for_document order now users documents db root_hash source target mode max_paths max_depth =
     Option.bind (get_trace_for_document order now users documents root_hash db)
       (\<lambda>g. visible_paths order g source target mode max_paths max_depth)"

section \<open>The tables\<close>

definition hex_signature :: "pg_node \<Rightarrow> bool" where
  "hex_signature r \<longleftrightarrow> (\<forall>h. pn_signature r = Some h \<longrightarrow> (\<exists>s. s \<noteq> [] \<and> h = bytes_hex s))"

definition db_ok :: "coc_db \<Rightarrow> bool" where
  "db_ok db \<longleftrightarrow> distinct (map pn_node_hash (coc_nodes db)) \<and> distinct (coc_recipients db) \<and>
     (\<forall>r \<in> set (coc_nodes db). hex_signature r)"

lemma add_recipient_sel [simp]:
  "coc_nodes (add_recipient h pid db) = coc_nodes db" "tombstones (add_recipient h pid db) = tombstones db"
  "find_node k (add_recipient h pid db) = find_node k db"
  by (simp_all add: add_recipient_def find_node_def)

lemma add_recipients_sel [simp]:
  "coc_nodes (fold (add_recipient h) pids db) = coc_nodes db" "tombstones (fold (add_recipient h) pids db) = tombstones db"
  "find_node k (fold (add_recipient h) pids db) = find_node k db"
  by (induction pids arbitrary: db) simp_all

lemma insert_recipients_eq:
  "fold (insert_recipient h) pids db = (if find_node h db = None then db else fold (add_recipient h) pids db)"
  by (induction pids arbitrary: db) (simp_all add: insert_recipient_def)

lemma add_recipient_ok: "db_ok db \<Longrightarrow> db_ok (add_recipient h pid db)"
  by (simp add: db_ok_def add_recipient_def)

lemma add_recipients_ok: "db_ok db \<Longrightarrow> db_ok (fold (add_recipient h) pids db)"
  by (induction pids arbitrary: db) (simp_all add: add_recipient_ok)

lemma insert_recipients_ok: "db_ok db \<Longrightarrow> db_ok (fold (insert_recipient h) pids db)"
  by (simp add: insert_recipients_eq add_recipients_ok)

lemma find_node_None_iff: "find_node h db = None \<longleftrightarrow> h \<notin> pn_node_hash ` set (coc_nodes db)"
  by (auto simp: find_node_def find_None_iff)

lemma find_node_SomeD: "find_node h db = Some r \<Longrightarrow> r \<in> set (coc_nodes db) \<and> pn_node_hash r = h"
  by (auto simp: find_node_def find_Some_iff)

lemma find_node_row:
  assumes "db_ok db" "r \<in> set (coc_nodes db)"
  shows "find_node (pn_node_hash r) db = Some r"
proof -
  have "find_node (pn_node_hash r) db \<noteq> None" unfolding find_node_None_iff using assms(2) by blast
  then obtain q where q: "find_node (pn_node_hash r) db = Some q" by blast
  have "inj_on pn_node_hash (set (coc_nodes db))" using assms(1) by (simp add: db_ok_def distinct_map)
  then show ?thesis using find_node_SomeD [OF q] assms(2) q by (simp add: inj_on_def)
qed

lemma hex_signature_node_row: "hex_signature (pg_node_row ts n)"
  by (auto simp: hex_signature_def pg_node_row_def split: option.splits if_splits)

lemma pg_add_node_ok:
  assumes "db_ok db"
  shows "db_ok (pg_add_node n db)"
proof -
  have "db_ok (db\<lparr>coc_nodes := coc_nodes db @ [pg_node_row ts n]\<rparr>)" if "find_node (node_hash n) db = None" for ts
    using assms that hex_signature_node_row [of ts n] by (simp add: db_ok_def find_node_None_iff) (simp add: pg_node_row_def)
  then show ?thesis using assms by (auto simp: pg_add_node_def intro!: add_recipients_ok split: sum.splits)
qed

text \<open>What \<open>get_node\<close> reads off a row.\<close>

definition row_node :: "coc_db \<Rightarrow> pg_node \<Rightarrow> coc_node" where
  "row_node db r =
     \<lparr>schema_version = pn_schema_version r, content_hash = pn_content_hash r, parent_hash = pn_parent_hash r,
      owner_id = pn_owner_peer_id r, recipient_ids = sort (recipients_of db (pn_node_hash r)),
      timestamp = isoformat (pn_created_at r), children_hashes = children_of db (pn_node_hash r),
      depth = pn_depth r, signature = Option.bind (pn_signature r) fromhex, node_hash = pn_node_hash r\<rparr>"

lemma distinct_children_of: "db_ok db \<Longrightarrow> distinct (children_of db h)"
  by (simp add: children_of_def db_ok_def distinct_map_filter)

lemma node_from_row_dict:
  assumes "db_ok db" "hex_signature r"
  shows "node_from_dict (row_dict db r) = Inr (row_node db r)"
proof -
  have "remdups (children_of db (pn_node_hash r)) = children_of db (pn_node_hash r)"
    using distinct_children_of [OF assms(1)] by simp
  moreover have "as_opt as_str (jopt jstr (pn_parent_hash r)) = Inr (pn_parent_hash r)" by simp
  ultimately show ?thesis using assms(2)
    by (cases "pn_signature r")
       (auto simp: node_from_dict_def row_dict_def row_node_def jdefault_def jreq_def hex_signature_def bytes_hex_Nil_iff)
qed

lemma pg_get_node_row:
  "db_ok db \<Longrightarrow> pg_get_node h db = Inr (map_option (row_node db) (find_node h db))"
  by (auto simp: pg_get_node_def node_from_row_dict db_ok_def dest!: find_node_SomeD split: option.splits)

lemma lookup_node_row: "db_ok db \<Longrightarrow> lookup_node db h = map_option (row_node db) (find_node h db)"
  by (simp add: lookup_node_def pg_get_node_row)

lemma lookup_node_hash: "db_ok db \<Longrightarrow> lookup_node db h = Some n \<Longrightarrow> node_hash n = h"
  by (auto simp: lookup_node_row row_node_def dest: find_node_SomeD)

lemma finite_lookup: "db_ok db \<Longrightarrow> finite (ran (lookup_node db))"
proof -
  assume db: "db_ok db"
  have "ran (lookup_node db) \<subseteq> row_node db ` set (coc_nodes db)"
    by (auto simp: ran_def lookup_node_row [OF db] dest!: find_node_SomeD)
  then show ?thesis by (rule finite_subset) simp
qed

lemma set_recipients_of: "set (recipients_of db h) = {p. (h, p) \<in> set (coc_recipients db)}"
  by (force simp: recipients_of_def)

lemma distinct_recipients_of: "db_ok db \<Longrightarrow> distinct (recipients_of db h)"
  by (auto simp: recipients_of_def db_ok_def distinct_map inj_on_def)

lemma recipients_of_add:
  "recipients_of (add_recipient h pid db) k =
     (if k = h \<and> pid \<notin> set (recipients_of db h) then recipients_of db k @ [pid] else recipients_of db k)"
  by (auto simp: add_recipient_def set_recipients_of) (auto simp: recipients_of_def)

lemma recipients_of_adds:
  "distinct pids \<Longrightarrow> set pids \<inter> set (recipients_of db h) = {} \<Longrightarrow>
   recipients_of (fold (add_recipient h) pids db) k = (if k = h then recipients_of db h @ pids else recipients_of db k)"
proof (induction pids arbitrary: db)
  case (Cons p ps)
  have "set ps \<inter> set (recipients_of (add_recipient h p db) h) = {}" using Cons.prems by (auto simp: recipients_of_add)
  then show ?case using Cons by (simp add: recipients_of_add)
qed simp

lemma children_of_nodes: "coc_nodes db = coc_nodes db' \<Longrightarrow> children_of db = children_of db'"
  by (simp add: children_of_def fun_eq_iff)

section \<open>Storing and reading nodes\<close>

lemma pg_add_new:
  assumes "find_node (node_hash n) db = None" "timestamp n = isoformat t" "dt_ok t"
  shows "coc_nodes (pg_add_node n db) = coc_nodes db @ [pg_node_row t n]"
    and "pg_add_node n db = fold (add_recipient (node_hash n)) (recipient_ids n) (db\<lparr>coc_nodes := coc_nodes db @ [pg_node_row t n]\<rparr>)"
proof -
  have "parse_ts (timestamp n) = Inr t" using assms(2,3) by (simp add: parse_ts_def replace_Z_isoformat)
  then show "pg_add_node n db = fold (add_recipient (node_hash n)) (recipient_ids n) (db\<lparr>coc_nodes := coc_nodes db @ [pg_node_row t n]\<rparr>)"
    using assms(1) by (simp add: pg_add_node_def)
  then show "coc_nodes (pg_add_node n db) = coc_nodes db @ [pg_node_row t n]" by simp
qed

lemma row_node_node_row:
  assumes "node_ok n" "timestamp n = isoformat t" "recipients_of db (node_hash n) = recipient_ids n"
  shows "row_node db (pg_node_row t n) = n\<lparr>children_hashes := children_of db (node_hash n)\<rparr>"
  using assms by (cases "signature n") (auto simp: row_node_def pg_node_row_def node_ok_def sorted_sort_id)

lemma pg_add_get:
  assumes db: "db_ok db" and new: "find_node (node_hash n) db = None" "recipients_of db (node_hash n) = []"
    and n: "node_ok n" "timestamp n = isoformat t" "dt_ok t" "distinct (recipient_ids n)" "parent_hash n \<noteq> Some (node_hash n)"
  shows "pg_get_node (node_hash n) (pg_add_node n db) = Inr (Some (n\<lparr>children_hashes := children_of db (node_hash n)\<rparr>))"
proof -
  let ?db = "pg_add_node n db"
  have ok: "db_ok ?db" by (rule pg_add_node_ok [OF db])
  have rows: "coc_nodes ?db = coc_nodes db @ [pg_node_row t n]" by (rule pg_add_new(1) [OF new(1) n(2,3)])
  have r: "pg_node_row t n \<in> set (coc_nodes ?db)" "pn_node_hash (pg_node_row t n) = node_hash n" by (simp_all add: rows) (simp add: pg_node_row_def)
  have "recipients_of ?db (node_hash n) = recipient_ids n"
    unfolding pg_add_new(2) [OF new(1) n(2,3)]
    using new(2) n(4) by (subst recipients_of_adds) (simp_all add: recipients_of_def)
  then have "row_node ?db (pg_node_row t n) = n\<lparr>children_hashes := children_of ?db (node_hash n)\<rparr>" using row_node_node_row n(1,2) by blast
  moreover have "children_of ?db (node_hash n) = children_of db (node_hash n)"
    using n(5) by (simp add: children_of_def rows) (simp add: pg_node_row_def)
  ultimately show ?thesis using find_node_row [OF ok r(1)] r(2) by (simp add: pg_get_node_row [OF ok])
qed

section \<open>What sharing does to the parent\<close>

lemma length_join: "length (join sep xs) = sum_list (map length xs) + length sep * (length xs - 1)"
  by (induction sep xs rule: join.induct) simp_all

lemma signing_data_recipients:
  assumes "get_signing_data n = get_signing_data m" "schema_version n = schema_version m" "content_hash n = content_hash m"
    "parent_hash n = parent_hash m" "owner_id n = owner_id m" "timestamp n = timestamp m"
  shows "length (join '','' (recipient_ids n)) = length (join '','' (recipient_ids m))"
  using arg_cong [OF assms(1), of length] assms(2-) by (simp add: get_signing_data_def SIG_DELIMITER_def length_join del: join.simps)

lemma sum_list_sort: "sum_list (map length (sort xs)) = sum_list (map length xs)"
  by (metis mset_map mset_sort sum_mset_sum_list)

lemma length_join_sort: "length (join sep (sort xs)) = sum_list (map length xs) + length sep * (length xs - 1)"
  unfolding length_join sum_list_sort by simp

lemma join_recipients_grow:
  "p \<noteq> [] \<Longrightarrow> length (join '','' (sort (xs @ [p]))) > length (join '','' (sort xs))"
  unfolding length_join_sort by (cases xs) simp_all

lemma sort_append_sort: "sort (sort xs @ ys) = sort (xs @ ys)"
  by (rule properties_for_sort) simp_all

lemma find_append: "find P xs = Some r \<Longrightarrow> find P (xs @ ys) = Some r"
  by (induction xs) auto

lemma share_storage:
  assumes "tf_share_document C sk alnum now owner parent (p # ps) content s = (s', res)"
  obtains child where "res = Inr (child, snd (embed_watermark alnum now content p (depth parent + 1) None True True True (sv_stegano s)))"
    "sv_storage s' = fold (insert_recipient (node_hash parent)) (p # ps) (pg_add_node child (sv_storage s))"
    "child = new_node C now (hash_content (snd (embed_watermark alnum now content p (depth parent + 1) None True True True (sv_stegano s))))
       owner sk (p # ps) (Some (node_hash parent)) (depth parent + 1) NODE_SCHEMA_VERSION"
  using assms that by (auto simp: tf_share_document_def service_log_def Let_def split: prod.splits)

lemma shared_parent_row:
  assumes db: "db_ok (sv_storage s)" and row: "find_node (node_hash parent) (sv_storage s) = Some r"
    and share: "tf_share_document C sk alnum now owner parent [p] content s = (s', Inr (child, text))"
    and new: "p \<notin> set (recipients_of (sv_storage s) (node_hash parent))" "node_hash child \<noteq> node_hash parent"
  shows "db_ok (sv_storage s')" "find_node (node_hash parent) (sv_storage s') = Some r"
    "recipients_of (sv_storage s') (node_hash parent) = recipients_of (sv_storage s) (node_hash parent) @ [p]"
proof -
  let ?db = "sv_storage s" and ?h = "node_hash parent"
  have st: "sv_storage s' = insert_recipient ?h p (pg_add_node child ?db)"
    using share_storage [OF share] by (metis (no_types, lifting) fold_simps(1,2) sum.inject(2) prod.inject)
  have ok: "db_ok (pg_add_node child ?db)" by (rule pg_add_node_ok [OF db])
  have f: "find_node ?h (pg_add_node child ?db) = Some r"
    using row by (auto simp: pg_add_node_def find_node_def find_append split: sum.splits)
  have rs: "recipients_of (pg_add_node child ?db) ?h = recipients_of ?db ?h"
  proof -
    have "recipients_of (fold (add_recipient (node_hash child)) ps d) ?h = recipients_of d ?h" for ps d
      using new(2) by (induction ps arbitrary: d) (simp_all add: recipients_of_add)
    then show ?thesis by (simp add: pg_add_node_def recipients_of_def split: sum.splits)
  qed
  show "db_ok (sv_storage s')" unfolding st insert_recipient_def using ok by (simp add: add_recipient_ok)
  show "find_node ?h (sv_storage s') = Some r" using f by (simp add: st insert_recipient_def)
  show "recipients_of (sv_storage s') ?h = recipients_of ?db ?h @ [p]"
    using f new(1) rs by (simp add: st insert_recipient_def recipients_of_add)
qed

text \<open>C40: Sharing a node adds its recipient to the stored recipients of the parent, which the parent's
  signature covers: the parent read back carries the old signature over different signing data.\<close>
theorem sharing_changes_signed_parent:
  assumes "db_ok (sv_storage s)" "find_node (node_hash parent) (sv_storage s) = Some r"
    and "tf_share_document C sk alnum now owner parent [p] content s = (s', Inr (child, text))"
    and "p \<noteq> []" "p \<notin> set (recipients_of (sv_storage s) (node_hash parent))" "node_hash child \<noteq> node_hash parent"
  shows "\<exists>n n'. pg_get_node (node_hash parent) (sv_storage s) = Inr (Some n) \<and>
    pg_get_node (node_hash parent) (sv_storage s') = Inr (Some n') \<and>
    signature n' = signature n \<and> recipient_ids n' = sort (recipient_ids n @ [p]) \<and> get_signing_data n' \<noteq> get_signing_data n"
proof -
  note row = shared_parent_row [OF assms(1-3,5,6)]
  let ?n = "row_node (sv_storage s) r" and ?n' = "row_node (sv_storage s') r"
  have h: "pn_node_hash r = node_hash parent" using find_node_SomeD [OF assms(2)] by simp
  have "recipient_ids ?n' = sort (recipients_of (sv_storage s) (node_hash parent) @ [p])" by (simp add: row_node_def h row(3))
  moreover have "recipient_ids ?n = sort (recipients_of (sv_storage s) (node_hash parent))" by (simp add: row_node_def h)
  ultimately have "recipient_ids ?n' = sort (recipient_ids ?n @ [p])" "get_signing_data ?n' \<noteq> get_signing_data ?n"
    using join_recipients_grow [OF assms(4), of "recipients_of (sv_storage s) (node_hash parent)"]
      signing_data_recipients [of ?n' ?n]
    by (auto simp: row_node_def sort_append_sort)
  then show ?thesis using assms(1,2) row(1,2) by (auto simp: pg_get_node_row) (auto simp: row_node_def)
qed

section \<open>The walks end\<close>

definition child_step :: "(string \<Rightarrow> coc_node option) \<Rightarrow> coc_node \<Rightarrow> coc_node \<Rightarrow> bool" where
  "child_step get n m \<longleftrightarrow> (\<exists>c \<in> set (children_hashes n). get c = Some m)"

definition hash_lookup :: "(string \<Rightarrow> coc_node option) \<Rightarrow> bool" where
  "hash_lookup get \<longleftrightarrow> finite (ran get) \<and> (\<forall>h n. get h = Some n \<longrightarrow> node_hash n = h \<and> distinct (children_hashes n))"

definition node_edges :: "(string list \<Rightarrow> string list) \<Rightarrow> coc_node \<Rightarrow> edge list" where
  "node_edges order n = map (\<lambda>c. (Some (node_hash n), Some c)) (order (children_hashes n))"

lemma hash_lookup_db: "db_ok db \<Longrightarrow> hash_lookup (lookup_node db)"
  by (auto simp: hash_lookup_def finite_lookup lookup_node_hash) (auto simp: lookup_node_row row_node_def distinct_children_of)

lemma hash_lookup_ran: "hash_lookup get \<Longrightarrow> n \<in> ran get \<Longrightarrow> get (node_hash n) = Some n"
  by (auto simp: hash_lookup_def ran_def)

lemma walk_down_Nil: "walk_down get order [] seen edges = Some (seen, edges)"
  by (simp add: walk_down.simps)

lemma walk_down_Cons:
  "walk_down get order (n # st) seen edges =
     (if node_hash n \<in> node_hash ` set seen then walk_down get order st seen edges
      else walk_down get order (rev (List.map_filter get (order (children_hashes n))) @ st) (seen @ [n]) (edges @ node_edges order n))"
  by (subst walk_down.simps) (simp add: Let_def node_edges_def)

lemma set_pushed:
  assumes "lists_members order" "hash_lookup get" "n \<in> ran get"
  shows "set (rev (List.map_filter get (order (children_hashes n)))) = {m. child_step get n m}"
proof -
  have "distinct (children_hashes n)" using assms(2,3) by (auto simp: hash_lookup_def ran_def)
  then have "set (order (children_hashes n)) = set (children_hashes n)" using assms(1) by (simp add: lists_members_def)
  then show ?thesis by (force simp: child_step_def map_filter_def)
qed

text \<open>What the walk adds to what it has seen: each node once, nothing that is not below the stack.\<close>

lemma walk_down_correct:
  assumes "lists_members order" "hash_lookup get"
    and "set stack \<subseteq> ran get" "set seen \<subseteq> ran get"
  shows "\<exists>new. walk_down get order stack seen edges = Some (seen @ new, edges @ concat (map (node_edges order) new)) \<and>
    set new \<subseteq> ran get \<and> (distinct seen \<longrightarrow> distinct (seen @ new)) \<and>
    set stack \<subseteq> set (seen @ new) \<and> (\<forall>n \<in> set new. \<forall>m. child_step get n m \<longrightarrow> m \<in> set (seen @ new)) \<and>
    (\<forall>n \<in> set new. \<exists>m \<in> set stack. (child_step get)\<^sup>*\<^sup>* m n)"
  using assms(3,4)
proof (induction "(card (ran get - set seen), length stack)" arbitrary: stack seen edges rule: wf_induct_rule
    [OF wf_lex_prod [OF wf_less_than wf_less_than]])
  case 1
  have fin: "finite (ran get)" using assms(2) by (simp add: hash_lookup_def)
  show ?case
  proof (cases stack)
    case Nil
    then show ?thesis by (intro exI [of _ "[]"]) (simp add: walk_down_Nil)
  next
    case (Cons n st)
    have n: "n \<in> ran get" "set st \<subseteq> ran get" using "1.prems" Cons by auto
    have mem: "node_hash n \<in> node_hash ` set seen \<longleftrightarrow> n \<in> set seen"
    proof
      assume "node_hash n \<in> node_hash ` set seen"
      then obtain m where m: "m \<in> set seen" "node_hash m = node_hash n" by auto
      then show "n \<in> set seen" using hash_lookup_ran [OF assms(2)] n(1) "1.prems"(2)
        by (metis option.inject subsetD)
    qed simp
    show ?thesis
    proof (cases "n \<in> set seen")
      case True
      have "((card (ran get - set seen), length st), (card (ran get - set seen), length stack)) \<in> less_than <*lex*> less_than"
        using Cons by simp
      from "1.hyps" [OF this n(2) "1.prems"(2)] show ?thesis using True Cons by (simp add: walk_down_Cons mem) blast
    next
      case False
      let ?cs = "rev (List.map_filter get (order (children_hashes n)))"
      have cs: "set ?cs = {m. child_step get n m}" by (rule set_pushed [OF assms(1,2) n(1)])
      have sub: "set (?cs @ st) \<subseteq> ran get" "set (seen @ [n]) \<subseteq> ran get"
        using cs n "1.prems"(2) by (auto simp: child_step_def ran_def)
      have "card (ran get - set (seen @ [n])) < card (ran get - set seen)"
        using fin False n(1) by (intro psubset_card_mono) auto
      then have "((card (ran get - set (seen @ [n])), length (?cs @ st)), (card (ran get - set seen), length stack)) \<in> less_than <*lex*> less_than"
        by simp
      from "1.hyps" [OF this sub, of "edges @ node_edges order n"] obtain new where
        new: "walk_down get order (?cs @ st) (seen @ [n]) (edges @ node_edges order n) =
            Some ((seen @ [n]) @ new, (edges @ node_edges order n) @ concat (map (node_edges order) new))"
          "set new \<subseteq> ran get" "distinct (seen @ [n]) \<longrightarrow> distinct ((seen @ [n]) @ new)"
          "set (?cs @ st) \<subseteq> set ((seen @ [n]) @ new)"
          "\<forall>k \<in> set new. \<forall>m. child_step get k m \<longrightarrow> m \<in> set ((seen @ [n]) @ new)"
          "\<forall>k \<in> set new. \<exists>m \<in> set (?cs @ st). (child_step get)\<^sup>*\<^sup>* m k" by blast
      have "\<forall>k \<in> set (n # new). \<exists>m \<in> set stack. (child_step get)\<^sup>*\<^sup>* m k"
      proof
        fix k assume k: "k \<in> set (n # new)"
        show "\<exists>m \<in> set stack. (child_step get)\<^sup>*\<^sup>* m k"
        proof (cases "k = n")
          case False
          then obtain m where m: "m \<in> set (?cs @ st)" "(child_step get)\<^sup>*\<^sup>* m k" using new(6) k by auto
          then show ?thesis using cs Cons by (auto intro: converse_rtranclp_into_rtranclp)
        qed (use Cons in auto)
      qed
      moreover have "\<forall>k \<in> set (n # new). \<forall>m. child_step get k m \<longrightarrow> m \<in> set (seen @ n # new)"
        using new(4,5) cs by auto
      moreover have "walk_down get order stack seen edges = Some (seen @ n # new, edges @ concat (map (node_edges order) (n # new)))"
        using new(1) Cons False mem by (simp add: walk_down_Cons)
      moreover have "distinct seen \<longrightarrow> distinct (seen @ n # new)" using new(3) False by simp
      moreover have "set stack \<subseteq> set (seen @ n # new)" using new(4) Cons by auto
      ultimately show ?thesis using new(2) n(1) by (intro exI [of _ "n # new"]) simp
    qed
  qed
qed

lemma augment_nodes_nodes [simp]: "map sn_node (augment_nodes now users documents ns) = ns"
  by (induction ns) (simp_all add: augment_nodes_def Let_def split: prod.splits)

lemma rtranclp_closed: "(child_step get)\<^sup>*\<^sup>* m n \<Longrightarrow> m \<in> A \<Longrightarrow> \<forall>k \<in> A. \<forall>l. child_step get k l \<longrightarrow> l \<in> A \<Longrightarrow> n \<in> A"
  by (induction rule: rtranclp_induct) auto

lemma walk_down_root:
  assumes "lists_members order" "hash_lookup get" "root \<in> ran get"
  shows "\<exists>ns. walk_down get order [root] [] [] = Some (ns, concat (map (node_edges order) ns)) \<and>
    distinct ns \<and> set ns = {n. (child_step get)\<^sup>*\<^sup>* root n} \<and> set ns \<subseteq> ran get"
proof -
  obtain ns where ns: "walk_down get order [root] [] [] = Some (ns, concat (map (node_edges order) ns))" "distinct ns" "set ns \<subseteq> ran get"
    "root \<in> set ns" "\<forall>n \<in> set ns. \<forall>m. child_step get n m \<longrightarrow> m \<in> set ns" "\<forall>n \<in> set ns. (child_step get)\<^sup>*\<^sup>* root n"
    using walk_down_correct [OF assms(1,2), of "[root]" "[]" "[]"] assms(3) by auto
  then show ?thesis using rtranclp_closed [of get root _ "set ns"] by blast
qed

text \<open>C39: The trace of a document always ends, for every content of the tables and every order of the
  children: it lists each node of the custody tree below the document's root exactly once, and
  exactly the edges from these nodes to their children.\<close>
theorem trace_lists_custody_tree:
  assumes "lists_members order" "db_ok db" "lookup_node db root_hash = Some root"
  shows "\<exists>nodes edges. get_trace_for_document order now users documents root_hash db = Some (nodes, edges) \<and>
    distinct (map (node_hash \<circ> sn_node) nodes) \<and>
    sn_node ` set nodes = {n. (child_step (lookup_node db))\<^sup>*\<^sup>* root n} \<and>
    set edges = {(Some (node_hash n), Some c) |n c. (child_step (lookup_node db))\<^sup>*\<^sup>* root n \<and> c \<in> set (children_hashes n)}"
proof -
  have h: "hash_lookup (lookup_node db)" by (rule hash_lookup_db [OF assms(2)])
  have "root \<in> ran (lookup_node db)" using assms(3) by (rule ranI)
  from walk_down_root [OF assms(1) h this] obtain ns where
    ns: "walk_down (lookup_node db) order [root] [] [] = Some (ns, concat (map (node_edges order) ns))" "distinct ns"
      "set ns = {n. (child_step (lookup_node db))\<^sup>*\<^sup>* root n}" "set ns \<subseteq> ran (lookup_node db)" by blast
  have "inj_on node_hash (set ns)" using ns(4) hash_lookup_ran [OF h] by (metis inj_onI option.inject subsetD)
  then have d: "distinct (map node_hash ns)" using ns(2) by (simp add: distinct_map)
  have e: "set (order (children_hashes n)) = set (children_hashes n)" if "n \<in> set ns" for n
    using that ns(4) h assms(1) by (auto simp: hash_lookup_def lists_members_def ran_def)
  let ?a = "augment_nodes now users documents ns"
  have a: "sn_node ` set ?a = set ns" "map (node_hash \<circ> sn_node) ?a = map node_hash ns"
    by (metis augment_nodes_nodes list.set_map) (metis augment_nodes_nodes map_map)
  have "set (concat (map (node_edges order) ns)) = {(Some (node_hash n), Some c) |n c. n \<in> set ns \<and> c \<in> set (children_hashes n)}"
    using e by (auto simp: node_edges_def)
  then show ?thesis using ns(1,3) a d assms(3) by (simp add: get_trace_for_document_def)
qed

definition sample_row :: "string \<Rightarrow> string option \<Rightarrow> int \<Rightarrow> pg_node" where
  "sample_row h parent d = \<lparr>pn_node_hash = h, pn_content_hash = ''c'', pn_parent_hash = parent, pn_owner_peer_id = ''alice'',
     pn_signature = Some (bytes_hex [1]), pn_depth = d, pn_schema_version = 2, pn_created_at = 0\<rparr>"

definition sample_db :: coc_db where
  "sample_db = \<lparr>coc_nodes = [sample_row ''root'' None 0, sample_row ''kid'' (Some ''root'') 1],
     coc_recipients = [(''kid'', ''bob'')], tombstones = []\<rparr>"

lemma sample_db_ok: "db_ok sample_db"
  by (auto simp: db_ok_def sample_db_def sample_row_def hex_signature_def)

lemma sample_root: "find_node ''root'' sample_db = Some (sample_row ''root'' None 0)"
  by (simp add: find_node_def sample_db_def sample_row_def)

theorem trace_lists_custody_tree_witness:
  "\<exists>nodes edges. get_trace_for_document id 0 [] [] ''root'' sample_db = Some (nodes, edges) \<and>
    distinct (map (node_hash \<circ> sn_node) nodes) \<and> (Some ''root'', Some ''kid'') \<in> set edges"
proof -
  let ?root = "row_node sample_db (sample_row ''root'' None 0)"
  have l: "lookup_node sample_db ''root'' = Some ?root" by (simp add: lookup_node_row [OF sample_db_ok] sample_root)
  have k: "''kid'' \<in> set (children_hashes ?root)" "node_hash ?root = ''root''"
    by (simp_all add: row_node_def children_of_def sample_db_def sample_row_def)
  have "lists_members id" by (simp add: lists_members_def)
  from trace_lists_custody_tree [OF this sample_db_ok l, of 0 "[]" "[]"] obtain nodes edges where
    t: "get_trace_for_document id 0 [] [] ''root'' sample_db = Some (nodes, edges)" "distinct (map (node_hash \<circ> sn_node) nodes)"
      "set edges = {(Some (node_hash n), Some c) |n c. (child_step (lookup_node sample_db))\<^sup>*\<^sup>* ?root n \<and> c \<in> set (children_hashes n)}"
    by blast
  have "(Some (node_hash ?root), Some ''kid'') \<in> set edges" unfolding t(3) using k(1) by blast
  then show ?thesis using t(1,2) k(2) by auto
qed

definition sample_service :: service where
  "sample_service = \<lparr>sv_audit_log = \<lparr>log_file = None, last_hash = []\<rparr>, sv_stegano = [], sv_storage = sample_db\<rparr>"

theorem sharing_changes_signed_parent_witness:
  "\<exists>n n'. let parent = row_node sample_db (sample_row ''root'' None 0);
      s' = fst (tf_share_document toy_crypto [1] (\<lambda>_. False) 0 ''alice'' parent [''bob''] [104, 105] sample_service)
    in pg_get_node ''root'' sample_db = Inr (Some n) \<and> pg_get_node ''root'' (sv_storage s') = Inr (Some n') \<and>
       signature n' = signature n \<and> recipient_ids n' = sort (recipient_ids n @ [''bob'']) \<and> get_signing_data n' \<noteq> get_signing_data n"
proof -
  let ?p = "row_node sample_db (sample_row ''root'' None 0)"
  let ?t = "tf_share_document toy_crypto [1] (\<lambda>_. False) 0 ''alice'' ?p [''bob''] [104, 105] sample_service"
  obtain s' res where s': "?t = (s', res)" by fastforce
  obtain child wm where c: "res = Inr (child, wm)" "child = new_node toy_crypto 0 (hash_content wm) ''alice'' [1] [''bob''] (Some (node_hash ?p))
      (depth ?p + 1) NODE_SCHEMA_VERSION"
    using share_storage [OF s'] by blast
  have h: "node_hash ?p = ''root''" by (simp add: row_node_def sample_row_def)
  have "length (node_hash child) = 64" by (simp add: c(2) new_node_def Let_def)
  then have "node_hash child \<noteq> node_hash ?p" unfolding h by (intro notI) simp
  moreover have "''bob'' \<notin> set (recipients_of (sv_storage sample_service) (node_hash ?p))"
    unfolding h by (simp add: recipients_of_def sample_service_def sample_db_def)
  moreover have "find_node (node_hash ?p) (sv_storage sample_service) = Some (sample_row ''root'' None 0)"
    unfolding h by (simp add: sample_service_def sample_root)
  ultimately show ?thesis
    using sharing_changes_signed_parent [of sample_service ?p _ toy_crypto "[1]" "\<lambda>_. False" 0 "''alice''" "''bob''" "[104, 105]" s' child wm]
      s' c(1) sample_db_ok h by (simp add: Let_def sample_service_def)
qed

text \<open>
  The climb of the graph query ends when no node is its own ancestor, which holds in particular when
  every stored parent has a smaller depth than its children.
\<close>

lemma climb_ends:
  assumes "\<And>n p m. n \<in> ran get \<Longrightarrow> parent_hash n = Some p \<Longrightarrow> get p = Some m \<Longrightarrow> depth m < depth n"
    and "\<And>n. n \<in> ran get \<Longrightarrow> 0 \<le> depth n" "n \<in> ran get"
  shows "\<exists>r \<in> ran get. climb get n = Some r"
  using assms(3)
proof (induction "nat (depth n)" arbitrary: n rule: less_induct)
  case less
  show ?case
  proof (cases "Option.bind (parent_hash n) (\<lambda>p. if p = [] then None else get p)")
    case None
    then have "climb get n = Some n" by (subst climb.simps) (auto split: option.splits if_splits bind_splits)
    then show ?thesis using less.prems by blast
  next
    case (Some m)
    then obtain p where p: "parent_hash n = Some p" "p \<noteq> []" "get p = Some m" by (auto split: bind_splits if_splits)
    then have "climb get n = climb get m" by (subst climb.simps) simp
    moreover have m: "m \<in> ran get" using p(3) by (rule ranI)
    moreover have "nat (depth m) < nat (depth n)" using assms(1) [OF less.prems p(1,3)] assms(2) [OF m] by simp
    ultimately show ?thesis using less.hyps by simp
  qed
qed

end
