(* ===== verification/Files.thy ===== *)
theory Files
  imports Strings
begin

text \<open>
  What the document service uses of Python's files and paths: decoding UTF-8 with
  \<open>errors="replace"\<close>, the newline translation of a file opened for reading as text, and
  \<open>Path.suffix\<close>. The file system is a map from paths to contents.
\<close>

section \<open>Decoding with replacement\<close>

definition replacement :: nat where
  "replacement = 65533"

text \<open>
  The first character of a byte sequence and the number of bytes it takes. Where the bytes are no
  character, the longest prefix that begins one is replaced; the bounds on the second byte exclude
  overlong forms, surrogates and values above the last code point.
\<close>

definition second :: "nat \<Rightarrow> nat \<Rightarrow> bool" where
  "second a b \<longleftrightarrow> cont b \<and> (a = 224 \<longrightarrow> 160 \<le> b) \<and> (a = 237 \<longrightarrow> b < 160) \<and> (a = 240 \<longrightarrow> 144 \<le> b) \<and> (a = 244 \<longrightarrow> b < 144)"

fun first_char :: "nat list \<Rightarrow> nat \<times> nat" where
  "first_char [] = (replacement, 1)"
| "first_char (a # bs) =
     (if a < 128 then (a, 1)
      else if 194 \<le> a \<and> a < 224 then
        (case bs of b # _ \<Rightarrow> if cont b then ((a - 192) * 64 + (b - 128), 2) else (replacement, 1) | [] \<Rightarrow> (replacement, 1))
      else if 224 \<le> a \<and> a < 240 then
        (case bs of
           b # bs' \<Rightarrow>
             if \<not> second a b then (replacement, 1)
             else (case bs' of
                     c # _ \<Rightarrow> if cont c then ((a - 224) * 4096 + (b - 128) * 64 + (c - 128), 3) else (replacement, 2)
                   | [] \<Rightarrow> (replacement, 2))
         | [] \<Rightarrow> (replacement, 1))
      else if 240 \<le> a \<and> a < 245 then
        (case bs of
           b # bs' \<Rightarrow>
             if \<not> second a b then (replacement, 1)
             else (case bs' of
                     c # bs'' \<Rightarrow>
                       if \<not> cont c then (replacement, 2)
                       else (case bs'' of
                               d # _ \<Rightarrow> if cont d then ((a - 240) * 262144 + (b - 128) * 4096 + (c - 128) * 64 + (d - 128), 4)
                                       else (replacement, 3)
                             | [] \<Rightarrow> (replacement, 3))
                   | [] \<Rightarrow> (replacement, 2))
         | [] \<Rightarrow> (replacement, 1))
      else (replacement, 1))"

lemma first_char_progress: "0 < snd (first_char bs)"
  by (cases bs) (auto split: list.splits)

function replace_dec :: "nat list \<Rightarrow> ustr" where
  "replace_dec bs = (if bs = [] then [] else fst (first_char bs) # replace_dec (drop (snd (first_char bs)) bs))"
  by pat_completeness auto
termination
  by (relation "measure length") (use first_char_progress in auto)

declare replace_dec.simps [simp del]

definition decode_replace :: "bytes \<Rightarrow> ustr" where
  "decode_replace bs = replace_dec (map unat bs)"

section \<open>Text files and paths\<close>

fun newlines :: "bool \<Rightarrow> ustr \<Rightarrow> ustr" where
  "newlines skip [] = []"
| "newlines skip (c # s) =
     (if c = 13 then 10 # newlines True s
      else if c = 10 \<and> skip then newlines False s
      else c # newlines False s)"

definition universal_newlines :: "ustr \<Rightarrow> ustr" where
  "universal_newlines s = newlines False s"

definition read_text :: "bytes \<Rightarrow> ustr" where
  "read_text bs = universal_newlines (decode_replace bs)"

text \<open>The last component of a path and its suffix: from the last dot, unless that is the first or the last character.\<close>

definition path_name :: "string \<Rightarrow> string" where
  "path_name p =
     (let cs = filter (\<lambda>c. c \<noteq> [] \<and> c \<noteq> ''.'') (split ''/'' p) in if cs = [] then [] else last cs)"

definition path_suffix :: "string \<Rightarrow> string" where
  "path_suffix p =
     (let name = path_name p; ext = rev (takeWhile (\<lambda>c. c \<noteq> CHR ''.'') (rev name))
      in if ext = name \<or> ext = [] \<or> Suc (length ext) = length name then [] else CHR ''.'' # ext)"

definition path_join :: "string \<Rightarrow> string \<Rightarrow> string" where
  "path_join dir name = dir @ CHR ''/'' # name"

section \<open>Decoding what was encoded\<close>

lemma replace_dec_Nil [simp]: "replace_dec [] = []"
  by (simp add: replace_dec.simps)

lemma replace_dec_step: "bs \<noteq> [] \<Longrightarrow> first_char bs = (c, n) \<Longrightarrow> replace_dec bs = c # replace_dec (drop n bs)"
  by (subst replace_dec.simps) simp

lemma first_char_cp:
  assumes "scalar c"
  shows "first_char (utf8_cp c @ bs) = (c, length (utf8_cp c))"
proof -
  consider "c < 128" | "128 \<le> c" "c < 2048" | "2048 \<le> c" "c < 65536" | "65536 \<le> c" "c < 1114112"
    using assms by (fastforce simp: scalar_def)
  then show ?thesis
  proof cases
    case 2
    then have "2 \<le> c div 64" "c div 64 < 32" by auto
    with 2 show ?thesis by (simp add: utf8_cp_def)
  next
    case 3
    then have k: "c div 4096 < 16" by auto
    have "second (224 + c div 4096) (128 + c div 64 mod 64)"
    proof -
      have "c div 64 = 64 * (c div 4096) + c div 64 mod 64"
        using div_mult2_eq [of c 64 64] mult_div_mod_eq [of 64 "c div 64"] by simp
      moreover have "32 \<le> c div 64" using 3 by auto
      moreover have "c div 64 < 864 \<or> 896 \<le> c div 64" using assms 3 by (auto simp: scalar_def)
      ultimately show ?thesis using k by (auto simp: second_def cont_add)
    qed
    with 3 k show ?thesis by (simp add: utf8_cp_def utf8_split3)
  next
    case 4
    then have k: "c div 262144 < 5" by auto
    have "second (240 + c div 262144) (128 + c div 4096 mod 64)"
    proof -
      have "c div 4096 = 64 * (c div 262144) + c div 4096 mod 64"
        using div_mult2_eq [of c 4096 64] mult_div_mod_eq [of 64 "c div 4096"] by simp
      moreover have "16 \<le> c div 4096" "c div 4096 < 272" using 4 by auto
      ultimately show ?thesis by (auto simp: second_def cont_add)
    qed
    with 4 k show ?thesis by (simp add: utf8_cp_def utf8_split4)
  qed (simp add: utf8_cp_def)
qed

lemma replace_dec_concat: "scalar_text s \<Longrightarrow> replace_dec (concat (map utf8_cp s)) = s"
proof (induction s)
  case (Cons c s)
  then have c: "scalar c" "scalar_text s" by (simp_all add: scalar_text_def)
  have "utf8_cp c @ concat (map utf8_cp s) \<noteq> []" by (simp add: utf8_cp_def)
  then show ?case using replace_dec_step [OF _ first_char_cp [OF c(1)]] Cons.IH [OF c(2)] by simp
qed simp

lemma unat_utf8: "scalar_text s \<Longrightarrow> map unat (utf8 s) = concat (map utf8_cp s)"
  unfolding utf8_def map_map
  by (intro map_idI) (auto simp: scalar_text_def unat_of_nat dest!: utf8_cp_byte)

lemma decode_replace_utf8 [simp]: "scalar_text s \<Longrightarrow> decode_replace (utf8 s) = s"
  by (simp add: decode_replace_def unat_utf8 replace_dec_concat)

lemma scalar_2: "194 \<le> a \<Longrightarrow> a < 224 \<Longrightarrow> cont b \<Longrightarrow> scalar ((a - 192) * 64 + (b - 128))"
  unfolding scalar_def cont_def by linarith

lemma scalar_3:
  assumes "224 \<le> a" "a < 240" "second a b" "cont c"
  shows "scalar ((a - 224) * 4096 + (b - 128) * 64 + (c - 128))"
proof -
  obtain k j i where eq: "a = 224 + k" "b = 128 + j" "c = 128 + i"
    using assms by (metis le_Suc_ex cont_def second_def)
  then have "j < 64" "i < 64" "k = 13 \<longrightarrow> j < 32" using assms by (auto simp: second_def cont_def)
  then show ?thesis unfolding eq scalar_def using assms(2) eq(1) by (cases "k < 13"; cases "k = 13") auto
qed

lemma scalar_4:
  assumes "240 \<le> a" "a < 245" "second a b" "cont c" "cont d"
  shows "scalar ((a - 240) * 262144 + (b - 128) * 4096 + (c - 128) * 64 + (d - 128))"
proof -
  obtain k j i h where eq: "a = 240 + k" "b = 128 + j" "c = 128 + i" "d = 128 + h"
    using assms by (metis le_Suc_ex cont_def second_def)
  then have "j < 64" "i < 64" "h < 64" "k = 0 \<longrightarrow> 16 \<le> j" "k = 4 \<longrightarrow> j < 16" using assms by (auto simp: second_def cont_def)
  then show ?thesis unfolding eq scalar_def using assms(2) eq(1) by (cases "k = 0"; cases "k = 4") auto
qed

lemma first_char_scalar: "scalar (fst (first_char bs))"
proof -
  have r: "scalar replacement" by (simp add: scalar_def replacement_def)
  have b: "scalar a" if "a < 128" for a using that by (simp add: scalar_def)
  show ?thesis using r b scalar_2 scalar_3 scalar_4 by (cases bs) (simp_all split: list.splits)
qed

lemma replace_dec_scalar: "scalar_text (replace_dec bs)"
proof (induction bs rule: replace_dec.induct)
  case (1 bs)
  show ?case
  proof (cases "bs = []")
    case False
    then show ?thesis using 1 [OF False] first_char_scalar [of bs] by (subst replace_dec.simps) (simp add: scalar_text_def)
  qed (simp add: scalar_text_def)
qed

text \<open>Whatever the bytes, decoding with replacement gives text that can be encoded again.\<close>

lemma decode_replace_scalar: "scalar_text (decode_replace bs)"
  by (simp add: decode_replace_def replace_dec_scalar)

lemma newlines_id: "13 \<notin> set s \<Longrightarrow> newlines False s = s"
  by (induction s) auto

lemma set_newlines: "set (newlines skip s) \<subseteq> insert 10 (set s)"
  by (induction skip s rule: newlines.induct) auto

lemma read_text_scalar: "scalar_text (read_text bs)"
  using set_newlines [of False "decode_replace bs"] decode_replace_scalar [of bs]
  by (auto simp: read_text_def universal_newlines_def scalar_text_def scalar_def)

lemma read_text_utf8: "scalar_text s \<Longrightarrow> 13 \<notin> set s \<Longrightarrow> read_text (utf8 s) = s"
  by (simp add: read_text_def universal_newlines_def newlines_id)

lemma path_suffix_cases: "path_suffix p = [] \<or> (\<exists>e. path_suffix p = CHR ''.'' # e)"
  by (simp add: path_suffix_def Let_def)

end
