(* ===== verification/Documents.thy ===== *)
theory Documents
  imports Service Files
begin

text \<open>
  The document routes of the service (\<open>trustdocs/documents/routes.py\<close>): upload, listing, metadata,
  download, sharing, trace, revocation, recycle bin, restore and purge.

  A handler takes the row of the authenticated user and the state of the application and returns the
  new state with the response, or with the status of the \<open>HTTPException\<close> or the exception it raises.
  The clock readings of one request are one instant, the identifiers \<open>uuid4\<close> draws are arguments, and
  \<open>lower\<close> stands for \<open>str.lower\<close>.
\<close>

section \<open>State\<close>

record config =
  cfg_storage_dir :: string
  cfg_node_id :: string
  cfg_session_ttl_hours :: int
  cfg_max_file_size_mb :: nat

record app =
  app_users :: "user_row table"
  app_sessions :: "session_row table"
  app_documents :: "document_row table"
  app_shares :: "share_row table"
  app_service :: service
  app_files :: "string \<rightharpoonup> bytes"

datatype http_error = Http nat | Crash pyexn

type_synonym 'a response = "http_error + 'a"

section \<open>Access\<close>

text \<open>The lookups every route begins with.\<close>

definition live_document :: "string \<Rightarrow> 'a app_scheme \<Rightarrow> document_row option" where
  "live_document doc_id a =
     (case find_one (\<lambda>d. d_id d = doc_id) (app_documents a) of
        None \<Rightarrow> None
      | Some d \<Rightarrow> if d_status d \<in> {''deleted'', ''recycled''} then None else Some d)"

definition active_share :: "string \<Rightarrow> string \<Rightarrow> 'a app_scheme \<Rightarrow> share_row option" where
  "active_share doc_id uid a =
     find_one (\<lambda>s. s_document_id s = doc_id \<and> s_recipient_id s = uid \<and> s_status s = ''active'') (app_shares a)"

definition may_access :: "document_row \<Rightarrow> user_row \<Rightarrow> 'a app_scheme \<Rightarrow> bool" where
  "may_access d user a \<longleftrightarrow> d_owner_id d = u_id user \<or> active_share (d_id d) (u_id user) a \<noteq> None"

section \<open>Responses\<close>

record doc_response =
  dr_id :: string
  dr_filename :: string
  dr_mime_type :: string
  dr_size_bytes :: nat
  dr_content_hash :: string
  dr_coc_node_hash :: string
  dr_status :: string
  dr_created_at :: datetime
  dr_owner_username :: string
  dr_is_owner :: bool
  dr_share_count :: nat

definition doc_to_response :: "document_row \<Rightarrow> user_row \<Rightarrow> 'a app_scheme \<Rightarrow> doc_response" where
  "doc_to_response d user a =
     (let owner = find_one (\<lambda>u. u_id u = d_owner_id d) (app_users a);
          shares = find_many s_created_at (\<lambda>s. s_document_id s = d_id d \<and> s_status s = ''active'') (app_shares a)
      in \<lparr>dr_id = d_id d, dr_filename = d_filename d, dr_mime_type = d_mime_type d, dr_size_bytes = d_size_bytes d,
          dr_content_hash = d_content_hash d, dr_coc_node_hash = d_coc_node_hash d, dr_status = d_status d,
          dr_created_at = d_created_at d,
          dr_owner_username = (case owner of None \<Rightarrow> ''unknown'' | Some u \<Rightarrow> u_username u),
          dr_is_owner = (d_owner_id d = u_id user), dr_share_count = length shares\<rparr>)"

section \<open>Uploading and reading\<close>

definition or_default :: "string option \<Rightarrow> string \<Rightarrow> string" where
  "or_default s d = (case s of None \<Rightarrow> d | Some t \<Rightarrow> if t = [] then d else t)"

definition upload_document ::
  "crypto \<Rightarrow> signing_key \<Rightarrow> config \<Rightarrow> datetime \<Rightarrow> string \<Rightarrow> string option \<Rightarrow> string option \<Rightarrow> bytes \<Rightarrow> user_row
   \<Rightarrow> 'a app_scheme \<Rightarrow> 'a app_scheme \<times> doc_response response" where
  "upload_document C sk cfg now file_id filename content_type content user a =
     (if length content > cfg_max_file_size_mb cfg * 1024 * 1024 then (a, Inl (Http 413))
      else
        let content_text = decode_replace content;
            ext = path_suffix (or_default filename ''file'');
            storage_path = path_join (cfg_storage_dir cfg) (file_id @ ext);
            a = a\<lparr>app_files := (app_files a)(storage_path \<mapsto> content)\<rparr>;
            (s, node) = create_document_node C sk now (u_peer_id user) content_text [] (app_service a);
            doc = \<lparr>d_id = file_id, d_owner_id = u_id user, d_filename = or_default filename ''untitled'',
                   d_mime_type = or_default content_type ''application/octet-stream'', d_size_bytes = length content,
                   d_storage_path = storage_path, d_storage_node = cfg_node_id cfg, d_content_hash = content_hash node,
                   d_coc_node_hash = node_hash node, d_status = ''active'', d_created_at = now,
                   d_deleted_at = None, d_recycled_at = None\<rparr>;
            a = a\<lparr>app_service := s, app_documents := insert_row file_id doc (app_documents a)\<rparr>
        in (a, Inr (doc_to_response doc user a)))"

definition shared_documents :: "user_row \<Rightarrow> 'a app_scheme \<Rightarrow> document_row list" where
  "shared_documents user a =
     List.map_filter (\<lambda>s. case find_one (\<lambda>d. d_id d = s_document_id s) (app_documents a) of
         None \<Rightarrow> None | Some d \<Rightarrow> if d_status d = ''active'' then Some d else None)
       (find_many s_created_at (\<lambda>s. s_recipient_id s = u_id user \<and> s_status s = ''active'') (app_shares a))"

definition owned_documents :: "string \<Rightarrow> user_row \<Rightarrow> 'a app_scheme \<Rightarrow> document_row list" where
  "owned_documents status user a = find_many d_created_at (\<lambda>d. d_owner_id d = u_id user \<and> d_status d = status) (app_documents a)"

definition list_documents :: "user_row \<Rightarrow> 'a app_scheme \<Rightarrow> doc_response list \<times> doc_response list" where
  "list_documents user a =
     (map (\<lambda>d. doc_to_response d user a) (owned_documents ''active'' user a),
      map (\<lambda>d. doc_to_response d user a) (shared_documents user a))"

definition list_recycled_documents :: "user_row \<Rightarrow> 'a app_scheme \<Rightarrow> doc_response list" where
  "list_recycled_documents user a = map (\<lambda>d. doc_to_response d user a) (owned_documents ''recycled'' user a)"

definition infix_of :: "string \<Rightarrow> string \<Rightarrow> bool" where
  "infix_of p s \<longleftrightarrow> (\<exists>i \<in> set [0..<Suc (length s)]. take (length p) (drop i s) = p)"

definition search_documents ::
  "(string \<Rightarrow> string) \<Rightarrow> string \<Rightarrow> user_row \<Rightarrow> 'a app_scheme \<Rightarrow> doc_response list \<times> doc_response list \<times> doc_response list" where
  "search_documents lower q user a =
     (let matching = filter (\<lambda>d. infix_of (lower q) (lower (d_filename d)));
          show_all = map (\<lambda>d. doc_to_response d user a)
      in (show_all (matching (owned_documents ''active'' user a)),
          show_all (matching (shared_documents user a)),
          show_all (matching (owned_documents ''recycled'' user a))))"

definition get_document :: "string \<Rightarrow> user_row \<Rightarrow> 'a app_scheme \<Rightarrow> doc_response response" where
  "get_document doc_id user a =
     (case live_document doc_id a of
        None \<Rightarrow> Inl (Http 404)
      | Some d \<Rightarrow> if may_access d user a then Inr (doc_to_response d user a) else Inl (Http 403))"

text \<open>The file response: the content of the file at the document's path; a missing file makes the response fail.\<close>

definition download_document :: "datetime \<Rightarrow> string \<Rightarrow> user_row \<Rightarrow> 'a app_scheme \<Rightarrow> 'a app_scheme \<times> bytes response" where
  "download_document now doc_id user a =
     (case live_document doc_id a of
        None \<Rightarrow> (a, Inl (Http 404))
      | Some d \<Rightarrow>
          if (case pg_get_tombstone (d_content_hash d) (sv_storage (app_service a)) of
                None \<Rightarrow> False | Some t \<Rightarrow> \<not> tombstone_expired now t) then (a, Inl (Http 409))
          else if \<not> may_access d user a then (a, Inl (Http 403))
          else
            let a = a\<lparr>app_service := service_log now ''ACCESS'' (u_peer_id user) (d_coc_node_hash d) [] (app_service a)\<rparr>
            in (a, case app_files a (d_storage_path d) of None \<Rightarrow> Inl (Crash RuntimeError) | Some bs \<Rightarrow> Inr bs))"

section \<open>Sharing\<close>

definition shared_path :: "config \<Rightarrow> document_row \<Rightarrow> string \<Rightarrow> string" where
  "shared_path cfg d uid = path_join (cfg_storage_dir cfg) (d_id d @ ''_shared_'' @ uid @ path_suffix (d_filename d))"

text \<open>The stored parent node or, when it is missing, one made from the document's data under the given hash.\<close>

definition parent_or_heal ::
  "crypto \<Rightarrow> signing_key \<Rightarrow> datetime \<Rightarrow> document_row \<Rightarrow> user_row \<Rightarrow> string \<Rightarrow> service \<Rightarrow> (service \<times> coc_node) result" where
  "parent_or_heal C sk now d user h s =
     bindr (pg_get_node h (sv_storage s)) (\<lambda>found.
       case found of
         Some n \<Rightarrow> Inr (s, n)
       | None \<Rightarrow>
           let n = (new_node C now (d_content_hash d) (u_peer_id user) sk [] None 0 NODE_SCHEMA_VERSION)\<lparr>node_hash := h\<rparr>
           in Inr (s\<lparr>sv_storage := pg_add_node n (sv_storage s)\<rparr>, n))"

definition share_document ::
  "crypto \<Rightarrow> signing_key \<Rightarrow> (nat \<Rightarrow> bool) \<Rightarrow> config \<Rightarrow> datetime \<Rightarrow> string \<Rightarrow> string \<Rightarrow> string \<Rightarrow> user_row
   \<Rightarrow> 'a app_scheme \<Rightarrow> 'a app_scheme \<times> share_row response" where
  "share_document C sk alnum cfg now share_id doc_id recipient_username user a =
     (case live_document doc_id a of
        None \<Rightarrow> (a, Inl (Http 404))
      | Some d \<Rightarrow>
          let is_owner = (d_owner_id d = u_id user); mine = active_share doc_id (u_id user) a
          in if \<not> is_owner \<and> mine = None then (a, Inl (Http 403))
             else case find_one (\<lambda>u. u_username u = recipient_username) (app_users a) of
               None \<Rightarrow> (a, Inl (Http 404))
             | Some recipient \<Rightarrow>
                 if u_id recipient = u_id user then (a, Inl (Http 400))
                 else if active_share doc_id (u_id recipient) a \<noteq> None then (a, Inl (Http 409))
                 else
                   let parent_hash = (if is_owner then d_coc_node_hash d else s_child_coc_node_hash (the mine))
                   in case parent_or_heal C sk now d user parent_hash (app_service a) of
                        Inl e \<Rightarrow> (a, Inl (Crash e))
                      | Inr (s, parent_node) \<Rightarrow>
                          let a = a\<lparr>app_service := s\<rparr>;
                              file_path = (if is_owner then d_storage_path d else shared_path cfg d (u_id user))
                          in case app_files a file_path of
                               None \<Rightarrow> (a, Inl (Crash FileNotFoundError))
                             | Some bs \<Rightarrow>
                                 case tf_share_document C sk alnum now (u_peer_id user) parent_node [u_peer_id recipient]
                                        (read_text bs) (app_service a) of
                                   (s, Inl e) \<Rightarrow> (a\<lparr>app_service := s\<rparr>, Inl (Crash e))
                                 | (s, Inr (child, watermarked)) \<Rightarrow>
                                     let share = \<lparr>s_id = share_id, s_document_id = doc_id, s_owner_id = u_id user,
                                           s_recipient_id = u_id recipient, s_child_coc_node_hash = node_hash child,
                                           s_status = ''active'', s_created_at = now, s_revoked_at = None, s_suspended_at = None\<rparr>
                                     in (a\<lparr>app_service := s,
                                           app_files := (app_files a)(shared_path cfg d (u_id recipient) \<mapsto> utf8 watermarked),
                                           app_shares := insert_row share_id share (app_shares a)\<rparr>, Inr share))"

text \<open>The trace; for the owner a missing root is made again. \<open>None\<close> when the walk does not end.\<close>

definition get_document_trace ::
  "crypto \<Rightarrow> signing_key \<Rightarrow> (string list \<Rightarrow> string list) \<Rightarrow> datetime \<Rightarrow> string \<Rightarrow> user_row \<Rightarrow> 'a app_scheme
   \<Rightarrow> ('a app_scheme \<times> (shown_node list \<times> edge list) response) option" where
  "get_document_trace C sk order now doc_id user a =
     (case live_document doc_id a of
        None \<Rightarrow> Some (a, Inl (Http 404))
      | Some d \<Rightarrow>
          if \<not> may_access d user a then Some (a, Inl (Http 403))
          else
            let is_owner = (d_owner_id d = u_id user);
                trace = (\<lambda>db. get_trace_for_document order now (app_users a) (app_documents a) (d_coc_node_hash d) db)
            in Option.bind (trace (sv_storage (app_service a))) (\<lambda>g.
               if fst g = [] \<and> is_owner then
                 let n = (new_node C now (d_content_hash d) (u_peer_id user) sk [] None 0 NODE_SCHEMA_VERSION)\<lparr>node_hash := d_coc_node_hash d\<rparr>;
                     s = (app_service a)\<lparr>sv_storage := pg_add_node n (sv_storage (app_service a))\<rparr>
                 in map_option (\<lambda>g. (a\<lparr>app_service := s\<rparr>, Inr g)) (trace (sv_storage s))
               else Some (a, Inr (fst g, if is_owner then snd g else []))))"

section \<open>Revocation and the recycle bin\<close>

definition revoke_share :: "datetime \<Rightarrow> string \<Rightarrow> string \<Rightarrow> user_row \<Rightarrow> 'a app_scheme \<Rightarrow> 'a app_scheme \<times> unit response" where
  "revoke_share now doc_id target_user_id user a =
     (case find_one (\<lambda>d. d_id d = doc_id) (app_documents a) of
        None \<Rightarrow> (a, Inl (Http 404))
      | Some d \<Rightarrow>
          if d_owner_id d \<noteq> u_id user then (a, Inl (Http 403))
          else case active_share doc_id target_user_id a of
                 None \<Rightarrow> (a, Inl (Http 404))
               | Some s \<Rightarrow>
                   (a\<lparr>app_shares := update_one (s_id s) (\<lambda>s. s\<lparr>s_status := ''revoked'', s_revoked_at := Some now\<rparr>) (app_shares a),
                      app_service := service_log now ''REVOKE_SHARE'' (u_peer_id user) (s_child_coc_node_hash s) [] (app_service a)\<rparr>,
                    Inr ()))"

text \<open>The loops over the shares a query found.\<close>

definition update_shares :: "(share_row \<Rightarrow> share_row) \<Rightarrow> share_row list \<Rightarrow> 'a app_scheme \<Rightarrow> 'a app_scheme" where
  "update_shares f shares a = a\<lparr>app_shares := fold (\<lambda>s. update_one (s_id s) f) shares (app_shares a)\<rparr>"

definition delete_document :: "datetime \<Rightarrow> string \<Rightarrow> user_row \<Rightarrow> 'a app_scheme \<Rightarrow> 'a app_scheme \<times> nat response" where
  "delete_document now doc_id user a =
     (case live_document doc_id a of
        None \<Rightarrow> (a, Inl (Http 404))
      | Some d \<Rightarrow>
          if d_owner_id d \<noteq> u_id user then (a, Inl (Http 403))
          else
            let a = a\<lparr>app_documents := update_one doc_id (\<lambda>d. d\<lparr>d_status := ''recycled'', d_recycled_at := Some now\<rparr>) (app_documents a)\<rparr>;
                shares = find_many s_created_at (\<lambda>s. s_document_id s = doc_id \<and> s_status s = ''active'') (app_shares a)
            in (update_shares (\<lambda>s. s\<lparr>s_status := ''suspended'', s_suspended_at := Some now\<rparr>) shares a, Inr (length shares)))"

definition recycled_document :: "string \<Rightarrow> 'a app_scheme \<Rightarrow> document_row option" where
  "recycled_document doc_id a =
     (case find_one (\<lambda>d. d_id d = doc_id) (app_documents a) of
        None \<Rightarrow> None
      | Some d \<Rightarrow> if d_status d \<noteq> ''recycled'' then None else Some d)"

definition restore_document :: "string \<Rightarrow> bool \<Rightarrow> user_row \<Rightarrow> 'a app_scheme \<Rightarrow> 'a app_scheme \<times> nat response" where
  "restore_document doc_id restore_access user a =
     (case recycled_document doc_id a of
        None \<Rightarrow> (a, Inl (Http 404))
      | Some d \<Rightarrow>
          if d_owner_id d \<noteq> u_id user then (a, Inl (Http 403))
          else
            let a = a\<lparr>app_documents := update_one doc_id (\<lambda>d. d\<lparr>d_status := ''active'', d_recycled_at := None\<rparr>) (app_documents a)\<rparr>;
                shares = find_many s_created_at (\<lambda>s. s_document_id s = doc_id \<and> s_status s = ''suspended'') (app_shares a)
            in if restore_access
               then (update_shares (\<lambda>s. s\<lparr>s_status := ''active'', s_suspended_at := None\<rparr>) shares a, Inr (length shares))
               else (a, Inr 0))"

definition purge_document :: "datetime \<Rightarrow> string \<Rightarrow> user_row \<Rightarrow> 'a app_scheme \<Rightarrow> 'a app_scheme \<times> nat response" where
  "purge_document now doc_id user a =
     (case recycled_document doc_id a of
        None \<Rightarrow> (a, Inl (Http 404))
      | Some d \<Rightarrow>
          if d_owner_id d \<noteq> u_id user then (a, Inl (Http 403))
          else
            let a = (if d_coc_node_hash d = [] then a
                     else a\<lparr>app_service := tf_delete_document now (u_peer_id user) (d_coc_node_hash d) (app_service a)\<rparr>);
                a = a\<lparr>app_documents := update_one doc_id (\<lambda>d. d\<lparr>d_status := ''deleted'', d_deleted_at := Some now\<rparr>) (app_documents a)\<rparr>;
                shares = find_many s_created_at (\<lambda>s. s_document_id s = doc_id) (app_shares a);
                a = update_shares (\<lambda>s. s\<lparr>s_status := ''revoked'', s_revoked_at := Some now\<rparr>) shares a
            in (a\<lparr>app_files := (app_files a)(d_storage_path d := None)\<rparr>, Inr (length shares)))"

end
