(* ===== verification/DocAccess.thy ===== *)
theory DocAccess
  imports Documents
begin

text \<open>
  Who may read a document. Requests of the document routes form runs of the application; over the
  runs, every access of a recipient goes back to a share that someone with access granted, and a
  revocation ends the recipient's access as long as no restore reactivated shares. The limit of one
  hundred rows of a query and the reactivation of old shares are where this fails.
\<close>

section \<open>Requests and runs\<close>

datatype request =
    Upload string "string option" "string option" bytes
  | Share string string string
  | Revoke string string
  | Delete string
  | Restore string bool
  | Purge string
  | Download string

fun handle ::
  "crypto \<Rightarrow> signing_key \<Rightarrow> (nat \<Rightarrow> bool) \<Rightarrow> config \<Rightarrow> datetime \<Rightarrow> user_row \<Rightarrow> request \<Rightarrow> app \<Rightarrow> app" where
  "handle C sk alnum cfg now user (Upload i name ctype content) a = fst (upload_document C sk cfg now i name ctype content user a)"
| "handle C sk alnum cfg now user (Share i doc_id name) a = fst (share_document C sk alnum cfg now i doc_id name user a)"
| "handle C sk alnum cfg now user (Revoke doc_id target) a = fst (revoke_share now doc_id target user a)"
| "handle C sk alnum cfg now user (Delete doc_id) a = fst (delete_document now doc_id user a)"
| "handle C sk alnum cfg now user (Restore doc_id restore_access) a = fst (restore_document doc_id restore_access user a)"
| "handle C sk alnum cfg now user (Purge doc_id) a = fst (purge_document now doc_id user a)"
| "handle C sk alnum cfg now user (Download doc_id) a = fst (download_document now doc_id user a)"

text \<open>Identifiers drawn by \<open>uuid4\<close> are new.\<close>

fun fresh :: "request \<Rightarrow> app \<Rightarrow> bool" where
  "fresh (Upload i name ctype content) a \<longleftrightarrow> map_of (app_documents a) i = None"
| "fresh (Share i doc_id name) a \<longleftrightarrow> map_of (app_shares a) i = None"
| "fresh _ a \<longleftrightarrow> True"

type_synonym trace = "(datetime \<times> user_row \<times> request) list"

inductive run ::
  "crypto \<Rightarrow> signing_key \<Rightarrow> (nat \<Rightarrow> bool) \<Rightarrow> config \<Rightarrow> app \<Rightarrow> trace \<Rightarrow> app \<Rightarrow> bool"
  for C sk alnum cfg a0 where
  run_start: "run C sk alnum cfg a0 [] a0"
| run_request: "run C sk alnum cfg a0 tr a \<Longrightarrow> fresh req a \<Longrightarrow>
    run C sk alnum cfg a0 (tr @ [(now, user, req)]) (handle C sk alnum cfg now user req a)"

inductive_simps run_Nil [simp]: "run C sk alnum cfg a0 [] a"
inductive_cases run_snocE: "run C sk alnum cfg a0 (tr @ [x]) a"

section \<open>What the handlers do to the tables\<close>

lemma service_log_sel [simp]: "sv_storage (service_log now e x y z s) = sv_storage s" "sv_stegano (service_log now e x y z s) = sv_stegano s"
  by (simp_all add: service_log_def)

lemma active_share_cong: "app_shares b = app_shares a \<Longrightarrow> active_share doc_id uid b = active_share doc_id uid a"
  by (simp add: active_share_def)

lemma active_share_None_iff:
  "active_share doc_id uid a = None \<longleftrightarrow>
     (\<forall>s \<in> rows (app_shares a). \<not> (s_document_id s = doc_id \<and> s_recipient_id s = uid \<and> s_status s = ''active''))"
  unfolding active_share_def find_one_None_iff ..

lemma active_share_SomeD:
  "active_share doc_id uid a = Some s \<Longrightarrow>
     s \<in> rows (app_shares a) \<and> s_document_id s = doc_id \<and> s_recipient_id s = uid \<and> s_status s = ''active''"
  unfolding active_share_def by (drule find_one_SomeD) simp

lemma live_document_SomeD:
  "live_document doc_id a = Some d \<Longrightarrow> d \<in> rows (app_documents a) \<and> d_id d = doc_id \<and> d_status d \<notin> {''deleted'', ''recycled''}"
  by (auto simp: live_document_def split: option.splits if_splits dest!: find_one_SomeD)

lemma download_SomeD:
  "download_document now doc_id user a = (a', Inr bs) \<Longrightarrow>
     \<exists>d. live_document doc_id a = Some d \<and> may_access d user a \<and> app_files a (d_storage_path d) = Some bs"
  by (auto simp: download_document_def Let_def split: option.splits if_splits)

lemma download_keeps:
  "app_shares (fst (download_document now doc_id user a)) = app_shares a"
  "app_documents (fst (download_document now doc_id user a)) = app_documents a"
  by (auto simp: download_document_def Let_def split: option.splits)

lemma upload_shares [simp]: "app_shares (fst (upload_document C sk cfg now i name ctype content user a)) = app_shares a"
  by (auto simp: upload_document_def Let_def split: prod.splits)

text \<open>Sharing: either the shares are as before, or it succeeded and its row is the new one.\<close>

lemma share_document_cases:
  obtains (refused) e where "snd (share_document C sk alnum cfg now i doc_id name user a) = Inl e"
      "app_shares (fst (share_document C sk alnum cfg now i doc_id name user a)) = app_shares a"
      "app_documents (fst (share_document C sk alnum cfg now i doc_id name user a)) = app_documents a"
  | (granted) d recipient s where "snd (share_document C sk alnum cfg now i doc_id name user a) = Inr s"
      "app_shares (fst (share_document C sk alnum cfg now i doc_id name user a)) = insert_row i s (app_shares a)"
      "app_documents (fst (share_document C sk alnum cfg now i doc_id name user a)) = app_documents a"
      "live_document doc_id a = Some d" "may_access d user a"
      "find_one (\<lambda>u. u_username u = name) (app_users a) = Some recipient" "u_id recipient \<noteq> u_id user"
      "active_share doc_id (u_id recipient) a = None"
      "s_id s = i" "s_document_id s = doc_id" "s_recipient_id s = u_id recipient" "s_status s = ''active''"
proof -
  let ?x = "share_document C sk alnum cfg now i doc_id name user a"
  have refuse: thesis if "?x = (a, Inl e)" for e
    by (rule refused [of e]) (simp_all add: that)
  show thesis
  proof (cases "live_document doc_id a")
    case None
    then have "?x = (a, Inl (Http 404))" by (simp add: share_document_def)
    then show thesis by (rule refuse)
  next
    case (Some d)
    note d = this
    have id: "d_id d = doc_id" using live_document_SomeD [OF Some] by simp
    show thesis
    proof (cases "may_access d user a")
      case False
      then have "?x = (a, Inl (Http 403))" using d id by (simp add: share_document_def may_access_def)
      then show thesis by (rule refuse)
    next
      case True
      then have acc: "\<not> (d_owner_id d \<noteq> u_id user \<and> active_share doc_id (u_id user) a = None)" by (simp add: may_access_def id)
      show thesis
      proof (cases "find_one (\<lambda>u. u_username u = name) (app_users a)")
        case None
        then have "?x = (a, Inl (Http 404))" unfolding share_document_def d Let_def option.case if_not_P [OF acc] by simp
        then show thesis by (rule refuse)
      next
        case (Some recipient)
        show thesis
        proof (cases "u_id recipient = u_id user \<or> active_share doc_id (u_id recipient) a \<noteq> None")
          case True
          then have "?x = (a, Inl (Http 400)) \<or> ?x = (a, Inl (Http 409))"
            unfolding share_document_def d Let_def option.case if_not_P [OF acc] Some by (cases "u_id recipient = u_id user") simp_all
          then show thesis using refuse by blast
        next
          case False
          then have n: "u_id recipient \<noteq> u_id user" "\<not> active_share doc_id (u_id recipient) a \<noteq> None" by simp_all
          have "(\<exists>e. snd ?x = Inl e \<and> app_shares (fst ?x) = app_shares a \<and> app_documents (fst ?x) = app_documents a) \<or>
            (\<exists>s. snd ?x = Inr s \<and> app_shares (fst ?x) = insert_row i s (app_shares a) \<and> app_documents (fst ?x) = app_documents a \<and>
               s_id s = i \<and> s_document_id s = doc_id \<and> s_recipient_id s = u_id recipient \<and> s_status s = ''active'')"
            unfolding share_document_def d Let_def option.case if_not_P [OF acc] Some if_not_P [OF n(1)] if_not_P [OF n(2)]
            by (auto split: sum.split prod.split option.split)
          then show thesis using refused granted d True Some n by metis
        qed
      qed
    qed
  qed
qed

lemma revoke_share_cases:
  obtains (refused) e where "revoke_share now doc_id target user a = (a, Inl e)"
  | (revoked) d s where "snd (revoke_share now doc_id target user a) = Inr ()"
      "app_shares (fst (revoke_share now doc_id target user a)) =
         update_one (s_id s) (\<lambda>s. s\<lparr>s_status := ''revoked'', s_revoked_at := Some now\<rparr>) (app_shares a)"
      "app_documents (fst (revoke_share now doc_id target user a)) = app_documents a"
      "find_one (\<lambda>d. d_id d = doc_id) (app_documents a) = Some d" "d_owner_id d = u_id user"
      "active_share doc_id target a = Some s"
proof (cases "find_one (\<lambda>d. d_id d = doc_id) (app_documents a)")
  case None
  then show thesis using refused [of "Http 404"] by (simp add: revoke_share_def)
next
  case (Some d)
  show thesis
  proof (cases "d_owner_id d = u_id user")
    case False
    then show thesis using refused [of "Http 403"] Some by (simp add: revoke_share_def)
  next
    case True
    then show thesis using refused [of "Http 404"] revoked [OF _ _ _ Some True] Some
      by (cases "active_share doc_id target a") (simp_all add: revoke_share_def)
  qed
qed

text \<open>The handlers that update rows of the shares: which rows, and how.\<close>

lemma update_one_rows: "r' \<in> rows (update_one i f t) \<Longrightarrow> r' \<in> rows t \<or> (\<exists>r \<in> rows t. r' = f r)"
  by (fastforce simp: update_one_def split: option.splits dest: set_dict_set map_of_SomeD)

lemma update_shares_rows:
  assumes "\<And>r. G r r" "\<And>r s. G r s \<Longrightarrow> G r (f s)" "r' \<in> rows (app_shares (update_shares f shares a))"
  shows "\<exists>r \<in> rows (app_shares a). G r r'"
proof -
  have "\<forall>r' \<in> rows (fold (\<lambda>s. update_one (s_id s) f) shares t). \<exists>r \<in> rows (app_shares a). G r r'"
    if "\<forall>r' \<in> rows t. \<exists>r \<in> rows (app_shares a). G r r'" for t
    using that
  proof (induction shares arbitrary: t)
    case (Cons s shares)
    have "\<forall>r' \<in> rows (update_one (s_id s) f t). \<exists>r \<in> rows (app_shares a). G r r'"
    proof
      fix r' assume "r' \<in> rows (update_one (s_id s) f t)"
      from update_one_rows [OF this] show "\<exists>r \<in> rows (app_shares a). G r r'" using Cons.prems assms(2) by blast
    qed
    then show ?case using Cons.IH by simp
  qed simp
  then show ?thesis using assms(1,3) by (force simp: update_shares_def)
qed

text \<open>The rows of the shares only ever change in their status and its dates.\<close>

definition same_grant :: "share_row \<Rightarrow> share_row \<Rightarrow> bool" where
  "same_grant r s \<longleftrightarrow> s_id r = s_id s \<and> s_document_id r = s_document_id s \<and> s_recipient_id r = s_recipient_id s"

lemma delete_shares:
  obtains "app_shares (fst (delete_document now doc_id user a)) = app_shares a"
  | "app_shares (fst (delete_document now doc_id user a)) = app_shares (update_shares (\<lambda>s. s\<lparr>s_status := ''suspended'', s_suspended_at := Some now\<rparr>)
       (find_many s_created_at (\<lambda>s. s_document_id s = doc_id \<and> s_status s = ''active'') (app_shares a)) a)"
proof (cases "live_document doc_id a")
  case (Some d)
  then show thesis using that by (cases "d_owner_id d = u_id user") (simp_all add: delete_document_def update_shares_def Let_def)
qed (use that(1) in \<open>simp add: delete_document_def\<close>)

lemma restore_shares:
  obtains "app_shares (fst (restore_document doc_id acc user a)) = app_shares a"
  | "acc" "app_shares (fst (restore_document doc_id acc user a)) = app_shares (update_shares (\<lambda>s. s\<lparr>s_status := ''active'', s_suspended_at := None\<rparr>)
       (find_many s_created_at (\<lambda>s. s_document_id s = doc_id \<and> s_status s = ''suspended'') (app_shares a)) a)"
proof (cases "recycled_document doc_id a")
  case (Some d)
  then show thesis using that
    by (cases "d_owner_id d = u_id user"; cases acc) (simp_all add: restore_document_def update_shares_def Let_def)
qed (use that(1) in \<open>simp add: restore_document_def\<close>)

lemma purge_shares:
  obtains "app_shares (fst (purge_document now doc_id user a)) = app_shares a"
  | "app_shares (fst (purge_document now doc_id user a)) = app_shares (update_shares (\<lambda>s. s\<lparr>s_status := ''revoked'', s_revoked_at := Some now\<rparr>)
       (find_many s_created_at (\<lambda>s. s_document_id s = doc_id) (app_shares a)) a)"
proof (cases "recycled_document doc_id a")
  case (Some d)
  then show thesis using that
    by (cases "d_owner_id d = u_id user"; cases "d_coc_node_hash d = []") (simp_all add: purge_document_def update_shares_def Let_def)
qed (use that(1) in \<open>simp add: purge_document_def\<close>)

text \<open>Whatever the status changes keep holds between the rows before and after a request.\<close>

lemma handle_shares_rel:
  assumes "r' \<in> rows (app_shares (handle C sk alnum cfg now user req a))" and refl: "\<And>r. G r r"
    and revoked: "\<And>r s. G r s \<Longrightarrow> G r (s\<lparr>s_status := ''revoked'', s_revoked_at := Some now\<rparr>)"
    and suspended: "\<And>r s. G r s \<Longrightarrow> G r (s\<lparr>s_status := ''suspended'', s_suspended_at := Some now\<rparr>)"
    and restored: "\<And>r s doc_id. req = Restore doc_id True \<Longrightarrow> G r s \<Longrightarrow> G r (s\<lparr>s_status := ''active'', s_suspended_at := None\<rparr>)"
  obtains (old) r where "r \<in> rows (app_shares a)" "G r r'"
  | (new) i doc_id name where "req = Share i doc_id name" "snd (share_document C sk alnum cfg now i doc_id name user a) = Inr r'"
proof -
  have same: thesis if "r' \<in> rows (app_shares a)" using old [OF that] refl by blast
  have upd: thesis if "r' \<in> rows (app_shares (update_shares f shares a))" "\<And>r s. G r s \<Longrightarrow> G r (f s)" for f shares
    using update_shares_rows [of G f r' shares a] that refl old by blast
  show thesis
  proof (cases req)
    case (Upload i name ctype content)
    then show thesis using assms(1) same by simp
  next
    case (Share i doc_id name)
    show thesis
    proof (cases rule: share_document_cases [of C sk alnum cfg now i doc_id name user a])
      case refused
      then show thesis using assms(1) Share same by simp
    next
      case (granted d recipient s)
      have "r' = s \<or> r' \<in> rows (app_shares a)"
        using assms(1) Share granted(2) by (auto simp: insert_row_def dest!: set_dict_set)
      then show thesis using same new [OF Share] granted(1) by auto
    qed
  next
    case (Revoke doc_id target)
    show thesis
    proof (cases rule: revoke_share_cases [of now doc_id target user a])
      case refused
      then show thesis using assms(1) Revoke same by simp
    next
      case (revoked d s)
      then have "r' \<in> rows (app_shares (update_shares (\<lambda>s. s\<lparr>s_status := ''revoked'', s_revoked_at := Some now\<rparr>) [s] a))"
        using assms(1) Revoke by (simp add: update_shares_def)
      then show thesis by (rule upd) (rule assms(3))
    qed
  next
    case (Delete doc_id)
    show thesis
      by (rule delete_shares [of now doc_id user a]) (use assms(1) Delete same upd [OF _ suspended] in simp_all)
  next
    case (Restore doc_id acc)
    show thesis
      by (rule restore_shares [of doc_id acc user a]) (use assms(1) Restore same upd [OF _ restored] in simp_all)
  next
    case (Purge doc_id)
    show thesis
      by (rule purge_shares [of now doc_id user a]) (use assms(1) Purge same upd [OF _ revoked] in simp_all)
  next
    case (Download doc_id)
    then show thesis using assms(1) same by (simp add: download_keeps)
  qed
qed

lemma handle_shares:
  assumes "r' \<in> rows (app_shares (handle C sk alnum cfg now user req a))"
  obtains (old) r where "r \<in> rows (app_shares a)" "same_grant r r'"
  | (new) i doc_id name where "req = Share i doc_id name" "snd (share_document C sk alnum cfg now i doc_id name user a) = Inr r'"
  by (rule handle_shares_rel [OF assms, of same_grant]) (use that in \<open>auto simp: same_grant_def\<close>)

section \<open>Every access was granted\<close>

text \<open>A share of the trace that succeeded, by someone who had access at that moment.\<close>

definition was_granted ::
  "crypto \<Rightarrow> signing_key \<Rightarrow> (nat \<Rightarrow> bool) \<Rightarrow> config \<Rightarrow> app \<Rightarrow> trace \<Rightarrow> string \<Rightarrow> string \<Rightarrow> bool" where
  "was_granted C sk alnum cfg a0 tr doc_id uid \<longleftrightarrow>
     (\<exists>tr1 now sharer i name tr2 b d row. tr = tr1 @ (now, sharer, Share i doc_id name) # tr2 \<and> run C sk alnum cfg a0 tr1 b \<and>
        live_document doc_id b = Some d \<and> may_access d sharer b \<and>
        snd (share_document C sk alnum cfg now i doc_id name sharer b) = Inr row \<and> s_recipient_id row = uid)"

lemma was_granted_append: "was_granted C sk alnum cfg a0 tr doc_id uid \<Longrightarrow> was_granted C sk alnum cfg a0 (tr @ tr') doc_id uid"
  unfolding was_granted_def by (metis append.assoc append_Cons)

lemma shares_were_granted:
  assumes "run C sk alnum cfg a0 tr a" "app_shares a0 = []" "r \<in> rows (app_shares a)"
  shows "was_granted C sk alnum cfg a0 tr (s_document_id r) (s_recipient_id r)"
  using assms(1,3)
proof (induction arbitrary: r rule: run.induct)
  case run_start
  then show ?case using assms(2) by simp
next
  case (run_request tr a req now user)
  from run_request.prems show ?case
  proof (cases rule: handle_shares)
    case (old q)
    then show ?thesis using was_granted_append [OF run_request.IH [OF old(1)]] by (simp add: same_grant_def)
  next
    case (new i doc_id name)
    show ?thesis
    proof (cases rule: share_document_cases [of C sk alnum cfg now i doc_id name user a])
      case refused
      then show ?thesis using new by simp
    next
      case (granted d recipient s)
      then have "s = r" using new by simp
      then have "\<exists>b d row. run C sk alnum cfg a0 tr b \<and> live_document (s_document_id r) b = Some d \<and> may_access d user b \<and>
          snd (share_document C sk alnum cfg now i (s_document_id r) name user b) = Inr row \<and> s_recipient_id row = s_recipient_id r"
        using granted run_request.hyps(1) new by auto
      then show ?thesis unfolding was_granted_def new(1) using granted(10) \<open>s = r\<close> by blast
    qed
  qed
qed

text \<open>C31: Whoever downloads a document is its owner, or was given a share of this document by an earlier
  request of the run, made by someone who could access the document then; and the document is
  neither recycled nor deleted.\<close>
theorem downloads_were_granted:
  assumes "run C sk alnum cfg a0 tr a" "app_shares a0 = []"
    and "download_document now doc_id user a = (a', Inr content)"
  shows "\<exists>d. live_document doc_id a = Some d \<and> app_files a (d_storage_path d) = Some content \<and>
    (d_owner_id d = u_id user \<or> was_granted C sk alnum cfg a0 tr doc_id (u_id user))"
proof -
  obtain d where d: "live_document doc_id a = Some d" "may_access d user a" "app_files a (d_storage_path d) = Some content"
    using download_SomeD [OF assms(3)] by blast
  show ?thesis
  proof (cases "d_owner_id d = u_id user")
    case False
    then obtain s where s: "active_share doc_id (u_id user) a = Some s"
      using d(2) live_document_SomeD [OF d(1)] by (auto simp: may_access_def)
    then show ?thesis using d shares_were_granted [OF assms(1,2), of s] active_share_SomeD [OF s] by auto
  qed (use d in auto)
qed

section \<open>Revocation\<close>

definition docs_ok :: "'a app_scheme \<Rightarrow> bool" where
  "docs_ok a \<longleftrightarrow> table_ok d_id (app_documents a) \<and> table_ok s_id (app_shares a)"

lemma table_ok_update_one: "table_ok ident t \<Longrightarrow> (\<And>r. ident (f r) = ident r) \<Longrightarrow> table_ok ident (update_one i f t)"
  unfolding update_one_map by (rule table_ok_map) simp_all

lemma table_ok_updates:
  "table_ok ident t \<Longrightarrow> (\<And>r. ident (f r) = ident r) \<Longrightarrow> table_ok ident (fold (\<lambda>r. update_one (ident r) f) rs t)"
  by (induction rs arbitrary: t) (simp_all add: table_ok_update_one)

lemma delete_docs_ok:
  assumes "docs_ok a"
  shows "docs_ok (fst (delete_document now doc_id user a))"
proof (cases "live_document doc_id a")
  case (Some d)
  then show ?thesis
    using assms table_ok_updates [of s_id "app_shares a" "\<lambda>s. s\<lparr>s_status := ''suspended'', s_suspended_at := Some now\<rparr>"]
    by (simp add: docs_ok_def delete_document_def update_shares_def table_ok_update_one Let_def)
qed (use assms in \<open>simp add: delete_document_def\<close>)

lemma handle_docs_ok:
  assumes "docs_ok a"
  shows "docs_ok (handle C sk alnum cfg now user req a)"
proof -
  have s: "table_ok s_id (fold (\<lambda>r. update_one (s_id r) f) rs (app_shares a))" if "\<And>r. s_id (f r) = s_id r"
    for f and rs :: "share_row list"
    using table_ok_updates [of s_id "app_shares a" f rs] assms that by (simp add: docs_ok_def)
  have d: "table_ok d_id (update_one i f (app_documents a))" if "\<And>r. d_id (f r) = d_id r" for i f
    using assms that by (simp add: docs_ok_def table_ok_update_one)
  note ok = assms [unfolded docs_ok_def] s d
  show ?thesis
  proof (cases req)
    case (Upload i name ctype content)
    then show ?thesis using ok by (auto simp: docs_ok_def upload_document_def Let_def table_ok_insert split: prod.splits)
  next
    case (Share i doc_id name)
    show ?thesis
      by (cases rule: share_document_cases [of C sk alnum cfg now i doc_id name user a])
         (use ok Share in \<open>simp_all add: docs_ok_def table_ok_insert\<close>)
  next
    case (Revoke doc_id target)
    show ?thesis
      by (cases rule: revoke_share_cases [of now doc_id target user a])
         (use ok Revoke in \<open>simp_all add: docs_ok_def table_ok_update_one\<close>)
  next
    case (Delete doc_id)
    then show ?thesis using delete_docs_ok [OF assms] by simp
  next
    case (Restore doc_id acc)
    then show ?thesis using ok
      by (cases "recycled_document doc_id a") (simp_all add: docs_ok_def restore_document_def update_shares_def Let_def)
  next
    case (Purge doc_id)
    then show ?thesis using ok
      by (cases "recycled_document doc_id a") (simp_all add: docs_ok_def purge_document_def update_shares_def Let_def)
  next
    case (Download doc_id)
    then show ?thesis using ok by (simp add: docs_ok_def download_keeps)
  qed
qed

text \<open>At most one active share per document and recipient.\<close>

definition one_active :: "'a app_scheme \<Rightarrow> bool" where
  "one_active a \<longleftrightarrow> (\<forall>r \<in> rows (app_shares a). \<forall>s \<in> rows (app_shares a).
     s_status r = ''active'' \<longrightarrow> s_status s = ''active'' \<longrightarrow> s_document_id r = s_document_id s \<longrightarrow>
     s_recipient_id r = s_recipient_id s \<longrightarrow> r = s)"

lemma handle_one_active:
  assumes "one_active a" "\<And>doc_id. req \<noteq> Restore doc_id True"
  shows "one_active (handle C sk alnum cfg now user req a)"
proof -
  let ?a = "handle C sk alnum cfg now user req a"
  have act: "(r \<in> rows (app_shares a)) \<or>
      (\<exists>i name. req = Share i (s_document_id r) name \<and> snd (share_document C sk alnum cfg now i (s_document_id r) name user a) = Inr r \<and>
        active_share (s_document_id r) (s_recipient_id r) a = None)"
    if r: "r \<in> rows (app_shares ?a)" "s_status r = ''active''" for r
  proof (rule handle_shares_rel [OF r(1), of "\<lambda>q r. s_status r = ''active'' \<longrightarrow> q = r"], goal_cases)
    case (6 i doc_id name)
    show ?thesis
      by (cases rule: share_document_cases [of C sk alnum cfg now i doc_id name user a]) (use 6 in auto)
  qed (use r(2) assms(2) in auto)
  show ?thesis
    unfolding one_active_def
  proof (intro ballI impI)
    fix r s assume *: "r \<in> rows (app_shares ?a)" "s \<in> rows (app_shares ?a)" "s_status r = ''active''" "s_status s = ''active''"
      "s_document_id r = s_document_id s" "s_recipient_id r = s_recipient_id s"
    from act [OF *(1,3)] act [OF *(2,4)] show "r = s"
    proof (elim disjE exE conjE)
      assume "r \<in> rows (app_shares a)" "s \<in> rows (app_shares a)"
      then show "r = s" using assms(1) * unfolding one_active_def by blast
    qed (use * in \<open>auto simp: active_share_None_iff\<close>)
  qed
qed

lemma run_invariants:
  assumes "run C sk alnum cfg a0 tr a" "docs_ok a0"
  shows "docs_ok a"
  using assms by (induction rule: run.induct) (simp_all add: handle_docs_ok)

lemma run_one_active:
  assumes "run C sk alnum cfg a0 tr a" "one_active a0" "\<forall>(now, user, req) \<in> set tr. \<forall>doc_id. req \<noteq> Restore doc_id True"
  shows "one_active a"
  using assms by (induction rule: run.induct) (auto intro: handle_one_active)

text \<open>After a revocation the recipient still has access exactly if there was a second active share.\<close>

lemma revoked_access:
  assumes "docs_ok a" "revoke_share now doc_id target user a = (a', Inr ())"
  shows "active_share doc_id target a' \<noteq> None \<longleftrightarrow>
    (\<exists>s \<in> rows (app_shares a). s_document_id s = doc_id \<and> s_recipient_id s = target \<and> s_status s = ''active'' \<and>
       active_share doc_id target a \<noteq> Some s)"
proof (cases rule: revoke_share_cases [of now doc_id target user a])
  case (revoked d s)
  have t: "table_ok s_id (app_shares a)" using assms(1) by (simp add: docs_ok_def)
  have s: "s \<in> rows (app_shares a)" using active_share_SomeD [OF revoked(6)] by simp
  have "app_shares a' = map (\<lambda>(j, r). (j, if s_id r = s_id s then r\<lparr>s_status := ''revoked'', s_revoked_at := Some now\<rparr> else r)) (app_shares a)"
    using revoked(2) assms(2) by (simp add: update_one_map [OF t])
  then have *: "active_share doc_id target a' \<noteq> None \<longleftrightarrow>
      (\<exists>r \<in> rows (app_shares a). s_id r \<noteq> s_id s \<and> s_document_id r = doc_id \<and> s_recipient_id r = target \<and> s_status r = ''active'')"
    unfolding active_share_None_iff by (force split: if_splits)
  have "s_id r \<noteq> s_id s \<longleftrightarrow> s \<noteq> r" if "r \<in> rows (app_shares a)" for r using rows_inj [OF t that s] by auto
  then show ?thesis unfolding * using revoked(6) by auto
qed (use assms(2) in auto)


section \<open>Sharing in detail\<close>

definition can_share :: "string \<Rightarrow> string \<Rightarrow> user_row \<Rightarrow> user_row \<Rightarrow> document_row \<Rightarrow> bytes \<Rightarrow> 'a app_scheme \<Rightarrow> bool" where
  "can_share doc_id name user recipient d bs a \<longleftrightarrow> db_ok (sv_storage (app_service a)) \<and>
     live_document doc_id a = Some d \<and> d_owner_id d = u_id user \<and> app_files a (d_storage_path d) = Some bs \<and>
     find_one (\<lambda>u. u_username u = name) (app_users a) = Some recipient \<and> u_id recipient \<noteq> u_id user \<and>
     active_share doc_id (u_id recipient) a = None"

lemma parent_or_heal_ok:
  assumes "db_ok (sv_storage s)"
  obtains s' n where "parent_or_heal C sk now d user h s = Inr (s', n)" "db_ok (sv_storage s')"
    "sv_stegano s' = sv_stegano s" "tombstones (sv_storage s') = tombstones (sv_storage s)"
proof (cases "find_node h (sv_storage s)")
  case None
  let ?n = "(new_node C now (d_content_hash d) (u_peer_id user) sk [] None 0 NODE_SCHEMA_VERSION)\<lparr>node_hash := h\<rparr>"
  have "tombstones (pg_add_node ?n (sv_storage s)) = tombstones (sv_storage s)" by (simp add: pg_add_node_def split: sum.splits)
  then show thesis using that [of "s\<lparr>sv_storage := pg_add_node ?n (sv_storage s)\<rparr>" ?n] None assms
    by (simp add: parent_or_heal_def pg_get_node_row pg_add_node_ok Let_def)
next
  case (Some r)
  then show thesis using that [of s "row_node (sv_storage s) r"] assms by (simp add: parent_or_heal_def pg_get_node_row)
qed

lemma tf_share_ok:
  assumes "tf_share_document C sk alnum now owner parent [p] content s = (s', Inr (child, wm))" "db_ok (sv_storage s)"
  shows "db_ok (sv_storage s')" "tombstones (sv_storage s') = tombstones (sv_storage s)"
    "wm = snd (embed_watermark alnum now content p (depth parent + 1) None True True True (sv_stegano s))"
proof -
  obtain c where c: "Inr (child, wm) = (Inr (c, snd (embed_watermark alnum now content p (depth parent + 1) None True True True (sv_stegano s))) :: _ result)"
    "sv_storage s' = fold (insert_recipient (node_hash parent)) [p] (pg_add_node c (sv_storage s))"
    by (rule share_storage [OF assms(1)])
  show "db_ok (sv_storage s')" unfolding c(2) by (rule insert_recipients_ok [OF pg_add_node_ok [OF assms(2)]])
  show "tombstones (sv_storage s') = tombstones (sv_storage s)"
    unfolding c(2) insert_recipients_eq by (simp add: pg_add_node_def split: sum.splits)
  show "wm = snd (embed_watermark alnum now content p (depth parent + 1) None True True True (sv_stegano s))" using c(1) by simp
qed

text \<open>A share by the owner succeeds: it writes the recipient's copy and adds one active row.\<close>

lemma share_by_owner:
  assumes "can_share doc_id name user recipient d bs a"
  obtains s dep row where
    "share_document C sk alnum cfg now i doc_id name user a =
       (a\<lparr>app_service := s,
          app_files := (app_files a)(shared_path cfg d (u_id recipient) \<mapsto>
            utf8 (snd (embed_watermark alnum now (read_text bs) (u_peer_id recipient) dep None True True True (sv_stegano (app_service a))))),
          app_shares := insert_row i row (app_shares a)\<rparr>, Inr row)"
    "s_id row = i" "s_document_id row = doc_id" "s_recipient_id row = u_id recipient" "s_status row = ''active''"
    "s_created_at row = now" "db_ok (sv_storage s)" "tombstones (sv_storage s) = tombstones (sv_storage (app_service a))"
proof -
  note c = assms [unfolded can_share_def]
  obtain s1 parent where p: "parent_or_heal C sk now d user (d_coc_node_hash d) (app_service a) = Inr (s1, parent)"
    "db_ok (sv_storage s1)" "sv_stegano s1 = sv_stegano (app_service a)" "tombstones (sv_storage s1) = tombstones (sv_storage (app_service a))"
    using parent_or_heal_ok c by blast
  obtain s2 res where t: "tf_share_document C sk alnum now (u_peer_id user) parent [u_peer_id recipient] (read_text bs) s1 = (s2, res)" by fastforce
  obtain child where child: "res = Inr (child, snd (embed_watermark alnum now (read_text bs) (u_peer_id recipient) (depth parent + 1) None True True True (sv_stegano s1)))"
    by (rule share_storage [OF t])
  note ok = tf_share_ok [OF t [unfolded child] p(2)]
  let ?row = "\<lparr>s_id = i, s_document_id = doc_id, s_owner_id = u_id user, s_recipient_id = u_id recipient,
      s_child_coc_node_hash = node_hash child, s_status = ''active'', s_created_at = now, s_revoked_at = None, s_suspended_at = None\<rparr>"
  show thesis
    by (rule that [where s = s2 and dep = "depth parent + 1" and row = ?row]) (use c p t child ok in \<open>simp_all add: share_document_def Let_def\<close>)
qed

section \<open>The recipient's copy and the recipient's download\<close>


text \<open>Where an upload stores a document.\<close>

definition stored_by_upload :: "config \<Rightarrow> document_row \<Rightarrow> bool" where
  "stored_by_upload cfg d \<longleftrightarrow> (\<exists>name. d_storage_path d = path_join (cfg_storage_dir cfg) (d_id d @ path_suffix name))"

lemma shared_path_other: "stored_by_upload cfg d \<Longrightarrow> shared_path cfg d uid \<noteq> d_storage_path d"
proof
  assume d: "stored_by_upload cfg d" "shared_path cfg d uid = d_storage_path d"
  then obtain name where "d_storage_path d = path_join (cfg_storage_dir cfg) (d_id d @ path_suffix name)" by (auto simp: stored_by_upload_def)
  then have "''_shared_'' @ uid @ path_suffix (d_filename d) = path_suffix name" using d(2) by (simp add: shared_path_def path_join_def)
  then show False using path_suffix_cases [of name] by auto
qed

lemma after_share:
  assumes "can_share doc_id name user recipient d bs a" "stored_by_upload cfg d"
    and "share_document C sk alnum cfg now i doc_id name user a = (a', Inr row)"
  shows "live_document doc_id a' = Some d" "d_id d = doc_id" "app_files a' (d_storage_path d) = Some bs"
    "tombstones (sv_storage (app_service a')) = tombstones (sv_storage (app_service a))"
    "active_share doc_id (u_id recipient) a' \<noteq> None" "app_users a' = app_users a"
proof -
  note c = assms(1) [unfolded can_share_def]
  obtain s dep row' where sh: "share_document C sk alnum cfg now i doc_id name user a =
       (a\<lparr>app_service := s,
          app_files := (app_files a)(shared_path cfg d (u_id recipient) \<mapsto>
            utf8 (snd (embed_watermark alnum now (read_text bs) (u_peer_id recipient) dep None True True True (sv_stegano (app_service a))))),
          app_shares := insert_row i row' (app_shares a)\<rparr>, Inr row')"
    "s_document_id row' = doc_id" "s_recipient_id row' = u_id recipient" "s_status row' = ''active''"
    "tombstones (sv_storage s) = tombstones (sv_storage (app_service a))"
    by (rule share_by_owner [OF assms(1), of C sk alnum cfg now i]) blast
  have a': "app_documents a' = app_documents a" "app_shares a' = insert_row i row' (app_shares a)" using sh assms(3) by auto
  show "live_document doc_id a' = Some d" "d_id d = doc_id" using c a'(1) live_document_SomeD [of doc_id a d] by (simp_all add: live_document_def)
  show "app_files a' (d_storage_path d) = Some bs" "tombstones (sv_storage (app_service a')) = tombstones (sv_storage (app_service a))"
    "app_users a' = app_users a"
    using sh assms(3) c shared_path_other [OF assms(2), of "u_id recipient"] by auto
  have "map_of (app_shares a') i = Some row'" by (simp add: a'(2) insert_row_def)
  then have "row' \<in> rows (app_shares a')" by (metis map_of_SomeD image_eqI snd_conv)
  then show "active_share doc_id (u_id recipient) a' \<noteq> None" unfolding active_share_None_iff using sh(2-4) by blast
qed

text \<open>C37: Recipients download the original: right after a share the recipient's download returns exactly the
  bytes of the owner's file, without the watermark that was embedded for this recipient.\<close>
theorem recipient_downloads_original:
  assumes "can_share doc_id name user recipient d bs a" "stored_by_upload cfg d"
    and "tombstones (sv_storage (app_service a)) = []"
    and "share_document C sk alnum cfg now i doc_id name user a = (a', Inr row)"
  shows "snd (download_document now' doc_id recipient a') = Inr bs"
  using after_share [OF assms(1,2,4)] assms(3) by (simp add: download_document_def may_access_def pg_get_tombstone_def Let_def)

section \<open>The recycle bin\<close>

text \<open>The shares of one document, in table order, and those that are active.\<close>

definition shares_of :: "string \<Rightarrow> 'a app_scheme \<Rightarrow> share_row list" where
  "shares_of doc_id a = filter (\<lambda>s. s_document_id s = doc_id) (map snd (app_shares a))"

definition active_shares :: "string \<Rightarrow> 'a app_scheme \<Rightarrow> share_row list" where
  "active_shares doc_id a = filter (\<lambda>s. s_status s = ''active'') (shares_of doc_id a)"

lemma active_shares_eq: "active_shares doc_id a = filter (\<lambda>s. s_document_id s = doc_id \<and> s_status s = ''active'') (map snd (app_shares a))"
  by (simp add: active_shares_def shares_of_def filter_filter conj_commute)

lemma shares_of_cong: "app_shares b = app_shares a \<Longrightarrow> shares_of doc_id b = shares_of doc_id a"
  by (simp add: shares_of_def)

lemma active_share_shares_of:
  "active_share doc_id uid a = find (\<lambda>s. s_recipient_id s = uid \<and> s_status s = ''active'') (shares_of doc_id a)"
proof -
  have "find (\<lambda>s. s_document_id s = doc_id \<and> Q s) xs = find Q (filter (\<lambda>s. s_document_id s = doc_id) xs)" for Q and xs :: "share_row list"
    by (induction xs) auto
  then show ?thesis by (simp add: active_share_def find_one_def shares_of_def)
qed

lemma shares_of_update:
  assumes "table_ok s_id (app_shares a)" "\<And>s. s_id (f s) = s_id s" "\<And>s. s_document_id (f s) = s_document_id s"
  shows "shares_of doc_id (update_shares f (find_many s_created_at P (app_shares a)) a) =
    map (\<lambda>s. if s \<in> set (find_many s_created_at P (app_shares a)) then f s else s) (shares_of doc_id a)"
proof -
  let ?rs = "find_many s_created_at P (app_shares a)"
  have "fold (\<lambda>r. update_one (s_id r) f) ?rs (app_shares a) = map (\<lambda>(j, s). (j, if s \<in> set ?rs then f s else s)) (app_shares a)"
    using set_find_many [of s_created_at P "app_shares a"]
    by (intro update_each [OF assms(1) distinct_find_many [OF assms(1)]]) (auto simp: assms(2))
  then have "map snd (app_shares (update_shares f ?rs a)) = map (\<lambda>s. if s \<in> set ?rs then f s else s) (map snd (app_shares a))"
    by (simp add: update_shares_def case_prod_beta comp_def)
  moreover have "filter (\<lambda>s. s_document_id s = doc_id) (map (\<lambda>s. if s \<in> set ?rs then f s else s) xs) =
      map (\<lambda>s. if s \<in> set ?rs then f s else s) (filter (\<lambda>s. s_document_id s = doc_id) xs)" for xs
    by (induction xs) (simp_all add: assms(3))
  ultimately show ?thesis by (simp only: shares_of_def)
qed

lemma delete_document_InrD:
  assumes "delete_document now doc_id user a = (a', Inr n)"
  obtains d where "live_document doc_id a = Some d" "d_owner_id d = u_id user"
    "a' = update_shares (\<lambda>s. s\<lparr>s_status := ''suspended'', s_suspended_at := Some now\<rparr>)
       (find_many s_created_at (\<lambda>s. s_document_id s = doc_id \<and> s_status s = ''active'') (app_shares a))
       (a\<lparr>app_documents := update_one doc_id (\<lambda>d. d\<lparr>d_status := ''recycled'', d_recycled_at := Some now\<rparr>) (app_documents a)\<rparr>)"
    "n = length (find_many s_created_at (\<lambda>s. s_document_id s = doc_id \<and> s_status s = ''active'') (app_shares a))"
  using assms that by (auto simp: delete_document_def Let_def split: option.splits if_splits)

lemma restore_document_InrD:
  assumes "restore_document doc_id acc user a = (a', Inr n)"
  obtains d where "recycled_document doc_id a = Some d" "d_owner_id d = u_id user"
    "a' = (let a = a\<lparr>app_documents := update_one doc_id (\<lambda>d. d\<lparr>d_status := ''active'', d_recycled_at := None\<rparr>) (app_documents a)\<rparr>
       in if acc then update_shares (\<lambda>s. s\<lparr>s_status := ''active'', s_suspended_at := None\<rparr>)
            (find_many s_created_at (\<lambda>s. s_document_id s = doc_id \<and> s_status s = ''suspended'') (app_shares a)) a else a)"
  using assms that by (auto simp: restore_document_def Let_def split: option.splits if_splits)

lemma filter_notin:
  "distinct xs \<Longrightarrow> distinct ys \<Longrightarrow> set ys \<subseteq> set xs \<Longrightarrow> length (filter (\<lambda>x. x \<notin> set ys) xs) = length xs - length ys"
proof -
  assume *: "distinct xs" "distinct ys" "set ys \<subseteq> set xs"
  have "length (filter (\<lambda>x. x \<notin> set ys) xs) = card (set xs - set ys)"
    using *(1) by (simp add: distinct_card [symmetric] set_diff_eq)
  also have "\<dots> = length xs - length ys" using * by (simp add: card_Diff_subset distinct_card)
  finally show "length (filter (\<lambda>x. x \<notin> set ys) xs) = length xs - length ys" .
qed

lemma delete_active:
  assumes "docs_ok a" "delete_document now doc_id user a = (a', Inr n)"
  shows "length (active_shares doc_id a') = length (active_shares doc_id a) - find_limit" "n = min (length (active_shares doc_id a)) find_limit"
proof -
  let ?P = "\<lambda>s. s_document_id s = doc_id \<and> s_status s = ''active''"
  let ?rs = "find_many s_created_at ?P (app_shares a)" and ?f = "\<lambda>s. s\<lparr>s_status := ''suspended'', s_suspended_at := Some now\<rparr>"
  have t: "table_ok s_id (app_shares a)" using assms(1) by (simp add: docs_ok_def)
  obtain d where a': "app_shares a' = app_shares (update_shares ?f ?rs a)" and n: "n = length ?rs"
    by (rule delete_document_InrD [OF assms(2)]) (auto simp: update_shares_def)
  show "n = min (length (active_shares doc_id a)) find_limit" unfolding n length_find_many active_shares_eq ..
  have sub: "set ?rs \<subseteq> set (active_shares doc_id a)" using set_find_many [of s_created_at ?P "app_shares a"] by (auto simp: active_shares_eq)
  have "shares_of doc_id a' = map (\<lambda>s. if s \<in> set ?rs then ?f s else s) (shares_of doc_id a)"
    unfolding shares_of_cong [OF a'] by (rule shares_of_update [OF t]) simp_all
  moreover have "filter (\<lambda>s. s_status s = ''active'') (map (\<lambda>s. if s \<in> set ?rs then ?f s else s) xs) =
      filter (\<lambda>s. s \<notin> set ?rs) (filter (\<lambda>s. s_status s = ''active'') xs)" for xs by (induction xs) simp_all
  ultimately have "active_shares doc_id a' = filter (\<lambda>s. s \<notin> set ?rs) (active_shares doc_id a)" by (simp add: active_shares_def)
  moreover have "distinct (active_shares doc_id a)" using table_ok_distinct_rows [OF t] by (simp add: active_shares_eq)
  ultimately have "length (active_shares doc_id a') = length (active_shares doc_id a) - length ?rs"
    using filter_notin [OF _ distinct_find_many [OF t] sub] by simp
  then show "length (active_shares doc_id a') = length (active_shares doc_id a) - find_limit"
    by (simp add: length_find_many active_shares_eq)
qed


section \<open>Duplicate shares\<close>

text \<open>
  What a sequence of requests about one document depends on: the owner's document with its status and
  file, the shares of the document and the keys of the shares.
\<close>

definition doc_view ::
  "config \<Rightarrow> string \<Rightarrow> user_row \<Rightarrow> user_row table \<Rightarrow> bytes \<Rightarrow> string \<Rightarrow> share_row list \<Rightarrow> string set \<Rightarrow> app \<Rightarrow> bool" where
  "doc_view cfg doc_id owner users bs status shares keys a \<longleftrightarrow>
     docs_ok a \<and> db_ok (sv_storage (app_service a)) \<and> app_users a = users \<and> shares_of doc_id a = shares \<and>
     fst ` set (app_shares a) = keys \<and>
     (\<exists>d. map_of (app_documents a) doc_id = Some d \<and> d_owner_id d = u_id owner \<and> d_status d = status \<and>
        stored_by_upload cfg d \<and> app_files a (d_storage_path d) = Some bs)"

lemma docs_ok_find: "docs_ok a \<Longrightarrow> find_one (\<lambda>d. d_id d = doc_id) (app_documents a) = map_of (app_documents a) doc_id"
  by (simp add: docs_ok_def find_one_ident)

lemma view_share:
  assumes v: "doc_view cfg doc_id owner users bs ''active'' shares keys a"
    and r: "find_one (\<lambda>u. u_username u = name) users = Some recipient" "u_id recipient \<noteq> u_id owner"
    and none: "find (\<lambda>s. s_recipient_id s = u_id recipient \<and> s_status s = ''active'') shares = None" and i: "i \<notin> keys"
  obtains row where "doc_view cfg doc_id owner users bs ''active'' (shares @ [row]) (insert i keys) (handle C sk alnum cfg now owner (Share i doc_id name) a)"
    "s_recipient_id row = u_id recipient" "s_status row = ''active''" "s_id row = i"
proof -
  obtain d where d: "docs_ok a" "db_ok (sv_storage (app_service a))" "app_users a = users" "shares_of doc_id a = shares"
    "fst ` set (app_shares a) = keys" "map_of (app_documents a) doc_id = Some d" "d_owner_id d = u_id owner" "d_status d = ''active''"
    "stored_by_upload cfg d" "app_files a (d_storage_path d) = Some bs" using v by (auto simp: doc_view_def)
  have "can_share doc_id name owner recipient d bs a"
    using d r none by (simp add: can_share_def live_document_def docs_ok_find active_share_shares_of)
  then obtain s dep row where sh: "share_document C sk alnum cfg now i doc_id name owner a =
       (a\<lparr>app_service := s,
          app_files := (app_files a)(shared_path cfg d (u_id recipient) \<mapsto>
            utf8 (snd (embed_watermark alnum now (read_text bs) (u_peer_id recipient) dep None True True True (sv_stegano (app_service a))))),
          app_shares := insert_row i row (app_shares a)\<rparr>, Inr row)"
    "s_id row = i" "s_document_id row = doc_id" "s_recipient_id row = u_id recipient" "s_status row = ''active''" "db_ok (sv_storage s)"
    by (rule share_by_owner [of doc_id name owner recipient d bs a C sk alnum cfg now i]) blast
  define b where "b = handle C sk alnum cfg now owner (Share i doc_id name) a"
  have b: "b = a\<lparr>app_service := s,
          app_files := (app_files a)(shared_path cfg d (u_id recipient) \<mapsto>
            utf8 (snd (embed_watermark alnum now (read_text bs) (u_peer_id recipient) dep None True True True (sv_stegano (app_service a))))),
          app_shares := insert_row i row (app_shares a)\<rparr>" using sh(1) by (simp add: b_def)
  have ok: "docs_ok b" unfolding b_def by (rule handle_docs_ok [OF d(1)])
  have new: "insert_row i row (app_shares a) = app_shares a @ [(i, row)]" using i d(5) by (simp add: insert_row_def dict_set_new)
  have "shares_of doc_id b = shares @ [row]" using sh(3) d(4) by (simp add: b shares_of_def new)
  moreover have "fst ` set (app_shares b) = insert i keys" using d(5) by (simp add: b new)
  moreover have "app_files b (d_storage_path d) = Some bs" using d(10) shared_path_other [OF d(9), of "u_id recipient"] by (simp add: b)
  ultimately have "doc_view cfg doc_id owner users bs ''active'' (shares @ [row]) (insert i keys) b"
    using sh(6) d ok unfolding doc_view_def by (simp add: b)
  then show thesis using that sh unfolding b_def by blast
qed

lemma app_shares_update_shares: "app_shares (update_shares f rs a) = fold (\<lambda>s. update_one (s_id s) f) rs (app_shares a)"
  by (simp add: update_shares_def)

lemma update_shares_keys:
  assumes "table_ok s_id (app_shares a)" "\<And>s. s_id (f s) = s_id s"
  shows "fst ` set (app_shares (update_shares f rs a)) = fst ` set (app_shares a)"
proof -
  have "map fst (fold (\<lambda>r. update_one (s_id r) f) rs t) = map fst t" if "table_ok s_id t" for t
    using that
  proof (induction rs arbitrary: t)
    case (Cons r rs)
    have "table_ok s_id (update_one (s_id r) f t)" using table_ok_update_one [OF Cons.prems] assms(2) by blast
    then show ?case using Cons update_one_map [OF Cons.prems] by (simp add: case_prod_beta comp_def)
  qed simp
  from this [OF assms(1)] show ?thesis by (metis (no_types, lifting) app_shares_update_shares list.set_map)
qed

lemma find_many_all:
  assumes "length (shares_of doc_id a) \<le> find_limit"
  shows "set (find_many s_created_at (\<lambda>s. s_document_id s = doc_id \<and> Q s) (app_shares a)) = {s \<in> set (shares_of doc_id a). Q s}"
proof -
  have "length (filter (\<lambda>s. s_document_id s = doc_id \<and> Q s) (map snd (app_shares a))) \<le> length (shares_of doc_id a)"
  proof -
    have "filter (\<lambda>s. s_document_id s = doc_id \<and> Q s) (map snd (app_shares a)) = filter Q (shares_of doc_id a)"
      by (simp add: shares_of_def filter_filter)
    then show ?thesis by simp
  qed
  then show ?thesis using find_many_complete [of "\<lambda>s. s_document_id s = doc_id \<and> Q s" "app_shares a" s_created_at] assms
    by (auto simp: shares_of_def)
qed

lemma view_delete:
  assumes v: "doc_view cfg doc_id owner users bs ''active'' shares keys a" and len: "length shares \<le> find_limit"
  shows "doc_view cfg doc_id owner users bs ''recycled''
    (map (\<lambda>s. if s_status s = ''active'' then s\<lparr>s_status := ''suspended'', s_suspended_at := Some now\<rparr> else s) shares) keys
    (handle C sk alnum cfg now owner (Delete doc_id) a)"
proof -
  obtain d where d: "docs_ok a" "db_ok (sv_storage (app_service a))" "app_users a = users" "shares_of doc_id a = shares"
    "fst ` set (app_shares a) = keys" "map_of (app_documents a) doc_id = Some d" "d_owner_id d = u_id owner" "d_status d = ''active''"
    "stored_by_upload cfg d" "app_files a (d_storage_path d) = Some bs" using v by (auto simp: doc_view_def)
  let ?f = "\<lambda>s. s\<lparr>s_status := ''suspended'', s_suspended_at := Some now\<rparr>"
  let ?rs = "find_many s_created_at (\<lambda>s. s_document_id s = doc_id \<and> s_status s = ''active'') (app_shares a)"
  define b where "b = handle C sk alnum cfg now owner (Delete doc_id) a"
  have ok: "docs_ok b" unfolding b_def by (rule handle_docs_ok [OF d(1)])
  have b: "b = (update_shares ?f ?rs a)\<lparr>app_documents := update_one doc_id (\<lambda>d. d\<lparr>d_status := ''recycled'', d_recycled_at := Some now\<rparr>) (app_documents a)\<rparr>"
    using d by (simp add: b_def delete_document_def live_document_def docs_ok_find update_shares_def Let_def)
  have t: "table_ok s_id (app_shares a)" using d(1) by (simp add: docs_ok_def)
  have rs: "set ?rs = {s \<in> set shares. s_status s = ''active''}" using find_many_all [of doc_id a] len d(4) by simp
  have "shares_of doc_id b = map (\<lambda>s. if s \<in> set ?rs then ?f s else s) shares"
    using shares_of_update [OF t, of ?f doc_id] d(4) by (simp add: b shares_of_def)
  also have "\<dots> = map (\<lambda>s. if s_status s = ''active'' then ?f s else s) shares" unfolding rs by (rule map_cong) auto
  finally have "shares_of doc_id b = map (\<lambda>s. if s_status s = ''active'' then ?f s else s) shares" .
  moreover have "fst ` set (app_shares b) = keys" using update_shares_keys [OF t, of ?f ?rs] d(5) by (simp add: b)
  moreover have "map_of (app_documents b) doc_id = Some (d\<lparr>d_status := ''recycled'', d_recycled_at := Some now\<rparr>)"
    using d(6) by (simp add: b update_one_def)
  ultimately show ?thesis using d ok
    unfolding doc_view_def b_def [symmetric] by (simp add: b update_shares_def stored_by_upload_def)
qed

lemma view_restore:
  assumes v: "doc_view cfg doc_id owner users bs ''recycled'' shares keys a" and len: "length shares \<le> find_limit"
  shows "doc_view cfg doc_id owner users bs ''active''
    (map (\<lambda>s. if acc \<and> s_status s = ''suspended'' then s\<lparr>s_status := ''active'', s_suspended_at := None\<rparr> else s) shares) keys
    (handle C sk alnum cfg now owner (Restore doc_id acc) a)"
proof -
  obtain d where d: "docs_ok a" "db_ok (sv_storage (app_service a))" "app_users a = users" "shares_of doc_id a = shares"
    "fst ` set (app_shares a) = keys" "map_of (app_documents a) doc_id = Some d" "d_owner_id d = u_id owner" "d_status d = ''recycled''"
    "stored_by_upload cfg d" "app_files a (d_storage_path d) = Some bs" using v by (auto simp: doc_view_def)
  let ?f = "\<lambda>s. s\<lparr>s_status := ''active'', s_suspended_at := None\<rparr>"
  let ?rs = "find_many s_created_at (\<lambda>s. s_document_id s = doc_id \<and> s_status s = ''suspended'') (app_shares a)"
  define b where "b = handle C sk alnum cfg now owner (Restore doc_id acc) a"
  have ok: "docs_ok b" unfolding b_def by (rule handle_docs_ok [OF d(1)])
  have b: "b = (if acc then update_shares ?f ?rs a else a)\<lparr>app_documents := update_one doc_id (\<lambda>d. d\<lparr>d_status := ''active'', d_recycled_at := None\<rparr>) (app_documents a)\<rparr>"
    using d by (simp add: b_def restore_document_def recycled_document_def docs_ok_find update_shares_def Let_def)
  have t: "table_ok s_id (app_shares a)" using d(1) by (simp add: docs_ok_def)
  have rs: "set ?rs = {s \<in> set shares. s_status s = ''suspended''}" using find_many_all [of doc_id a] len d(4) by simp
  have "shares_of doc_id b = map (\<lambda>s. if acc \<and> s \<in> set ?rs then ?f s else s) shares"
    using shares_of_update [OF t, of ?f doc_id] d(4) by (cases acc) (simp_all add: b shares_of_def)
  also have "\<dots> = map (\<lambda>s. if acc \<and> s_status s = ''suspended'' then ?f s else s) shares" unfolding rs by (rule map_cong) auto
  finally have "shares_of doc_id b = map (\<lambda>s. if acc \<and> s_status s = ''suspended'' then ?f s else s) shares" .
  moreover have "fst ` set (app_shares b) = keys" using update_shares_keys [OF t, of ?f ?rs] d(5) by (simp add: b)
  moreover have "map_of (app_documents b) doc_id = Some (d\<lparr>d_status := ''active'', d_recycled_at := None\<rparr>)"
    using d(6) by (simp add: b update_one_def)
  ultimately show ?thesis using d ok
    unfolding doc_view_def b_def [symmetric] by (simp add: b update_shares_def stored_by_upload_def)
qed

lemma two_active_survive_revocation:
  assumes v: "doc_view cfg doc_id owner users bs ''active'' shares keys a"
    and two: "r \<in> set shares" "s \<in> set shares" "s_id r \<noteq> s_id s"
      "\<forall>x \<in> {r, s}. s_recipient_id x = uid \<and> s_status x = ''active''"
  shows "snd (revoke_share now doc_id uid owner a) = Inr () \<and> active_share doc_id uid (fst (revoke_share now doc_id uid owner a)) \<noteq> None"
proof -
  obtain d where d: "docs_ok a" "shares_of doc_id a = shares" "map_of (app_documents a) doc_id = Some d" "d_owner_id d = u_id owner"
    using v by (auto simp: doc_view_def)
  have rows: "x \<in> rows (app_shares a) \<and> s_document_id x = doc_id" if "x \<in> set shares" for x
    using that d(2) by (auto simp: shares_of_def)
  have "active_share doc_id uid a \<noteq> None" unfolding active_share_None_iff using rows [OF two(1)] two(4) by blast
  then have inr: "snd (revoke_share now doc_id uid owner a) = Inr ()" using d by (auto simp: revoke_share_def docs_ok_find)
  then obtain a' where a': "revoke_share now doc_id uid owner a = (a', Inr ())" by (metis prod.collapse)
  have "active_share doc_id uid a \<noteq> Some r \<or> active_share doc_id uid a \<noteq> Some s" using two(3) by auto
  then have "active_share doc_id uid a' \<noteq> None"
    unfolding revoked_access [OF d(1) a'] using rows [OF two(1)] rows [OF two(2)] two(4) by blast
  then show ?thesis using a' by simp
qed

text \<open>C35: A revocation can leave access behind: when a document is shared, recycled, restored without access,
  shared again, recycled and restored with access, the recipient holds two active shares, and
  revoking the share succeeds but leaves the other one active.\<close>
theorem revocation_misses_duplicate:
  assumes "doc_view cfg doc_id owner users bs ''active'' [] keys a"
    and "find_one (\<lambda>u. u_username u = name) users = Some recipient" "u_id recipient \<noteq> u_id owner"
    and "i \<notin> keys" "j \<notin> insert i keys"
    and "b = fold (handle C sk alnum cfg now owner)
      [Share i doc_id name, Delete doc_id, Restore doc_id False, Share j doc_id name, Delete doc_id, Restore doc_id True] a"
  shows "snd (revoke_share now doc_id (u_id recipient) owner b) = Inr () \<and>
    active_share doc_id (u_id recipient) (fst (revoke_share now doc_id (u_id recipient) owner b)) \<noteq> None"
proof -
  obtain r where v1: "doc_view cfg doc_id owner users bs ''active'' [r] (insert i keys) (handle C sk alnum cfg now owner (Share i doc_id name) a)"
    and r: "s_recipient_id r = u_id recipient" "s_status r = ''active''" "s_id r = i"
    using view_share [OF assms(1-3) _ assms(4), of C sk alnum now] by auto
  let ?r = "r\<lparr>s_status := ''suspended'', s_suspended_at := Some now\<rparr>"
  note v2 = view_delete [OF v1, of now C sk alnum]
  note v3 = view_restore [OF v2, of False C sk alnum now]
  have v3': "doc_view cfg doc_id owner users bs ''active'' [?r] (insert i keys)
     (fold (handle C sk alnum cfg now owner) [Share i doc_id name, Delete doc_id, Restore doc_id False] a)"
    using v3 r(2) by (simp add: find_limit_def del: handle.simps)
  obtain s where v4: "doc_view cfg doc_id owner users bs ''active'' ([?r] @ [s]) (insert j (insert i keys))
     (handle C sk alnum cfg now owner (Share j doc_id name) (fold (handle C sk alnum cfg now owner) [Share i doc_id name, Delete doc_id, Restore doc_id False] a))"
    and s: "s_recipient_id s = u_id recipient" "s_status s = ''active''" "s_id s = j"
    by (rule view_share [OF v3' assms(2,3) _ assms(5), of C sk alnum now]) (use that in auto)
  let ?s = "s\<lparr>s_status := ''suspended'', s_suspended_at := Some now\<rparr>"
  note v5 = view_delete [OF v4, of now C sk alnum]
  note v6 = view_restore [OF v5, of True C sk alnum now]
  have "doc_view cfg doc_id owner users bs ''active'' [?r\<lparr>s_status := ''active'', s_suspended_at := None\<rparr>, ?s\<lparr>s_status := ''active'', s_suspended_at := None\<rparr>]
     (insert j (insert i keys)) b"
    using v6 r(2) s(2) unfolding assms(6) by (simp add: find_limit_def del: handle.simps)
  from two_active_survive_revocation [OF this, of "?r\<lparr>s_status := ''active'', s_suspended_at := None\<rparr>"
      "?s\<lparr>s_status := ''active'', s_suspended_at := None\<rparr>" "u_id recipient" now]
  show ?thesis using r s assms(5) by auto
qed

section \<open>Concrete runs\<close>

definition sample_user :: "string \<Rightarrow> string \<Rightarrow> user_row" where
  "sample_user i name = \<lparr>u_id = i, u_username = name, u_email = name, u_password_hash = [], u_encrypted_signing_key = [],
     u_verify_key_hex = [], u_peer_id = ''peer-'' @ i, u_node_id = ''B'', u_created_at = 0, u_last_seen_at = 0\<rparr>"

abbreviation alice :: user_row where
  "alice \<equiv> sample_user ''1'' ''alice''"

abbreviation bob :: user_row where
  "bob \<equiv> sample_user ''2'' ''bob''"

definition sample_cfg :: config where
  "sample_cfg = \<lparr>cfg_storage_dir = ''data'', cfg_node_id = ''B'', cfg_session_ttl_hours = 24, cfg_max_file_size_mb = 50\<rparr>"

definition sample_doc :: document_row where
  "sample_doc = \<lparr>d_id = ''d1'', d_owner_id = ''1'', d_filename = ''notes'', d_mime_type = ''text/plain'', d_size_bytes = 2,
     d_storage_path = path_join ''data'' ''d1'', d_storage_node = ''B'', d_content_hash = ''c'', d_coc_node_hash = ''root'',
     d_status = ''active'', d_created_at = 0, d_deleted_at = None, d_recycled_at = None\<rparr>"

definition sample_app :: app where
  "sample_app = \<lparr>app_users = [(''1'', alice), (''2'', bob)], app_sessions = [], app_documents = [(''d1'', sample_doc)],
     app_shares = [], app_service = sample_service, app_files = [path_join ''data'' ''d1'' \<mapsto> [104, 105]]\<rparr>"

lemma sample_app_ok: "docs_ok sample_app" "app_shares sample_app = []" "db_ok (sv_storage (app_service sample_app))"
  by (simp_all add: docs_ok_def sample_app_def table_ok_def sample_doc_def sample_service_def sample_db_ok)

lemma sample_stored: "stored_by_upload sample_cfg sample_doc"
  unfolding stored_by_upload_def
  by (rule exI [of _ "[]"]) (simp add: sample_doc_def sample_cfg_def path_suffix_def path_name_def Let_def split_def)

lemma sample_can_share: "can_share ''d1'' ''bob'' alice bob sample_doc [104, 105] sample_app"
  by (simp add: can_share_def sample_app_ok(3))
     (simp add: sample_app_def sample_doc_def sample_user_def live_document_def find_one_def active_share_def)

definition sample_shared :: app where
  "sample_shared = handle toy_crypto [1] (\<lambda>_. False) sample_cfg 0 alice (Share ''s1'' ''d1'' ''bob'') sample_app"

lemma sample_share: "\<exists>row. share_document toy_crypto [1] (\<lambda>_. False) sample_cfg 0 ''s1'' ''d1'' ''bob'' alice sample_app = (sample_shared, Inr row)"
proof -
  obtain row where "snd (share_document toy_crypto [1] (\<lambda>_. False) sample_cfg 0 ''s1'' ''d1'' ''bob'' alice sample_app) = Inr row"
    by (rule share_by_owner [OF sample_can_share, of toy_crypto "[1]" "\<lambda>_. False" sample_cfg 0 "''s1''"]) simp
  then show ?thesis unfolding sample_shared_def handle.simps by (metis prod.collapse)
qed

lemma sample_run: "run toy_crypto [1] (\<lambda>_. False) sample_cfg sample_app [(0, alice, Share ''s1'' ''d1'' ''bob'')] sample_shared"
  using run_request [OF run_start, of "Share ''s1'' ''d1'' ''bob''" sample_app toy_crypto "[1]" "\<lambda>_. False" sample_cfg 0 alice]
  by (simp add: sample_shared_def sample_app_ok)

lemma sample_tombstones: "tombstones (sv_storage (app_service sample_app)) = []"
  by (simp add: sample_app_def sample_service_def sample_db_def)


theorem recipient_downloads_original_witness:
  "snd (download_document 5 ''d1'' bob sample_shared) = Inr [104, 105]"
  using recipient_downloads_original [OF sample_can_share sample_stored sample_tombstones] sample_share by blast

theorem downloads_were_granted_witness:
  "\<exists>d. live_document ''d1'' sample_shared = Some d \<and> d_owner_id d \<noteq> u_id bob \<and>
    was_granted toy_crypto [1] (\<lambda>_. False) sample_cfg sample_app [(0, alice, Share ''s1'' ''d1'' ''bob'')] ''d1'' (u_id bob)"
proof -
  obtain row where "share_document toy_crypto [1] (\<lambda>_. False) sample_cfg 0 ''s1'' ''d1'' ''bob'' alice sample_app = (sample_shared, Inr row)"
    using sample_share by blast
  note s = after_share [OF sample_can_share sample_stored this]
  obtain a' where "download_document 5 ''d1'' bob sample_shared = (a', Inr [104, 105])"
    using s sample_tombstones by (auto simp: download_document_def may_access_def pg_get_tombstone_def Let_def)
  from downloads_were_granted [OF sample_run sample_app_ok(2) this] obtain d where "live_document ''d1'' sample_shared = Some d"
    "d_owner_id d = u_id bob \<or> was_granted toy_crypto [1] (\<lambda>_. False) sample_cfg sample_app [(0, alice, Share ''s1'' ''d1'' ''bob'')] ''d1'' (u_id bob)"
    by blast
  moreover have "d_owner_id sample_doc \<noteq> u_id bob" by (simp add: sample_doc_def sample_user_def)
  ultimately show ?thesis using s(1) by auto
qed



theorem revocation_misses_duplicate_witness:
  "let b = fold (handle toy_crypto [1] (\<lambda>_. False) sample_cfg 0 alice)
      [Share ''s1'' ''d1'' ''bob'', Delete ''d1'', Restore ''d1'' False, Share ''s2'' ''d1'' ''bob'', Delete ''d1'', Restore ''d1'' True] sample_app
   in snd (revoke_share 0 ''d1'' (u_id bob) alice b) = Inr () \<and> active_share ''d1'' (u_id bob) (fst (revoke_share 0 ''d1'' (u_id bob) alice b)) \<noteq> None"
proof -
  have "doc_view sample_cfg ''d1'' alice (app_users sample_app) [104, 105] ''active'' [] {} sample_app"
    using sample_app_ok sample_stored
    by (simp add: doc_view_def shares_of_def) (simp add: sample_app_def sample_doc_def sample_user_def)
  from revocation_misses_duplicate [OF this, of "''bob''" bob "''s1''" "''s2''" _ toy_crypto "[1]" "\<lambda>_. False" 0]
  show ?thesis by (simp add: Let_def find_one_def sample_app_def sample_user_def del: fold_simps handle.simps)
qed

end
