(* ===== verification/Boardroom.thy ===== *)
theory Boardroom
  imports Documents SecretSharing Timelock
begin

text \<open>
  The boardroom routes of the service (\<open>trustdocs/boardroom/routes.py\<close>): a proposal's text is split
  into one share per member, members approve by releasing their share, and once the threshold is
  met a member reads the text again, optionally before a time lock runs out and always with a
  watermark of the reader. This is where secret sharing, time locks, watermarks and the database meet.

  The state extends that of the document routes by the four tables of the boardrooms and by the
  service's time-lock engine. What a request draws at random is an argument, and so is the order in
  which the set of member names is walked. An exception inside a handler is answered with status 500.
\<close>

section \<open>State\<close>

record boardroom_row =
  b_id :: string
  b_name :: string
  b_threshold_m :: int
  b_created_at :: datetime

record proposal_row =
  p_id :: string
  p_boardroom_id :: string
  p_initiator_id :: string
  p_title :: string
  p_status :: string
  p_lock_id :: "string option"
  p_expires_at :: "datetime option"
  p_created_at :: datetime

record shamir_row =
  h_id :: string
  h_proposal_id :: string
  h_user_id :: string
  h_share_data :: json
  h_submitted :: bool
  h_created_at :: datetime

record board = app +
  bd_rooms :: "boardroom_row table"
  bd_members :: "(string \<times> string) list"
  bd_proposals :: "proposal_row table"
  bd_shares :: "shamir_row table"
  bd_timelock :: timelock_engine

abbreviation board_log :: "datetime \<Rightarrow> string \<Rightarrow> user_row \<Rightarrow> string \<Rightarrow> board \<Rightarrow> board" where
  "board_log now ety user target s \<equiv> s\<lparr>app_service := service_log now ety (u_peer_id user) target [] (app_service s)\<rparr>"

section \<open>Boardrooms\<close>

text \<open>The rows of the membership table of one boardroom, at most as many as a query returns.\<close>

definition members_of :: "string \<Rightarrow> board \<Rightarrow> string list" where
  "members_of bid s = take find_limit (map snd (filter (\<lambda>m. fst m = bid) (bd_members s)))"

definition create_boardroom ::
  "(string list \<Rightarrow> string list) \<Rightarrow> datetime \<Rightarrow> string \<Rightarrow> string \<Rightarrow> int \<Rightarrow> string list \<Rightarrow> user_row \<Rightarrow> board \<Rightarrow> board \<times> string response" where
  "create_boardroom order now bid name threshold_m member_usernames user s =
     (let names = order (remdups (member_usernames @ [u_username user]));
          found = map (\<lambda>n. find_one (\<lambda>u. u_username u = n) (app_users s)) names
      in if None \<in> set found then (s, Inl (Http 404))
         else
           let members = map the found
           in if length members < 2 then (s, Inl (Http 400))
              else if threshold_m > int (length members) \<or> threshold_m < 2 then (s, Inl (Http 400))
              else
                let room = \<lparr>b_id = bid, b_name = name, b_threshold_m = threshold_m, b_created_at = now\<rparr>;
                    s = s\<lparr>bd_rooms := insert_row bid room (bd_rooms s),
                          bd_members := bd_members s @ map (\<lambda>u. (bid, u_id u)) members\<rparr>
                in (board_log now ''BOARDROOM_CREATED'' user (''Boardroom ID: '' @ bid @ '' Threshold: '' @ str_int threshold_m) s,
                    Inr bid))"

definition list_boardrooms :: "user_row \<Rightarrow> board \<Rightarrow> (boardroom_row \<times> nat) list" where
  "list_boardrooms user s =
     List.map_filter (\<lambda>bid. map_option (\<lambda>b. (b, length (members_of (b_id b) s))) (find_one (\<lambda>b. b_id b = bid) (bd_rooms s)))
       (take find_limit (map fst (filter (\<lambda>m. snd m = u_id user) (bd_members s))))"

section \<open>Proposals\<close>

text \<open>The optional time lock: the text to split, with the identifier and the end of the lock.\<close>

definition apply_timelock ::
  "crypto \<Rightarrow> datetime \<Rightarrow> lock_draws \<Rightarrow> ustr \<Rightarrow> int option \<Rightarrow> timelock_engine
   \<Rightarrow> timelock_engine \<times> (ustr \<times> (string \<times> datetime) option) result" where
  "apply_timelock C now ld content ttl_seconds e =
     (case ttl_seconds of
        None \<Rightarrow> (e, Inr (content, None))
      | Some ttl \<Rightarrow>
          (case encrypt C now ld content ttl False e of
             (e, Inl x) \<Rightarrow> (e, Inl x)
           | (e, Inr enc) \<Rightarrow>
               (case read_instant (tm_expires_at (ec_metadata enc)) of
                  Inl x \<Rightarrow> (e, Inl x)
                | Inr expires \<Rightarrow>
                    (e, Inr (ustr_of (dumps (encrypted_to_dict enc)), Some (tm_lock_id (ec_metadata enc), expires))))))"

text \<open>The rows of the shares: the share of position \<open>i\<close> goes to the member of position \<open>i\<close>.\<close>

definition share_rows :: "datetime \<Rightarrow> string \<Rightarrow> (nat \<Rightarrow> string) \<Rightarrow> string list \<Rightarrow> share list \<Rightarrow> (string \<times> shamir_row) list" where
  "share_rows now pid row_id members shares =
     map (\<lambda>i. (row_id i, \<lparr>h_id = row_id i, h_proposal_id = pid, h_user_id = members ! i,
       h_share_data = share_to_dict (shares ! i), h_submitted = False, h_created_at = now\<rparr>)) [0..<length members]"

definition create_proposal ::
  "crypto \<Rightarrow> datetime \<Rightarrow> draws \<Rightarrow> lock_draws \<Rightarrow> string \<Rightarrow> (nat \<Rightarrow> string) \<Rightarrow> string \<Rightarrow> string \<Rightarrow> ustr \<Rightarrow> int option \<Rightarrow> user_row
   \<Rightarrow> board \<Rightarrow> board \<times> (string \<times> datetime option) response" where
  "create_proposal C now dr ld pid row_id boardroom_id title content ttl_seconds user s =
     (if ttl_seconds \<noteq> None \<and> the ttl_seconds < 60 then (s, Inl (Http 422))
      else case find_one (\<lambda>b. b_id b = boardroom_id) (bd_rooms s) of
        None \<Rightarrow> (s, Inl (Http 404))
      | Some room \<Rightarrow>
          if (boardroom_id, u_id user) \<notin> set (bd_members s) then (s, Inl (Http 403))
          else
            let all_members = members_of boardroom_id s
            in case apply_timelock C now ld content ttl_seconds (bd_timelock s) of
                 (e, Inl x) \<Rightarrow> (s\<lparr>bd_timelock := e\<rparr>, Inl (Http 500))
               | (e, Inr (content_to_split, lock)) \<Rightarrow>
                   let s = s\<lparr>bd_timelock := e\<rparr>
                   in case split_secret C dr content_to_split (b_threshold_m room) (int (length all_members)) of
                        Inl x \<Rightarrow> (s, Inl (Http 500))
                      | Inr (shares, key) \<Rightarrow>
                          let p = \<lparr>p_id = pid, p_boardroom_id = boardroom_id, p_initiator_id = u_id user, p_title = title,
                                p_status = ''pending'', p_lock_id = map_option fst lock, p_expires_at = map_option snd lock,
                                p_created_at = now\<rparr>;
                              s = s\<lparr>bd_proposals := insert_row pid p (bd_proposals s),
                                    bd_shares := fold (\<lambda>(i, r). insert_row i r) (share_rows now pid row_id all_members shares) (bd_shares s)\<rparr>;
                              suffix = (case ttl_seconds of None \<Rightarrow> [] | Some ttl \<Rightarrow> '' | TimeLock TTL: '' @ str_int ttl @ ''s'')
                          in (board_log now ''PROPOSAL_INITIATED'' user (''Proposal ID: '' @ pid @ suffix) s,
                              Inr (pid, map_option snd lock)))"

definition proposal_shares :: "string \<Rightarrow> board \<Rightarrow> shamir_row list" where
  "proposal_shares pid s = find_many h_created_at (\<lambda>h. h_proposal_id h = pid) (bd_shares s)"

record proposal_view =
  pv_row :: proposal_row
  pv_initiator_username :: string
  pv_approvals :: nat
  pv_user_has_approved :: bool
  pv_has_timelock :: bool
  pv_timelock_expired :: bool

definition list_proposals :: "datetime \<Rightarrow> string \<Rightarrow> user_row \<Rightarrow> board \<Rightarrow> proposal_view list response" where
  "list_proposals now boardroom_id user s =
     (if (boardroom_id, u_id user) \<notin> set (bd_members s) then Inl (Http 403)
      else Inr (map (\<lambda>p.
        let shares = proposal_shares (p_id p) s;
            locked = (p_lock_id p \<noteq> None \<and> p_lock_id p \<noteq> Some [])
        in \<lparr>pv_row = p,
            pv_initiator_username = (case find_one (\<lambda>u. u_id u = p_initiator_id p) (app_users s) of None \<Rightarrow> ''unknown'' | Some u \<Rightarrow> u_username u),
            pv_approvals = length (filter h_submitted shares),
            pv_user_has_approved = (case find (\<lambda>h. h_user_id h = u_id user) shares of None \<Rightarrow> False | Some h \<Rightarrow> h_submitted h),
            pv_has_timelock = locked,
            pv_timelock_expired = (locked \<and> (p_expires_at p = None \<or>
              (case get_remaining_time now (the (p_lock_id p)) (bd_timelock s) of None \<Rightarrow> True | Some r \<Rightarrow> r \<le> 0)))\<rparr>)
        (find_many p_created_at (\<lambda>p. p_boardroom_id p = boardroom_id) (bd_proposals s))))"

section \<open>Approving\<close>

definition approve_proposal :: "datetime \<Rightarrow> string \<Rightarrow> user_row \<Rightarrow> board \<Rightarrow> board \<times> string response" where
  "approve_proposal now pid user s =
     (case find_one (\<lambda>h. h_proposal_id h = pid \<and> h_user_id h = u_id user) (bd_shares s) of
        None \<Rightarrow> (s, Inl (Http 404))
      | Some share \<Rightarrow>
          if h_submitted share then (s, Inl (Http 400))
          else
            let s = s\<lparr>bd_shares := update_one (h_id share) (\<lambda>h. h\<lparr>h_submitted := True\<rparr>) (bd_shares s)\<rparr>;
                s = board_log now ''SHARE_SUBMITTED'' user (''Proposal ID: '' @ pid) s
            in case find_one (\<lambda>p. p_id p = pid) (bd_proposals s) of
                 None \<Rightarrow> (s, Inl (Http 404))
               | Some p \<Rightarrow>
                   (case find_one (\<lambda>b. b_id b = p_boardroom_id p) (bd_rooms s) of
                      None \<Rightarrow> (s, Inl (Http 404))
                    | Some room \<Rightarrow>
                        let met = (int (length (filter h_submitted (proposal_shares pid s))) \<ge> b_threshold_m room);
                            s = (if met \<and> p_status p \<noteq> ''executed''
                                 then board_log now ''PROPOSAL_EXECUTED'' user
                                        (''Threshold '' @ str_int (b_threshold_m room) @ '' met for Proposal '' @ pid)
                                        (s\<lparr>bd_proposals := update_one pid (\<lambda>p. p\<lparr>p_status := ''executed''\<rparr>) (bd_proposals s)\<rparr>)
                                 else s)
                        in (s, Inr (if met then ''executed'' else ''pending''))))"

section \<open>Unlocking\<close>

text \<open>The text of the shares; an empty text counts as a failure.\<close>

definition reconstruct_shares :: "crypto \<Rightarrow> shamir_row list \<Rightarrow> ustr result" where
  "reconstruct_shares C hs =
     bindr (mapr (\<lambda>h. share_from_dict (h_share_data h)) hs) (\<lambda>ss.
     bindr (reconstruct_secret C ss None) (\<lambda>t.
       case t of None \<Rightarrow> Inl ValueError | Some t \<Rightarrow> if t = [] then Inl ValueError else Inr t))"

text \<open>Opening the time lock, for the status the engine reports first.\<close>

definition open_timelock :: "crypto \<Rightarrow> datetime \<Rightarrow> bytes \<Rightarrow> string \<Rightarrow> ustr \<Rightarrow> timelock_engine \<Rightarrow> timelock_engine \<times> ustr response" where
  "open_timelock C now r lock_id plaintext e =
     (let (e, status) = get_status now r lock_id e
      in if status = EXPIRED \<or> status = DESTROYED then (e, Inl (Http 403))
         else case loads (esc_text plaintext) of
                None \<Rightarrow> (e, Inl (Http 500))
              | Some j \<Rightarrow>
                  (case encrypted_from_dict j of
                     Inl x \<Rightarrow> (e, Inl (Http 500))
                   | Inr enc \<Rightarrow>
                       (case decrypt C now r enc e of
                          (e, None) \<Rightarrow> (e, Inl (Http 403))
                        | (e, Some t) \<Rightarrow> (e, Inr t))))"

record unlocked =
  un_title :: string
  un_content :: ustr
  un_status :: string
  un_watermarked :: bool
  un_remaining :: "int option"

definition unlock_proposal ::
  "crypto \<Rightarrow> (nat \<Rightarrow> bool) \<Rightarrow> datetime \<Rightarrow> bytes \<Rightarrow> string \<Rightarrow> user_row \<Rightarrow> board \<Rightarrow> board \<times> unlocked response" where
  "unlock_proposal C alnum now r pid user s =
     (case find_one (\<lambda>p. p_id p = pid) (bd_proposals s) of
        None \<Rightarrow> (s, Inl (Http 404))
      | Some p \<Rightarrow>
          (case find_one (\<lambda>b. b_id b = p_boardroom_id p) (bd_rooms s) of
             None \<Rightarrow> (s, Inl (Http 404))
           | Some room \<Rightarrow>
               if (b_id room, u_id user) \<notin> set (bd_members s) then (s, Inl (Http 403))
               else
                 let submitted = filter h_submitted (proposal_shares pid s)
                 in if int (length submitted) < b_threshold_m room then (s, Inl (Http 403))
                    else case reconstruct_shares C (py_take (b_threshold_m room) submitted) of
                      Inl x \<Rightarrow> (s, Inl (Http 500))
                    | Inr plaintext \<Rightarrow>
                        (case (case p_lock_id p of
                                 None \<Rightarrow> (bd_timelock s, Inr plaintext)
                               | Some l \<Rightarrow> if l = [] then (bd_timelock s, Inr plaintext)
                                           else open_timelock C now r l plaintext (bd_timelock s)) of
                           (e, Inl x) \<Rightarrow> (s\<lparr>bd_timelock := e\<rparr>, Inl x)
                         | (e, Inr plaintext) \<Rightarrow>
                             let (engine, watermarked) = embed_watermark alnum now plaintext (u_peer_id user) 0 None True True True
                                   (sv_stegano (app_service s));
                                 s = s\<lparr>bd_timelock := e, app_service := (app_service s)\<lparr>sv_stegano := engine\<rparr>\<rparr>;
                                 s = board_log now ''PROPOSAL_UNLOCKED'' user (''Proposal '' @ pid @ '' | Watermarked copy issued'') s
                             in (s, Inr \<lparr>un_title = p_title p, un_content = watermarked, un_status = p_status p, un_watermarked = True,
                                   un_remaining = (case p_lock_id p of None \<Rightarrow> None | Some l \<Rightarrow>
                                     if l = [] then None else get_remaining_time now l e)\<rparr>))))"

section \<open>A proposal and its approvals\<close>

text \<open>
  What the life of one proposal depends on: its row up to the status, the rows of its shares with the
  flags of those who approved, the boardroom, the members, the time locks and the watermark engine.
\<close>

definition prop_rows :: "string \<Rightarrow> board \<Rightarrow> shamir_row list" where
  "prop_rows pid s = filter (\<lambda>h. h_proposal_id h = pid) (map snd (bd_shares s))"

definition flagged :: "string set \<Rightarrow> shamir_row \<Rightarrow> shamir_row" where
  "flagged A h = h\<lparr>h_submitted := h_user_id h \<in> A\<rparr>"

definition prop_view ::
  "proposal_row \<Rightarrow> boardroom_row \<Rightarrow> shamir_row list \<Rightarrow> timelock_engine \<Rightarrow> stegano_engine \<Rightarrow> (string \<times> string) list \<Rightarrow> string set \<Rightarrow> board \<Rightarrow> bool" where
  "prop_view p room hs e eng M A s \<longleftrightarrow>
     table_ok h_id (bd_shares s) \<and> table_ok p_id (bd_proposals s) \<and> prop_rows (p_id p) s = map (flagged A) hs \<and>
     (\<exists>st. map_of (bd_proposals s) (p_id p) = Some (p\<lparr>p_status := st\<rparr>)) \<and>
     find_one (\<lambda>b. b_id b = p_boardroom_id p) (bd_rooms s) = Some room \<and>
     bd_timelock s = e \<and> sv_stegano (app_service s) = eng \<and> bd_members s = M"

lemma flagged_sel [simp]:
  "h_id (flagged A h) = h_id h" "h_user_id (flagged A h) = h_user_id h" "h_proposal_id (flagged A h) = h_proposal_id h"
  "h_share_data (flagged A h) = h_share_data h" "h_created_at (flagged A h) = h_created_at h" "h_submitted (flagged A h) \<longleftrightarrow> h_user_id h \<in> A"
  by (simp_all add: flagged_def)

lemma prop_rows_rows: "h \<in> set (prop_rows pid s) \<longleftrightarrow> h \<in> rows (bd_shares s) \<and> h_proposal_id h = pid"
  by (auto simp: prop_rows_def)

lemma prop_rows_update:
  assumes "table_ok h_id (bd_shares s)"
  shows "filter (\<lambda>h. h_proposal_id h = pid) (map snd (update_one i (\<lambda>h. h\<lparr>h_submitted := True\<rparr>) (bd_shares s))) =
    map (\<lambda>h. if h_id h = i then h\<lparr>h_submitted := True\<rparr> else h) (prop_rows pid s)"
proof -
  have "filter (\<lambda>h. h_proposal_id h = pid) (map (\<lambda>h. if h_id h = i then h\<lparr>h_submitted := True\<rparr> else h) xs) =
      map (\<lambda>h. if h_id h = i then h\<lparr>h_submitted := True\<rparr> else h) (filter (\<lambda>h. h_proposal_id h = pid) xs)" for xs
    by (induction xs) auto
  from this [of "map snd (bd_shares s)"] show ?thesis
    unfolding update_one_map [OF assms] prop_rows_def by (simp add: case_prod_beta comp_def)
qed

text \<open>The shares after an approval.\<close>

lemma approve_shares:
  "bd_shares (fst (approve_proposal now pid user s)) =
     (case find_one (\<lambda>h. h_proposal_id h = pid \<and> h_user_id h = u_id user) (bd_shares s) of
        None \<Rightarrow> bd_shares s
      | Some h \<Rightarrow> if h_submitted h then bd_shares s else update_one (h_id h) (\<lambda>h. h\<lparr>h_submitted := True\<rparr>) (bd_shares s))"
  by (auto simp: approve_proposal_def Let_def split: option.split)

lemma approve_keeps:
  "bd_rooms (fst (approve_proposal now pid user s)) = bd_rooms s"
  "bd_members (fst (approve_proposal now pid user s)) = bd_members s"
  "bd_timelock (fst (approve_proposal now pid user s)) = bd_timelock s"
  "sv_stegano (app_service (fst (approve_proposal now pid user s))) = sv_stegano (app_service s)"
  by (auto simp: approve_proposal_def service_log_def Let_def split: option.split)

lemma approve_proposals:
  "bd_proposals (fst (approve_proposal now pid user s)) = bd_proposals s \<or>
   bd_proposals (fst (approve_proposal now pid user s)) = update_one pid (\<lambda>p. p\<lparr>p_status := ''executed''\<rparr>) (bd_proposals s)"
  by (auto simp: approve_proposal_def Let_def split: option.split)

lemma approve_view:
  assumes v: "prop_view p room hs e eng M A s" and d: "distinct (map h_user_id hs)"
  shows "prop_view p room hs e eng M (insert (u_id user) A) (fst (approve_proposal now (p_id p) user s))"
proof -
  let ?s = "fst (approve_proposal now (p_id p) user s)"
  obtain st where s: "table_ok h_id (bd_shares s)" "table_ok p_id (bd_proposals s)" "prop_rows (p_id p) s = map (flagged A) hs"
    "map_of (bd_proposals s) (p_id p) = Some (p\<lparr>p_status := st\<rparr>)" using v by (auto simp: prop_view_def)
  have rows: "map (flagged A) hs = map (flagged (insert (u_id user) A)) hs" if "\<And>h. h \<in> set hs \<Longrightarrow> h_user_id h = u_id user \<Longrightarrow> u_id user \<in> A"
  proof (rule map_cong [OF refl])
    fix h assume "h \<in> set hs"
    then have "(h_user_id h \<in> A) = (h_user_id h \<in> insert (u_id user) A)" using that by auto
    then show "flagged A h = flagged (insert (u_id user) A) h" by (simp only: flagged_def)
  qed
  have tab: "table_ok h_id (bd_shares ?s)"
    using table_ok_map [OF s(1)] unfolding approve_shares by (auto simp: update_one_map [OF s(1)] s(1) split: option.split)
  have "prop_rows (p_id p) ?s = map (flagged (insert (u_id user) A)) hs"
  proof (cases "find_one (\<lambda>h. h_proposal_id h = p_id p \<and> h_user_id h = u_id user) (bd_shares s)")
    case None
    have "h_user_id h \<noteq> u_id user" if "h \<in> set hs" for h
    proof -
      have "flagged A h \<in> set (prop_rows (p_id p) s)" using that s(3) by simp
      then show ?thesis using None unfolding find_one_None_iff prop_rows_rows by force
    qed
    then show ?thesis using None s(3) rows by (simp add: prop_rows_def approve_shares)
  next
    case (Some h0)
    then have h0: "h0 \<in> set (prop_rows (p_id p) s)" "h_user_id h0 = u_id user" using find_one_SomeD [OF Some] by (simp_all add: prop_rows_rows)
    then obtain h where h: "h \<in> set hs" "h0 = flagged A h" using s(3) by auto
    have uniq: "k = h" if "k \<in> set hs" "h_user_id k = u_id user" for k
      using that h h0 d by (auto simp: distinct_map inj_on_def)
    show ?thesis
    proof (cases "h_submitted h0")
      case True
      then have "u_id user \<in> A" using h h0 by simp
      then show ?thesis using True Some s(3) rows by (simp add: prop_rows_def approve_shares)
    next
      case False
      have id: "h_id k = h_id h \<longleftrightarrow> h_user_id k = u_id user" if "k \<in> set hs" for k
      proof
        assume "h_id k = h_id h"
        moreover have "flagged A k \<in> rows (bd_shares s)" "flagged A h \<in> rows (bd_shares s)"
          using that h(1) s(3) by (metis imageI list.set_map prop_rows_rows)+
        ultimately have "flagged A k = flagged A h" using rows_inj [OF s(1), of "flagged A k" "flagged A h"] by simp
        then have "h_user_id k = h_user_id h" by (metis flagged_sel(2))
        then show "h_user_id k = u_id user" using h h0 by simp
      qed (use uniq [OF that] in simp)
      have "prop_rows (p_id p) ?s = map (\<lambda>k. if h_id k = h_id h0 then k\<lparr>h_submitted := True\<rparr> else k) (map (flagged A) hs)"
        using prop_rows_update [OF s(1), of "p_id p" "h_id h0"] Some False s(3) by (simp add: prop_rows_def approve_shares)
      also have "\<dots> = map (flagged (insert (u_id user) A)) hs" using id h(2) by (auto simp: flagged_def)
      finally show ?thesis .
    qed
  qed
  moreover have "table_ok p_id (bd_proposals ?s)" "\<exists>st. map_of (bd_proposals ?s) (p_id p) = Some (p\<lparr>p_status := st\<rparr>)"
    using approve_proposals [of now "p_id p" user s] s(2,4) table_ok_map [OF s(2), of "\<lambda>q. if p_id q = p_id p then q\<lparr>p_status := ''executed''\<rparr> else q"]
    by (auto simp: update_one_map [OF s(2)]) (auto simp: update_one_map [OF s(2), symmetric] update_one_def)
  ultimately show ?thesis using v tab by (simp add: prop_view_def approve_keeps)
qed

lemma approvals_view:
  assumes "prop_view p room hs e eng M A s" "distinct (map h_user_id hs)"
  shows "prop_view p room hs e eng M (u_id ` snd ` set us \<union> A) (fold (\<lambda>(now, u) s. fst (approve_proposal now (p_id p) u s)) us s)"
  using assms(1)
proof (induction us arbitrary: s A)
  case (Cons x us)
  then show ?case using Cons.IH [OF approve_view [OF Cons.prems assms(2)], of "snd x" "fst x"] by (cases x) simp
qed simp

section \<open>Creating a proposal\<close>

definition new_ids :: "string \<Rightarrow> (nat \<Rightarrow> string) \<Rightarrow> board \<Rightarrow> bool" where
  "new_ids pid row_id s \<longleftrightarrow> map_of (bd_proposals s) pid = None \<and> (\<forall>h \<in> rows (bd_shares s). h_proposal_id h \<noteq> pid) \<and>
     inj row_id \<and> (\<forall>i. row_id i \<notin> fst ` set (bd_shares s))"

definition board_ok :: "board \<Rightarrow> bool" where
  "board_ok s \<longleftrightarrow> table_ok h_id (bd_shares s) \<and> table_ok p_id (bd_proposals s) \<and> distinct (bd_members s)"

lemma insert_rows_new:
  "distinct (map fst rs) \<Longrightarrow> fst ` set rs \<inter> fst ` set t = {} \<Longrightarrow> fold (\<lambda>(i, r). insert_row i r) rs t = t @ rs"
proof (induction rs arbitrary: t)
  case (Cons x rs)
  then have "insert_row (fst x) (snd x) t = t @ [x]" by (simp add: insert_row_def dict_set_new)
  moreover have "fst ` set rs \<inter> fst ` set (t @ [x]) = {}" using Cons.prems by auto
  ultimately show ?case using Cons by (simp add: case_prod_beta)
qed simp

lemma share_rows_simps:
  "map fst (share_rows now pid row_id members shares) = map row_id [0..<length members]"
  "map (h_user_id \<circ> snd) (share_rows now pid row_id members shares) = members"
  "(i, h) \<in> set (share_rows now pid row_id members shares) \<Longrightarrow> h_id h = i \<and> h_proposal_id h = pid \<and> \<not> h_submitted h \<and> h_created_at h = now"
  by (auto simp: share_rows_def comp_def map_nth)

lemma distinct_members: "distinct (bd_members s) \<Longrightarrow> distinct (members_of bid s)"
  by (auto simp: members_of_def distinct_map inj_on_def intro!: distinct_take)

lemma create_proposal_InrD:
  assumes "create_proposal C now dr ld pid row_id boardroom_id title content ttl user s = (s1, Inr res)"
  obtains room e cts lock shares key where
    "find_one (\<lambda>b. b_id b = boardroom_id) (bd_rooms s) = Some room"
    "apply_timelock C now ld content ttl (bd_timelock s) = (e, Inr (cts, lock))"
    "split_secret C dr cts (b_threshold_m room) (int (length (members_of boardroom_id s))) = Inr (shares, key)"
    "bd_timelock s1 = e" "bd_rooms s1 = bd_rooms s" "bd_members s1 = bd_members s" "sv_stegano (app_service s1) = sv_stegano (app_service s)"
    "bd_shares s1 = fold (\<lambda>(i, r). insert_row i r) (share_rows now pid row_id (members_of boardroom_id s) shares) (bd_shares s)"
    "bd_proposals s1 = insert_row pid \<lparr>p_id = pid, p_boardroom_id = boardroom_id, p_initiator_id = u_id user, p_title = title,
       p_status = ''pending'', p_lock_id = map_option fst lock, p_expires_at = map_option snd lock, p_created_at = now\<rparr> (bd_proposals s)"
    "ttl = None \<or> 60 \<le> the ttl"
  using assms that
  by (auto simp: create_proposal_def service_log_def Let_def split: option.splits if_splits prod.splits sum.splits)

lemma create_view:
  assumes c: "create_proposal C now dr ld pid row_id boardroom_id title content ttl user s = (s1, Inr res)"
    and ok: "board_ok s" "new_ids pid row_id s"
  obtains room e cts lock shares key p where
    "find_one (\<lambda>b. b_id b = boardroom_id) (bd_rooms s) = Some room"
    "apply_timelock C now ld content ttl (bd_timelock s) = (e, Inr (cts, lock))"
    "split_secret C dr cts (b_threshold_m room) (int (length (members_of boardroom_id s))) = Inr (shares, key)"
    "p_id p = pid" "p_boardroom_id p = boardroom_id" "p_title p = title" "p_lock_id p = map_option fst lock"
    "prop_view p room (map snd (share_rows now pid row_id (members_of boardroom_id s) shares)) e (sv_stegano (app_service s)) (bd_members s) {} s1"
proof -
  obtain room e cts lock shares key where *:
    "find_one (\<lambda>b. b_id b = boardroom_id) (bd_rooms s) = Some room"
    "apply_timelock C now ld content ttl (bd_timelock s) = (e, Inr (cts, lock))"
    "split_secret C dr cts (b_threshold_m room) (int (length (members_of boardroom_id s))) = Inr (shares, key)"
    "bd_timelock s1 = e" "bd_rooms s1 = bd_rooms s" "bd_members s1 = bd_members s" "sv_stegano (app_service s1) = sv_stegano (app_service s)"
    "bd_shares s1 = fold (\<lambda>(i, r). insert_row i r) (share_rows now pid row_id (members_of boardroom_id s) shares) (bd_shares s)"
    "bd_proposals s1 = insert_row pid \<lparr>p_id = pid, p_boardroom_id = boardroom_id, p_initiator_id = u_id user, p_title = title,
       p_status = ''pending'', p_lock_id = map_option fst lock, p_expires_at = map_option snd lock, p_created_at = now\<rparr> (bd_proposals s)"
    by (rule create_proposal_InrD [OF c])
  define rs where "rs = share_rows now pid row_id (members_of boardroom_id s) shares"
  define p where "p = \<lparr>p_id = pid, p_boardroom_id = boardroom_id, p_initiator_id = u_id user, p_title = title,
       p_status = ''pending'', p_lock_id = map_option fst lock, p_expires_at = map_option snd lock, p_created_at = now\<rparr>"
  have m: "map fst rs = map row_id [0..<length (members_of boardroom_id s)]" by (simp add: rs_def share_rows_simps(1))
  have keys: "distinct (map fst rs)" "fst ` set rs \<inter> fst ` set (bd_shares s) = {}"
  proof -
    show "distinct (map fst rs)" unfolding m using ok(2) by (auto simp: new_ids_def distinct_map intro: inj_on_subset)
    have "fst ` set rs = row_id ` {0..<length (members_of boardroom_id s)}" using arg_cong [OF m, of set] by simp
    then show "fst ` set rs \<inter> fst ` set (bd_shares s) = {}" using ok(2) by (auto simp: new_ids_def)
  qed
  have sh: "bd_shares s1 = bd_shares s @ rs" unfolding *(8) rs_def [symmetric] using keys by (rule insert_rows_new)
  have r: "(i, h) \<in> set rs \<Longrightarrow> h_id h = i \<and> h_proposal_id h = pid \<and> \<not> h_submitted h" for i h
    using share_rows_simps(3) unfolding rs_def by blast
  have "table_ok h_id (bd_shares s1)" using ok(1) keys r by (auto simp: sh board_ok_def table_ok_def)
  moreover have "table_ok p_id (bd_proposals s1)" unfolding *(9) using ok(1) by (simp add: board_ok_def table_ok_insert)
  moreover have "prop_rows pid s1 = map (flagged {}) (map snd rs)"
  proof -
    have "prop_rows pid s1 = map snd rs" using ok(2) r by (auto simp: prop_rows_def sh new_ids_def filter_id_conv intro!: filter_False)
    also have "\<dots> = map (flagged {}) (map snd rs)" using r by (auto simp: flagged_def)
    finally show ?thesis .
  qed
  moreover have "map_of (bd_proposals s1) pid = Some (p\<lparr>p_status := ''pending''\<rparr>)" by (simp add: *(9) insert_row_def p_def)
  ultimately have v: "prop_view p room (map snd rs) e (sv_stegano (app_service s)) (bd_members s) {} s1"
    using *(1,4-7) unfolding prop_view_def by (auto simp: p_def)
  show thesis by (rule that [OF *(1-3) _ _ _ _ v [unfolded rs_def]]) (simp_all add: p_def)
qed

section \<open>Unlocking a proposal\<close>

lemma sort_key_const: "\<forall>x \<in> set xs. f x = c \<Longrightarrow> sort_key f xs = xs"
  by (induction xs) (simp_all add: insort_is_Cons)

lemma view_proposal_shares:
  assumes "prop_view p room hs e eng M A s" "\<forall>h \<in> set hs. h_created_at h = now" "length hs \<le> find_limit"
  shows "proposal_shares (p_id p) s = map (flagged A) hs"
  using assms sort_key_const [of "map (flagged A) hs" h_created_at now]
  by (simp add: prop_view_def proposal_shares_def find_many_def prop_rows_def)

text \<open>Which shares were released, by position.\<close>

definition released :: "string list \<Rightarrow> string set \<Rightarrow> nat list" where
  "released members A = filter (\<lambda>i. members ! i \<in> A) [0..<length members]"

lemma length_released:
  assumes "distinct members"
  shows "length (released members A) = card (set members \<inter> A)"
proof -
  have "length (released members A) = length (filter (\<lambda>m. m \<in> A) (map ((!) members) [0..<length members]))"
    by (simp add: released_def filter_map comp_def)
  also have "\<dots> = card (set members \<inter> A)" unfolding map_nth distinct_length_filter [OF assms] by (simp add: Int_commute)
  finally show ?thesis .
qed

lemma submitted_released:
  "filter h_submitted (map (flagged A) (map snd (share_rows now pid row_id members shares))) =
     map (\<lambda>i. flagged A (snd (share_rows now pid row_id members shares ! i))) (released members A)"
  by (simp add: share_rows_def released_def filter_map comp_def cong: filter_cong map_cong)

lemma mapr_comp: "mapr f (map g xs) = mapr (\<lambda>x. f (g x)) xs"
  by (induction xs) simp_all

lemma reconstruct_released:
  assumes "split_secret C dr content t (int (length members)) = Inr (shares, key)" "2 \<le> t" "t \<le> int (length members)"
    and "length members \<le> 255" "scalar_text content" "content \<noteq> []" "aes_correct C" "length (dr_aes_key dr) = 32"
    and "t \<le> int (length (released members A))"
  shows "reconstruct_shares C (py_take t (map (\<lambda>i. flagged A (snd (share_rows now pid row_id members shares ! i))) (released members A))) = Inr content"
proof -
  let ?is = "take (nat t) (released members A)" and ?row = "\<lambda>i. flagged A (snd (share_rows now pid row_id members shares ! i))"
  obtain sh where sh: "split_secret C dr content t (int (length members)) = Inr (sh, dr_hmac_key dr)" "length sh = length members" "distinct sh"
    using split_ok [OF assms(2,3,8), of C content] by auto
  then have s: "length shares = length members" "distinct shares" using assms(1) by auto
  have lt: "i < length members" if "i \<in> set ?is" for i using that in_set_takeD by (fastforce simp: released_def)
  have p: "py_take t (map ?row (released members A)) = map ?row ?is" using assms(2) by (simp add: py_take_def take_map)
  have "mapr (\<lambda>h. share_from_dict (h_share_data h)) (map ?row ?is) = Inr (map ((!) shares) ?is)"
  proof -
    have "mapr (\<lambda>h. share_from_dict (h_share_data h)) (map ?row ?is) = mapr (\<lambda>i. share_from_dict (h_share_data (?row i))) ?is"
      by (rule mapr_comp)
    also have "\<dots> = Inr (map ((!) shares) ?is)" by (rule mapr_map) (use lt in \<open>auto simp: share_rows_def\<close>)
    finally show ?thesis .
  qed
  moreover have "reconstruct_secret C (map ((!) shares) ?is) None = Inr (Some content)"
  proof (rule reconstruct_ok [OF assms(2,3) _ assms(5,7,8,1)])
    have "distinct ?is" by (simp add: released_def distinct_take)
    moreover have "inj_on ((!) shares) (set ?is)" using lt s by (auto intro!: inj_on_nth)
    ultimately show "distinct (map ((!) shares) ?is)" by (simp add: distinct_map)
    show "set (map ((!) shares) ?is) \<subseteq> set shares" using lt s(1) by auto
  qed (use assms(2,4,9) in auto)
  ultimately show ?thesis unfolding p reconstruct_shares_def using assms(6) by simp
qed

lemma split_Inr_bounds: "split_secret C dr content t n = Inr x \<Longrightarrow> 2 \<le> t \<and> t \<le> n"
  by (auto simp: split_secret_def split: if_splits)

lemma jwf_encrypted: "jwf (encrypted_to_dict enc)"
  by (simp add: encrypted_to_dict_def metadata_to_dict_def)

lemma keep_keys: "e\<lparr>te_keys := te_keys e\<rparr> = e" for e :: timelock_engine
  by (cases e) simp

text \<open>A lock just applied opens until its end.\<close>

lemma timelock_opens:
  assumes "apply_timelock C now ld content (Some ttl) e0 = (e, Inr (cts, lock))" "aes_correct C" "length (ld_key ld) = 32" "scalar_text content"
    and "now' \<le> now + seconds ttl"
  shows "lock = Some (ld_lock_id ld, now + seconds ttl)" "open_timelock C now' r (ld_lock_id ld) cts e = (e, Inr content)"
    "scalar_text cts" "cts \<noteq> []"
proof -
  let ?x = "now + seconds ttl"
  let ?m = "\<lparr>tm_lock_id = ld_lock_id ld, tm_content_hash = sha256 (utf8 content), tm_created_at = isoformat now,
      tm_expires_at = isoformat ?x, tm_ttl_seconds = ttl, tm_status = ''ACTIVE''\<rparr>"
  let ?enc = "\<lparr>ec_ciphertext = aes_enc C (ld_key ld) (ld_nonce ld) (utf8 content), ec_nonce = ld_nonce ld, ec_metadata = ?m\<rparr>"
  have ok: "dt_ok ?x" "crypto_available e0" using assms(1) by (auto simp: apply_timelock_def encrypt_def Let_def split: if_splits)
  have e: "e = e0\<lparr>te_keys := store_key (ld_lock_id ld) (ld_key ld) ?x (te_keys e0), te_metadata := (te_metadata e0)(ld_lock_id ld \<mapsto> ?m)\<rparr>"
    and cts: "cts = ustr_of (dumps (encrypted_to_dict ?enc))" and lock: "lock = Some (ld_lock_id ld, ?x)"
    using assms(1) ok by (simp_all add: apply_timelock_def encrypt_def Let_def)
  show "lock = Some (ld_lock_id ld, ?x)" by (rule lock)
  show "scalar_text cts" by (simp add: cts)
  have j: "loads (esc_text cts) = Some (encrypted_to_dict ?enc)" unfolding cts by (simp add: esc_text_ascii ascii_dumps loads_dumps jwf_encrypted)
  have "loads [] = None" by (simp add: loads_def skip_def)
  then show "cts \<noteq> []" using j by (metis esc_text.simps(1) option.distinct(1))
  have k: "map_of (te_keys e) (ld_lock_id ld) = Some (ld_key ld, ?x)" by (simp add: e store_key_def)
  have g: "get_key now' r (ld_lock_id ld) (te_keys e) = (te_keys e, Some (ld_key ld))" using k assms(5) by (simp add: get_key_def)
  have meta: "te_metadata e (ld_lock_id ld) = Some ?m" "crypto_available e" using ok(2) by (simp_all add: e)
  have "get_status now' r (ld_lock_id ld) e = (e, ACTIVE)" using g meta(1) by (simp add: get_status_def has_key_def keep_keys)
  moreover have "decrypt C now' r ?enc e = (e, Some content)"
    using g meta(2) assms(2-4) by (simp add: decrypt_def aes_correct_def decode_utf8_utf8 keep_keys)
  ultimately show "open_timelock C now' r (ld_lock_id ld) cts e = (e, Inr content)"
    by (simp add: open_timelock_def j encrypted_from_to_dict)
qed

text \<open>What the life of a created proposal comes to when some members have approved it.\<close>

lemma unlock_view:
  assumes v: "prop_view p room (map snd (share_rows now (p_id p) row_id members shares)) e eng M A s"
    and split: "split_secret C dr cts (b_threshold_m room) (int (length members)) = Inr (shares, key)"
    and m: "distinct members" "length members \<le> find_limit" "(b_id room, u_id reader) \<in> set M"
    and c: "scalar_text cts" "cts \<noteq> []" "aes_correct C" "length (dr_aes_key dr) = 32"
    and l: "(case p_lock_id p of None \<Rightarrow> (e, Inr cts) | Some l \<Rightarrow> if l = [] then (e, Inr cts) else open_timelock C now' r l cts e) = (e, Inr content)"
  shows "if b_threshold_m room \<le> int (card (set members \<inter> A))
    then \<exists>s' un. unlock_proposal C alnum now' r (p_id p) reader s = (s', Inr un) \<and> un_title un = p_title p \<and>
      un_content un = snd (embed_watermark alnum now' content (u_peer_id reader) 0 None True True True eng)
    else unlock_proposal C alnum now' r (p_id p) reader s = (s, Inl (Http 403))"
proof -
  let ?t = "b_threshold_m room" and ?rs = "share_rows now (p_id p) row_id members shares"
  obtain st where s: "find_one (\<lambda>q. p_id q = p_id p) (bd_proposals s) = Some (p\<lparr>p_status := st\<rparr>)"
    "find_one (\<lambda>b. b_id b = p_boardroom_id p) (bd_rooms s) = Some room" "bd_timelock s = e" "sv_stegano (app_service s) = eng" "bd_members s = M"
    using v by (auto simp: prop_view_def find_one_ident)
  have "\<forall>h \<in> set (map snd ?rs). h_created_at h = now" using share_rows_simps(3) by fastforce
  moreover have "length (map snd ?rs) \<le> find_limit" using m(2) by (simp add: share_rows_def)
  ultimately have sub: "filter h_submitted (proposal_shares (p_id p) s) = map (\<lambda>i. flagged A (snd (?rs ! i))) (released members A)"
    using view_proposal_shares [OF v] by (simp only: submitted_released)
  have len: "length (released members A) = card (set members \<inter> A)" by (rule length_released [OF m(1)])
  show ?thesis
  proof (cases "?t \<le> int (card (set members \<inter> A))")
    case True
    have "length members \<le> 255" using m(2) by (simp add: find_limit_def)
    then have "reconstruct_shares C (py_take ?t (map (\<lambda>i. flagged A (snd (?rs ! i))) (released members A))) = Inr cts"
      using split_Inr_bounds [OF split] True len by (intro reconstruct_released [OF split _ _ _ c]) auto
    moreover have "(case p_lock_id p of None \<Rightarrow> (bd_timelock s, Inr cts) | Some l \<Rightarrow>
        if l = [] then (bd_timelock s, Inr cts) else open_timelock C now' r l cts (bd_timelock s)) = (e, Inr content)"
      unfolding s(3) by (rule l)
    moreover obtain eng' wm where "embed_watermark alnum now' content (u_peer_id reader) 0 None True True True eng = (eng', wm)" by fastforce
    ultimately show ?thesis using True s(1,2,4,5) m(3) len by (simp add: unlock_proposal_def sub Let_def)
  next
    case False
    then show ?thesis using s m(3) len by (simp add: unlock_proposal_def sub Let_def)
  qed
qed

section \<open>Properties\<close>

lemma length_members_of: "length (members_of bid s) \<le> find_limit"
  by (simp add: members_of_def)

lemma share_rows_users: "map h_user_id (map snd (share_rows now pid row_id members shares)) = members"
  using share_rows_simps(2) [of now pid row_id members shares] by (simp add: comp_def)

text \<open>C12: A proposal opens exactly when enough members have approved it. Whatever requests to approve come,
  from members or others, repeated or not, a member who unlocks it reads the proposal's text under
  the member's own watermark if at least as many different members approved as the boardroom's
  threshold says, and is refused otherwise; with a time lock this holds until the lock ends.\<close>
theorem proposal_opens_at_threshold:
  assumes "create_proposal C now dr ld pid row_id boardroom_id title content ttl user s = (s1, Inr res)"
    and "board_ok s" "new_ids pid row_id s" "find_one (\<lambda>b. b_id b = boardroom_id) (bd_rooms s) = Some room"
    and "s2 = fold (\<lambda>(now, u) s. fst (approve_proposal now pid u s)) approvals s1"
    and "(boardroom_id, u_id reader) \<in> set (bd_members s)"
    and "case ttl of None \<Rightarrow> content \<noteq> [] | Some t \<Rightarrow> now' \<le> now + seconds t"
    and "scalar_text content" "aes_correct C" "length (dr_aes_key dr) = 32" "length (ld_key ld) = 32" "ld_lock_id ld \<noteq> []"
  shows "if b_threshold_m room \<le> int (card (set (members_of boardroom_id s) \<inter> u_id ` snd ` set approvals))
    then \<exists>s3 un. unlock_proposal C alnum now' r pid reader s2 = (s3, Inr un) \<and> un_title un = title \<and>
      un_content un = snd (embed_watermark alnum now' content (u_peer_id reader) 0 None True True True (sv_stegano (app_service s)))
    else unlock_proposal C alnum now' r pid reader s2 = (s2, Inl (Http 403))"
proof -
  let ?m = "members_of boardroom_id s"
  obtain e cts lock shares key p where p:
    "apply_timelock C now ld content ttl (bd_timelock s) = (e, Inr (cts, lock))"
    "split_secret C dr cts (b_threshold_m room) (int (length ?m)) = Inr (shares, key)"
    "p_id p = pid" "p_title p = title" "p_lock_id p = map_option fst lock"
    "prop_view p room (map snd (share_rows now pid row_id ?m shares)) e (sv_stegano (app_service s)) (bd_members s) {} s1"
    using assms(4) by (auto intro: create_view [OF assms(1-3)])
  have d: "distinct ?m" using assms(2) by (simp add: board_ok_def distinct_members)
  have v: "prop_view p room (map snd (share_rows now (p_id p) row_id ?m shares)) e (sv_stegano (app_service s)) (bd_members s)
      (u_id ` snd ` set approvals) s2"
    using approvals_view [OF p(6)] d share_rows_users p(3) unfolding assms(5) by (simp add: share_rows_users)
  have room: "(b_id room, u_id reader) \<in> set (bd_members s)" using find_one_SomeD [OF assms(4)] assms(6) by simp
  have "scalar_text cts \<and> cts \<noteq> [] \<and>
      (case p_lock_id p of None \<Rightarrow> (e, Inr cts) | Some l \<Rightarrow> if l = [] then (e, Inr cts) else open_timelock C now' r l cts e) = (e, Inr content)"
  proof (cases ttl)
    case None
    then show ?thesis using p(1,5) assms(7,8) by (auto simp: apply_timelock_def)
  next
    case (Some t)
    then have "now' \<le> now + seconds t" using assms(7) by simp
    from timelock_opens [OF p(1) [unfolded Some] assms(9,11,8) this] show ?thesis using p(5) assms(12) by simp
  qed
  then have l: "scalar_text cts" "cts \<noteq> []"
      "(case p_lock_id p of None \<Rightarrow> (e, Inr cts) | Some l \<Rightarrow> if l = [] then (e, Inr cts) else open_timelock C now' r l cts e) = (e, Inr content)"
    by blast+
  show ?thesis
    using unlock_view [OF v p(2) d length_members_of room l(1,2) assms(9,10) l(3), of alnum] by (simp only: p(3,4))
qed

definition sample_member :: "string \<Rightarrow> user_row" where
  "sample_member i = \<lparr>u_id = i, u_username = ''user-'' @ i, u_email = [], u_password_hash = [], u_encrypted_signing_key = [],
     u_verify_key_hex = [], u_peer_id = ''peer-'' @ i, u_node_id = ''B'', u_created_at = 0, u_last_seen_at = 0\<rparr>"

definition sample_room :: boardroom_row where
  "sample_room = \<lparr>b_id = ''b'', b_name = ''board'', b_threshold_m = 2, b_created_at = 0\<rparr>"

definition sample_board :: board where
  "sample_board = \<lparr>app_users = [], app_sessions = [], app_documents = [], app_shares = [], app_service = sample_service,
     app_files = Map.empty, bd_rooms = [(''b'', sample_room)], bd_members = [(''b'', ''1''), (''b'', ''2''), (''b'', ''3'')],
     bd_proposals = [], bd_shares = [], bd_timelock = new_timelock_engine True\<rparr>"

definition board_lock :: lock_draws where
  "board_lock = \<lparr>ld_lock_id = ''l'', ld_key = replicate 32 9, ld_nonce = replicate 12 1\<rparr>"

definition sample_row_id :: "nat \<Rightarrow> string" where
  "sample_row_id i = replicate i CHR ''x''"

definition sample_created :: "board \<times> (string \<times> datetime option) response" where
  "sample_created = create_proposal toy_crypto 0 sample_draws board_lock ''p'' sample_row_id ''b'' ''title'' [104, 105] None (sample_member ''1'') sample_board"

theorem proposal_opens_at_threshold_witness:
  "\<exists>s3 un. unlock_proposal toy_crypto (\<lambda>_. False) 9 [] ''p'' (sample_member ''3'')
      (fold (\<lambda>(now, u) s. fst (approve_proposal now ''p'' u s)) [(1, sample_member ''1''), (2, sample_member ''2'')] (fst sample_created)) = (s3, Inr un) \<and>
    un_title un = ''title''"
proof -
  let ?us = "[(1, sample_member ''1''), (2, sample_member ''2'')]"
  have m: "members_of ''b'' sample_board = [''1'', ''2'', ''3'']" by (simp add: members_of_def sample_board_def find_limit_def)
  have room: "find_one (\<lambda>b. b_id b = ''b'') (bd_rooms sample_board) = Some sample_room"
    by (simp add: find_one_def sample_board_def sample_room_def)
  have len: "length (dr_aes_key sample_draws) = 32" by (simp add: sample_draws_def)
  obtain shares where "split_secret toy_crypto sample_draws [104, 105] 2 3 = Inr (shares, dr_hmac_key sample_draws)"
    using split_ok [OF _ _ len, of 2 3 toy_crypto "[104, 105]"] by auto
  then have "\<exists>res. snd sample_created = Inr res"
    using m room by (auto simp: sample_created_def create_proposal_def apply_timelock_def Let_def)
      (simp_all add: sample_board_def sample_member_def sample_room_def)
  then obtain res where c: "create_proposal toy_crypto 0 sample_draws board_lock ''p'' sample_row_id ''b'' ''title'' [104, 105] None
      (sample_member ''1'') sample_board = (fst sample_created, Inr res)"
    unfolding sample_created_def by (metis prod.collapse)
  have ok: "board_ok sample_board" by (simp add: board_ok_def sample_board_def)
  have "inj sample_row_id" by (auto simp: sample_row_id_def inj_def)
  then have new: "new_ids ''p'' sample_row_id sample_board" by (simp add: new_ids_def sample_board_def)
  have mem: "(''b'', u_id (sample_member ''3'')) \<in> set (bd_members sample_board)" by (simp add: sample_board_def sample_member_def)
  have t: "case None of None \<Rightarrow> [104, 105 :: nat] \<noteq> [] | Some t \<Rightarrow> 9 \<le> 0 + seconds t" by simp
  have sc: "scalar_text [104, 105]" by (simp add: scalar_text_def scalar_def)
  have lk: "length (ld_key board_lock) = 32" "ld_lock_id board_lock \<noteq> []" by (simp_all add: board_lock_def)
  have "set (members_of ''b'' sample_board) \<inter> u_id ` snd ` set ?us = {''1'', ''2''}" unfolding m by (auto simp: sample_member_def)
  then have "b_threshold_m sample_room \<le> int (card (set (members_of ''b'' sample_board) \<inter> u_id ` snd ` set ?us))"
    by (simp add: sample_room_def)
  then show ?thesis
    using proposal_opens_at_threshold [OF c ok new room refl mem t sc toy_crypto_laws(3) len lk, of ?us "\<lambda>_. False" "[]"]
    by (auto simp del: fold_simps)
qed

end
