(* ===== verification/Accounts.thy ===== *)
theory Accounts
  imports Documents
begin

text \<open>
  Accounts and sessions of the document service: \<open>trustdocs/auth/crypto.py\<close>,
  \<open>trustdocs/auth/dependencies.py\<close> and \<open>trustdocs/auth/routes.py\<close>. Every other route of the service takes
  the user row that \<open>get_current_user\<close> finds for the session cookie.

  The packages \<open>bcrypt\<close> and \<open>argon2\<close> are the fields of a record, as \<open>nacl\<close> and \<open>cryptography\<close> are in
  \<open>Crypto\<close>. Sessions are specified by a map from tokens to the user and the end of the session, which
  the table of sessions refines.
\<close>

section \<open>Passwords and keys\<close>

text \<open>\<open>bcrypt_hashpw\<close> gives the hash, an ASCII text; both functions of \<open>bcrypt\<close> may raise.\<close>

record password_packages =
  bcrypt_hashpw :: "bytes \<Rightarrow> bytes \<Rightarrow> string result"
  bcrypt_checkpw :: "bytes \<Rightarrow> bytes \<Rightarrow> bool result"
  argon2_hash_secret_raw :: "bytes \<Rightarrow> bytes \<Rightarrow> nat \<Rightarrow> nat \<Rightarrow> nat \<Rightarrow> nat \<Rightarrow> bytes"

text \<open>A password matches the hash made of it.\<close>

definition bcrypt_correct :: "password_packages \<Rightarrow> bool" where
  "bcrypt_correct B \<longleftrightarrow> (\<forall>p salt h. bcrypt_hashpw B p salt = Inr h \<longrightarrow> bcrypt_checkpw B p (encode h) = Inr True)"

text \<open>The derived key has the length asked for.\<close>

definition argon2_length :: "password_packages \<Rightarrow> bool" where
  "argon2_length B \<longleftrightarrow> (\<forall>p salt t m l n. length (argon2_hash_secret_raw B p salt t m l n) = n)"

definition hash_password :: "password_packages \<Rightarrow> bytes \<Rightarrow> ustr \<Rightarrow> string result" where
  "hash_password B salt password = bcrypt_hashpw B (utf8 password) salt"

definition verify_password :: "password_packages \<Rightarrow> ustr \<Rightarrow> string \<Rightarrow> bool result" where
  "verify_password B password hashed = bcrypt_checkpw B (utf8 password) (encode hashed)"

text \<open>Time, memory and lanes are the defaults of the configuration.\<close>

definition derive_wrapping_key :: "password_packages \<Rightarrow> ustr \<Rightarrow> bytes \<Rightarrow> bytes" where
  "derive_wrapping_key B password salt = argon2_hash_secret_raw B (utf8 password) salt 2 65536 2 32"

definition encrypt_signing_key :: "crypto \<Rightarrow> password_packages \<Rightarrow> bytes \<Rightarrow> bytes \<Rightarrow> bytes \<Rightarrow> ustr \<Rightarrow> bytes" where
  "encrypt_signing_key C B salt nonce key password =
     salt @ nonce @ aes_enc C (derive_wrapping_key B password salt) nonce key"

text \<open>\<open>AESGCM\<close> refuses a nonce shorter than eight bytes.\<close>

definition decrypt_signing_key :: "crypto \<Rightarrow> password_packages \<Rightarrow> bytes \<Rightarrow> ustr \<Rightarrow> bytes result" where
  "decrypt_signing_key C B blob password =
     (let salt = take 16 blob;
          nonce = drop 16 (take 28 blob);
          ciphertext = drop 28 blob
      in if length nonce < 8 then Inl ValueError
         else case aes_dec C (derive_wrapping_key B password salt) nonce ciphertext of
                None \<Rightarrow> Inl InvalidTag
              | Some key \<Rightarrow> Inr key)"

definition hash_session_token :: "string \<Rightarrow> string" where
  "hash_session_token token = sha256 (encode token)"

section \<open>Sessions\<close>

text \<open>The cookie of a request; a request without one has the empty token.\<close>

definition get_current_user :: "datetime \<Rightarrow> string \<Rightarrow> 'a app_scheme \<Rightarrow> 'a app_scheme \<times> user_row response" where
  "get_current_user now token a =
     (if token = [] then (a, Inl (Http 401))
      else case find_one (\<lambda>s. se_token_hash s = hash_session_token token) (app_sessions a) of
        None \<Rightarrow> (a, Inl (Http 401))
      | Some s \<Rightarrow>
          if se_expires_at s < now then (a\<lparr>app_sessions := fst (delete_one (se_id s) (app_sessions a))\<rparr>, Inl (Http 401))
          else case find_one (\<lambda>u. u_id u = se_user_id s) (app_users a) of
                 None \<Rightarrow> (a, Inl (Http 401))
               | Some u \<Rightarrow> (a, Inr u))"

text \<open>A route that depends on \<open>get_current_user\<close>.\<close>

definition with_user ::
  "datetime \<Rightarrow> string \<Rightarrow> (user_row \<Rightarrow> 'a app_scheme \<Rightarrow> 'a app_scheme \<times> 'r response) \<Rightarrow> 'a app_scheme \<Rightarrow> 'a app_scheme \<times> 'r response" where
  "with_user now token route a =
     (case get_current_user now token a of
        (a, Inl e) \<Rightarrow> (a, Inl e)
      | (a, Inr u) \<Rightarrow> route u a)"

section \<open>Routes\<close>

record user_response =
  ur_id :: string
  ur_username :: string
  ur_email :: string
  ur_peer_id :: string
  ur_node_id :: string

definition me :: "user_row \<Rightarrow> user_response" where
  "me u = \<lparr>ur_id = u_id u, ur_username = u_username u, ur_email = u_email u, ur_peer_id = u_peer_id u, ur_node_id = u_node_id u\<rparr>"

text \<open>What a registration draws: the row's identifier, the peer's, the key's seed, and the salts and nonce.\<close>

record register_draws =
  rd_id :: string
  rd_peer_id :: string
  rd_seed :: bytes
  rd_salt :: bytes
  rd_nonce :: bytes
  rd_bcrypt_salt :: bytes

definition register ::
  "crypto \<Rightarrow> password_packages \<Rightarrow> config \<Rightarrow> datetime \<Rightarrow> register_draws \<Rightarrow> string \<Rightarrow> string \<Rightarrow> ustr
   \<Rightarrow> 'a app_scheme \<Rightarrow> 'a app_scheme \<times> user_response response" where
  "register C B cfg now dr username email password a =
     (if find_one (\<lambda>u. u_username u = username) (app_users a) \<noteq> None then (a, Inl (Http 409))
      else if find_one (\<lambda>u. u_email u = email) (app_users a) \<noteq> None then (a, Inl (Http 409))
      else
        let (signing_key, verify_key) = generate_keypair C (rd_seed dr);
            encrypted_sk = encrypt_signing_key C B (rd_salt dr) (rd_nonce dr) signing_key password
        in case hash_password B (rd_bcrypt_salt dr) password of
             Inl x \<Rightarrow> (a, Inl (Crash x))
           | Inr hashed \<Rightarrow>
               let user = \<lparr>u_id = rd_id dr, u_username = username, u_email = email, u_password_hash = hashed,
                     u_encrypted_signing_key = encrypted_sk, u_verify_key_hex = bytes_hex verify_key,
                     u_peer_id = rd_peer_id dr, u_node_id = cfg_node_id cfg, u_created_at = now, u_last_seen_at = now\<rparr>
               in (a\<lparr>app_users := insert_row (rd_id dr) user (app_users a)\<rparr>, Inr (me user)))"

text \<open>The answer of a login is the cookie with its age in seconds, and the user.\<close>

definition login ::
  "password_packages \<Rightarrow> config \<Rightarrow> datetime \<Rightarrow> string \<Rightarrow> string \<Rightarrow> string \<Rightarrow> ustr
   \<Rightarrow> 'a app_scheme \<Rightarrow> 'a app_scheme \<times> (string \<times> int \<times> user_response) response" where
  "login B cfg now sid token username password a =
     (case find_one (\<lambda>u. u_username u = username) (app_users a) of
        None \<Rightarrow> (a, Inl (Http 401))
      | Some user \<Rightarrow>
          (case verify_password B password (u_password_hash user) of
             Inl x \<Rightarrow> (a, Inl (Crash x))
           | Inr False \<Rightarrow> (a, Inl (Http 401))
           | Inr True \<Rightarrow>
               let row = \<lparr>se_id = sid, se_user_id = u_id user, se_token_hash = hash_session_token token,
                     se_expires_at = now + seconds (cfg_session_ttl_hours cfg * 3600), se_created_at = now\<rparr>
               in (a\<lparr>app_sessions := insert_row sid row (app_sessions a)\<rparr>,
                   Inr (token, cfg_session_ttl_hours cfg * 3600, me user))))"

definition logout :: "user_row \<Rightarrow> 'a app_scheme \<Rightarrow> 'a app_scheme \<times> unit response" where
  "logout user a = (a\<lparr>app_sessions := fst (delete_where (\<lambda>s. se_user_id s = u_id user) (app_sessions a))\<rparr>, Inr ())"

definition heartbeat :: "datetime \<Rightarrow> user_row \<Rightarrow> 'a app_scheme \<Rightarrow> 'a app_scheme \<times> unit response" where
  "heartbeat now user a = (a\<lparr>app_users := update_one (u_id user) (\<lambda>u. u\<lparr>u_last_seen_at := now\<rparr>) (app_users a)\<rparr>, Inr ())"

section \<open>Keys and passwords round trip\<close>

lemma signing_key_round_trip:
  assumes "aes_correct C" "argon2_length B" "length salt = 16" "length nonce = 12"
  shows "decrypt_signing_key C B (encrypt_signing_key C B salt nonce key password) password = Inr key"
  using assms by (simp add: decrypt_signing_key_def encrypt_signing_key_def aes_correct_def argon2_length_def derive_wrapping_key_def)

lemma password_matches:
  "bcrypt_correct B \<Longrightarrow> hash_password B salt p = Inr h \<Longrightarrow> verify_password B p h = Inr True"
  by (simp add: bcrypt_correct_def hash_password_def verify_password_def)

section \<open>What the table operations do to the rows\<close>

lemma insert_row_new: "map_of t i = None \<Longrightarrow> insert_row i r t = t @ [(i, r)]"
  by (induction t) (auto simp: insert_row_def split: if_splits)

lemma rows_insert_new: "map_of t i = None \<Longrightarrow> rows (insert_row i r t) = insert r (rows t)"
  by (simp add: insert_row_new)

lemma rows_delete_one: "table_ok ident t \<Longrightarrow> rows (fst (delete_one i t)) = {r \<in> rows t. ident r \<noteq> i}"
  by (force simp: delete_one_def dict_del_def table_ok_def)

lemma table_ok_delete_one: "table_ok ident t \<Longrightarrow> table_ok ident (fst (delete_one i t))"
  by (auto simp: delete_one_def dict_del_def table_ok_def distinct_map_filter)

lemma rows_delete_where: "rows (fst (delete_where P t)) = {r \<in> rows t. \<not> P r}"
  by (force simp: delete_where_def)

lemma table_ok_delete_where: "table_ok ident t \<Longrightarrow> table_ok ident (fst (delete_where P t))"
  by (auto simp: delete_where_def table_ok_def distinct_map_filter)

lemma find_one_unique:
  assumes "r \<in> rows t" "P r" "\<And>s. s \<in> rows t \<Longrightarrow> P s \<Longrightarrow> s = r"
  shows "find_one P t = Some r"
proof -
  have "find_one P t \<noteq> None" using assms(1,2) unfolding find_one_None_iff by blast
  then obtain s where "find_one P t = Some s" by blast
  with assms(3) show ?thesis using find_one_SomeD [of P t s] by simp
qed

section \<open>Authentication as an interface\<close>

text \<open>
  What the routes rely on: authentication answers for the owner of a live token, and since it may
  drop a session that has ended, that this changes the answer for no token at any later time.
\<close>

locale authenticator =
  fixes auth :: "datetime \<Rightarrow> 'tok \<Rightarrow> 's \<Rightarrow> 's \<times> ('e + 'u)"
    and owner :: "'s \<Rightarrow> datetime \<Rightarrow> 'tok \<Rightarrow> 'u option"
    and ok :: "'s \<Rightarrow> bool"
  assumes auth_owner: "ok s \<Longrightarrow> snd (auth now tok s) = Inr u \<longleftrightarrow> owner s now tok = Some u"
    and auth_ok: "ok s \<Longrightarrow> ok (fst (auth now tok s))"
    and auth_keeps: "ok s \<Longrightarrow> now \<le> now' \<Longrightarrow> owner (fst (auth now tok s)) now' tok' = owner s now' tok'"
begin

lemma auths_keep:
  assumes "ok s" "\<And>n tok. (n, tok) \<in> set reqs \<Longrightarrow> n \<le> now"
  shows "ok (fold (\<lambda>(n, tok) s. fst (auth n tok s)) reqs s) \<and>
    owner (fold (\<lambda>(n, tok) s. fst (auth n tok s)) reqs s) now tok' = owner s now tok'"
  using assms
proof (induction reqs arbitrary: s)
  case (Cons r reqs)
  obtain n tok where r: "r = (n, tok)" by fastforce
  have "ok (fst (auth n tok s))" using auth_ok [OF Cons.prems(1)] .
  from Cons.IH [OF this] Cons.prems(2) have
    "ok (fold (\<lambda>(n, tok) s. fst (auth n tok s)) reqs (fst (auth n tok s)))"
    "owner (fold (\<lambda>(n, tok) s. fst (auth n tok s)) reqs (fst (auth n tok s))) now tok' = owner (fst (auth n tok s)) now tok'"
    by auto
  moreover have "n \<le> now" using Cons.prems(2) [of n tok] r by simp
  ultimately show ?case using auth_keeps [OF Cons.prems(1)] r by simp
qed simp

text \<open>However often tokens were presented before, an answer is the one there would have been without them.\<close>

lemma auth_after_auths:
  assumes "ok s" "\<And>n tok. (n, tok) \<in> set reqs \<Longrightarrow> n \<le> now"
  shows "snd (auth now tok' (fold (\<lambda>(n, tok) s. fst (auth n tok s)) reqs s)) = Inr u \<longleftrightarrow> snd (auth now tok' s) = Inr u"
  using auths_keep [OF assms] assms(1) by (simp add: auth_owner)

end

text \<open>The tables: sessions have different token hashes and users that exist.\<close>

definition sess_ok :: "'a app_scheme \<Rightarrow> bool" where
  "sess_ok a \<longleftrightarrow> table_ok u_id (app_users a) \<and> table_ok se_id (app_sessions a) \<and> inj_on se_token_hash (rows (app_sessions a)) \<and>
     (\<forall>s. s \<in> rows (app_sessions a) \<longrightarrow> map_of (app_users a) (se_user_id s) \<noteq> None)"

definition session_owner :: "'a app_scheme \<Rightarrow> datetime \<Rightarrow> string \<Rightarrow> user_row option" where
  "session_owner a now token =
     (if token = [] then None
      else case find_one (\<lambda>s. se_token_hash s = hash_session_token token) (app_sessions a) of
        None \<Rightarrow> None
      | Some s \<Rightarrow> if se_expires_at s < now then None else map_of (app_users a) (se_user_id s))"

lemma find_session:
  "sess_ok a \<Longrightarrow> s \<in> rows (app_sessions a) \<Longrightarrow> se_token_hash s = h \<Longrightarrow> find_one (\<lambda>s. se_token_hash s = h) (app_sessions a) = Some s"
  by (rule find_one_unique) (auto simp: sess_ok_def dest: inj_onD)

lemma sess_ok_shrink:
  assumes "sess_ok a" "table_ok se_id t" "rows t \<subseteq> rows (app_sessions a)"
  shows "sess_ok (a\<lparr>app_sessions := t\<rparr>)"
  using assms inj_on_subset [of se_token_hash "rows (app_sessions a)" "rows t"] subsetD [OF assms(3)] unfolding sess_ok_def by simp

lemma auth_state:
  "fst (get_current_user now token a) = a \<or>
   (\<exists>s \<in> rows (app_sessions a). se_token_hash s = hash_session_token token \<and> se_expires_at s < now \<and>
      fst (get_current_user now token a) = a\<lparr>app_sessions := fst (delete_one (se_id s) (app_sessions a))\<rparr>)"
  by (auto simp: get_current_user_def split: option.split dest!: find_one_SomeD)

lemma find_session_deleted:
  assumes ok: "sess_ok a" and s: "s \<in> rows (app_sessions a)"
  shows "find_one (\<lambda>r. se_token_hash r = h) (fst (delete_one (se_id s) (app_sessions a))) =
    (if se_token_hash s = h then None else find_one (\<lambda>r. se_token_hash r = h) (app_sessions a))"
proof -
  let ?t = "fst (delete_one (se_id s) (app_sessions a))"
  have tab: "table_ok se_id (app_sessions a)" and inj: "inj_on se_token_hash (rows (app_sessions a))" using ok by (simp_all add: sess_ok_def)
  have rows: "rows ?t = rows (app_sessions a) - {s}"
    using rows_inj [OF tab, of _ s] s by (auto simp: rows_delete_one [OF tab])
  have ok': "sess_ok (a\<lparr>app_sessions := ?t\<rparr>)"
    using sess_ok_shrink [OF ok table_ok_delete_one [OF tab]] rows by auto
  show ?thesis
  proof (cases "\<exists>r \<in> rows (app_sessions a) - {s}. se_token_hash r = h")
    case True
    then obtain r where r: "r \<in> rows (app_sessions a)" "r \<noteq> s" "se_token_hash r = h" by blast
    then have "se_token_hash s \<noteq> h" using inj s by (auto dest: inj_onD)
    then show ?thesis using find_session [OF ok r(1,3)] find_session [OF ok', of r h] r rows by simp
  next
    case False
    then have "find_one (\<lambda>r. se_token_hash r = h) ?t = None" unfolding find_one_None_iff rows by blast
    moreover have "find_one (\<lambda>r. se_token_hash r = h) (app_sessions a) = None" if "se_token_hash s \<noteq> h"
      unfolding find_one_None_iff using False that by blast
    ultimately show ?thesis by simp
  qed
qed

lemma sess_ok_auth: "sess_ok a \<Longrightarrow> sess_ok (fst (get_current_user now token a))"
proof -
  assume ok: "sess_ok a"
  then have "table_ok se_id (app_sessions a)" by (simp add: sess_ok_def)
  then have "sess_ok (a\<lparr>app_sessions := fst (delete_one i (app_sessions a))\<rparr>)" for i
    by (intro sess_ok_shrink [OF ok] table_ok_delete_one) (auto simp: rows_delete_one)
  then show ?thesis using auth_state [of now token a] ok by auto
qed

interpretation sessions: authenticator get_current_user session_owner sess_ok
proof
  fix a :: "'a app_scheme" and now now' token token' u
  assume ok: "sess_ok a"
  show "snd (get_current_user now token a) = Inr u \<longleftrightarrow> session_owner a now token = Some u"
    using ok by (auto simp: get_current_user_def session_owner_def sess_ok_def find_one_ident split: option.split)
  show "sess_ok (fst (get_current_user now token a))" using sess_ok_auth [OF ok] .
  show "session_owner (fst (get_current_user now token a)) now' token' = session_owner a now' token'" if "now \<le> now'"
    using auth_state [of now token a]
  proof
    assume "\<exists>s \<in> rows (app_sessions a). se_token_hash s = hash_session_token token \<and> se_expires_at s < now \<and>
      fst (get_current_user now token a) = a\<lparr>app_sessions := fst (delete_one (se_id s) (app_sessions a))\<rparr>"
    then obtain s where s: "s \<in> rows (app_sessions a)" "se_expires_at s < now"
      "fst (get_current_user now token a) = a\<lparr>app_sessions := fst (delete_one (se_id s) (app_sessions a))\<rparr>" by blast
    show ?thesis
      using find_session_deleted [OF ok s(1)] find_session [OF ok s(1)] s(2) that
      unfolding s(3) session_owner_def by (auto split: option.split)
  qed simp
qed

lemma visits_change_no_answer:
  assumes "sess_ok a" "\<And>n tok. (n, tok) \<in> set reqs \<Longrightarrow> n \<le> now"
  shows "snd (get_current_user now token (fold (\<lambda>(n, tok) a. fst (get_current_user n tok a)) reqs a)) = Inr u \<longleftrightarrow>
    snd (get_current_user now token a) = Inr u"
  by (rule sessions.auth_after_auths [OF assms])

section \<open>Sessions as a map from tokens\<close>

text \<open>The requests of an account; any other route only presents its token.\<close>

datatype account_request =
    Register register_draws string string ustr
  | Login string string string ustr
  | Logout string
  | Heartbeat string
  | Visit string

fun serve :: "crypto \<Rightarrow> password_packages \<Rightarrow> config \<Rightarrow> datetime \<Rightarrow> account_request \<Rightarrow> app \<Rightarrow> app" where
  "serve C B cfg now (Register dr username email password) a = fst (register C B cfg now dr username email password a)"
| "serve C B cfg now (Login sid token username password) a = fst (login B cfg now sid token username password a)"
| "serve C B cfg now (Logout token) a = fst (with_user now token logout a)"
| "serve C B cfg now (Heartbeat token) a = fst (with_user now token (heartbeat now) a)"
| "serve C B cfg now (Visit token) a = fst (get_current_user now token a)"

text \<open>
  The specification: which user a token stands for, and until when. A login with the right password
  adds the token, and a logout with a token that has not ended removes all tokens of its user.
\<close>

type_synonym tokens = "string \<rightharpoonup> string \<times> datetime"

fun spec :: "password_packages \<Rightarrow> config \<Rightarrow> datetime \<Rightarrow> account_request \<Rightarrow> user_row table \<Rightarrow> tokens \<Rightarrow> tokens" where
  "spec B cfg now (Login sid token username password) users L =
     (case find_one (\<lambda>u. u_username u = username) users of
        None \<Rightarrow> L
      | Some u \<Rightarrow>
          if verify_password B password (u_password_hash u) = Inr True
          then L(token \<mapsto> (u_id u, now + seconds (cfg_session_ttl_hours cfg * 3600))) else L)"
| "spec B cfg now (Logout token) users L =
     (case L token of
        None \<Rightarrow> L
      | Some (uid, e) \<Rightarrow> if e < now then L else (\<lambda>t. if map_option fst (L t) = Some uid then None else L t))"
| "spec B cfg now _ users L = L"

text \<open>
  Identifiers and tokens are drawn anew, a new token has no hash of a token in use, and a token a
  client presents has the hash of a token in use only if it is that token.
\<close>

definition no_collision :: "string \<Rightarrow> tokens \<Rightarrow> bool" where
  "no_collision token L \<longleftrightarrow> (\<forall>t \<in> dom L. hash_session_token t = hash_session_token token \<longrightarrow> t = token)"

fun admissible :: "account_request \<Rightarrow> app \<Rightarrow> tokens \<Rightarrow> bool" where
  "admissible (Register dr username email password) a L \<longleftrightarrow> map_of (app_users a) (rd_id dr) = None"
| "admissible (Login sid token username password) a L \<longleftrightarrow>
     map_of (app_sessions a) sid = None \<and> token \<noteq> [] \<and> token \<notin> dom L \<and> no_collision token L"
| "admissible (Logout token) a L \<longleftrightarrow> no_collision token L"
| "admissible (Heartbeat token) a L \<longleftrightarrow> no_collision token L"
| "admissible (Visit token) a L \<longleftrightarrow> no_collision token L"

inductive served :: "crypto \<Rightarrow> password_packages \<Rightarrow> config \<Rightarrow> datetime \<Rightarrow> app \<Rightarrow> tokens \<Rightarrow> bool" for C B cfg where
  served_start: "table_ok u_id (app_users a) \<Longrightarrow> app_sessions a = [] \<Longrightarrow> served C B cfg t a Map.empty"
| served_request: "served C B cfg t a L \<Longrightarrow> t \<le> now \<Longrightarrow> admissible req a L \<Longrightarrow>
    served C B cfg now (serve C B cfg now req a) (spec B cfg now req (app_users a) L)"

text \<open>The table refines the map: it may lack tokens that have ended.\<close>

definition refines :: "datetime \<Rightarrow> app \<Rightarrow> tokens \<Rightarrow> bool" where
  "refines t a L \<longleftrightarrow> sess_ok a \<and> [] \<notin> dom L \<and> inj_on hash_session_token (dom L) \<and>
     (\<forall>tok uid e. L tok = Some (uid, e) \<longrightarrow> map_of (app_users a) uid \<noteq> None) \<and>
     (\<forall>s. s \<in> rows (app_sessions a) \<longrightarrow>
        (\<exists>tok. hash_session_token tok = se_token_hash s \<and> L tok = Some (se_user_id s, se_expires_at s))) \<and>
     (\<forall>tok uid e. L tok = Some (uid, e) \<longrightarrow> t \<le> e \<longrightarrow> (\<exists>s. s \<in> rows (app_sessions a) \<and> se_token_hash s = hash_session_token tok))"

lemma refinesD:
  assumes "refines t a L"
  shows "sess_ok a" "[] \<notin> dom L" "inj_on hash_session_token (dom L)"
    "\<And>tok uid e. L tok = Some (uid, e) \<Longrightarrow> map_of (app_users a) uid \<noteq> None"
    "\<And>s. s \<in> rows (app_sessions a) \<Longrightarrow> \<exists>tok. hash_session_token tok = se_token_hash s \<and> L tok = Some (se_user_id s, se_expires_at s)"
    "\<And>tok uid e. L tok = Some (uid, e) \<Longrightarrow> t \<le> e \<Longrightarrow> \<exists>s. s \<in> rows (app_sessions a) \<and> se_token_hash s = hash_session_token tok"
  using assms unfolding refines_def by iprover+

lemma refines_later: "refines t a L \<Longrightarrow> t \<le> now \<Longrightarrow> refines now a L"
  unfolding refines_def by (meson order_trans)

lemma refines_row:
  assumes "refines t a L" "s \<in> rows (app_sessions a)" "se_token_hash s = hash_session_token token" "no_collision token L"
  shows "L token = Some (se_user_id s, se_expires_at s)"
proof -
  obtain tok where tok: "hash_session_token tok = se_token_hash s" "L tok = Some (se_user_id s, se_expires_at s)"
    using refinesD(5) [OF assms(1,2)] by iprover
  then have "tok \<in> dom L" by blast
  then have "tok = token" using assms(3,4) tok(1) unfolding no_collision_def by simp
  with tok(2) show ?thesis by simp
qed

lemma refines_owner:
  assumes "refines t a L" "t \<le> now" "no_collision token L"
  shows "session_owner a now token =
    (case L token of None \<Rightarrow> None | Some (uid, e) \<Rightarrow> if e < now then None else map_of (app_users a) uid)"
proof -
  have ok: "sess_ok a" and ne: "L [] = None" using assms(1) by (auto simp: refines_def)
  show ?thesis
  proof (cases "find_one (\<lambda>s. se_token_hash s = hash_session_token token) (app_sessions a)")
    case None
    have "e < now" if e: "L token = Some (uid, e)" for uid e
    proof (rule ccontr)
      assume "\<not> e < now"
      then have "t \<le> e" using assms(2) by simp
      then obtain s where "s \<in> rows (app_sessions a)" "se_token_hash s = hash_session_token token"
        using refinesD(6) [OF assms(1) e] by iprover
      then show False using None unfolding find_one_None_iff by blast
    qed
    then show ?thesis using None ne by (auto simp: session_owner_def split: option.split)
  next
    case (Some s)
    then have "L token = Some (se_user_id s, se_expires_at s)"
      using refines_row [OF assms(1) _ _ assms(3), of s] find_one_SomeD [OF Some] by simp
    then show ?thesis using Some ne by (auto simp: session_owner_def)
  qed
qed

lemma refines_shrink:
  assumes "refines t a L" "table_ok se_id u" "rows u \<subseteq> rows (app_sessions a)" "\<And>tok x. L' tok = Some x \<Longrightarrow> L tok = Some x"
    "\<And>s tok. s \<in> rows u \<Longrightarrow> L tok = Some (se_user_id s, se_expires_at s) \<Longrightarrow> L' tok = Some (se_user_id s, se_expires_at s)"
    "\<And>s tok. s \<in> rows (app_sessions a) \<Longrightarrow> L' tok = Some (se_user_id s, se_expires_at s) \<Longrightarrow> now \<le> se_expires_at s \<Longrightarrow> s \<in> rows u"
    and "t \<le> now"
  shows "refines now (a\<lparr>app_sessions := u\<rparr>) L'"
proof -
  have dom: "dom L' \<subseteq> dom L" using assms(4) by blast
  note L = refinesD [OF assms(1)]
  have row: "\<exists>s. s \<in> rows u \<and> se_token_hash s = hash_session_token tok" if r: "L' tok = Some (uid, e)" "now \<le> e" for tok uid e
  proof -
    obtain s where s: "s \<in> rows (app_sessions a)" "se_token_hash s = hash_session_token tok"
      using L(6) assms(4) [OF r(1)] r(2) assms(7) by force
    have "no_collision tok L" using L(3) assms(4) [OF r(1)] by (auto simp: no_collision_def dest: inj_onD)
    then have "L tok = Some (se_user_id s, se_expires_at s)" using refines_row [OF assms(1) s] by simp
    then show ?thesis using assms(4) [OF r(1)] assms(6) [OF s(1), of tok] r s by auto
  qed
  have "sess_ok (a\<lparr>app_sessions := u\<rparr>)" using sess_ok_shrink [OF L(1) assms(2,3)] .
  moreover have "\<exists>tok. hash_session_token tok = se_token_hash s \<and> L' tok = Some (se_user_id s, se_expires_at s)" if "s \<in> rows u" for s
    using L(5) [OF subsetD [OF assms(3) that]] assms(5) [OF that] by blast
  moreover have "map_of (app_users a) uid \<noteq> None" if "L' tok = Some (uid, e)" for tok uid e using L(4) assms(4) [OF that] .
  moreover have "[] \<notin> dom L'" "inj_on hash_session_token (dom L')" using L(2) dom inj_on_subset [OF L(3) dom] by blast+
  ultimately show ?thesis using row by (simp add: refines_def)
qed

lemma refines_auth:
  assumes "refines t a L" "t \<le> now" "no_collision token L"
  shows "refines now (fst (get_current_user now token a)) L"
proof -
  have tab: "table_ok se_id (app_sessions a)" using assms(1) by (simp add: refines_def sess_ok_def)
  have "refines now (a\<lparr>app_sessions := fst (delete_one (se_id s) (app_sessions a))\<rparr>) L"
    if "s \<in> rows (app_sessions a)" "se_expires_at s < now" for s
  proof (rule refines_shrink [OF assms(1) table_ok_delete_one [OF tab]])
    fix r assume "r \<in> rows (app_sessions a)" "now \<le> se_expires_at r"
    then show "r \<in> rows (fst (delete_one (se_id s) (app_sessions a)))"
      using that rows_inj [OF tab, of r s] by (auto simp: rows_delete_one [OF tab])
  qed (use assms(2) in \<open>auto simp: rows_delete_one [OF tab]\<close>)
  then show ?thesis using auth_state [of now token a] refines_later [OF assms(1,2)] by metis
qed

lemma auth_cases:
  "snd (get_current_user now token a) = Inl (Http 401) \<or>
   (\<exists>u. get_current_user now token a = (a, Inr u))"
  by (auto simp: get_current_user_def split: option.split)

lemma auth_result:
  assumes "sess_ok a"
  shows "session_owner a now token = None \<Longrightarrow> snd (get_current_user now token a) = Inl (Http 401)"
    and "session_owner a now token = Some u \<Longrightarrow> get_current_user now token a = (a, Inr u)"
  using auth_cases [of now token a] sessions.auth_owner [OF assms, of now token] by (metis option.distinct(1) snd_conv, metis snd_conv sum.distinct(1) sum.inject(2))

lemma refines_answer:
  assumes "refines t a L" "t \<le> now" "no_collision token L"
  shows "snd (get_current_user now token a) =
    (case L token of None \<Rightarrow> Inl (Http 401) | Some (uid, e) \<Rightarrow> if e < now then Inl (Http 401) else Inr (the (map_of (app_users a) uid)))"
proof -
  note own = sessions.auth_owner [OF refinesD(1) [OF assms(1)], of now token] refines_owner [OF assms]
  show ?thesis
  proof (cases "session_owner a now token")
    case None
    then have "snd (get_current_user now token a) = Inl (Http 401)" using auth_result [OF refinesD(1) [OF assms(1)]] by simp
    then show ?thesis using None own(2) refinesD(4) [OF assms(1), of token] by (auto split: option.splits if_splits)
  next
    case (Some u)
    then have "snd (get_current_user now token a) = Inr u" using own(1) by simp
    then show ?thesis using Some own(2) by (auto split: option.splits if_splits)
  qed
qed

lemma refines_users:
  assumes "refines t a L" "table_ok u_id U" "\<And>i. map_of (app_users a) i \<noteq> None \<Longrightarrow> map_of U i \<noteq> None"
  shows "refines t (a\<lparr>app_users := U\<rparr>) L"
  using assms unfolding refines_def sess_ok_def by simp

lemma refines_login:
  assumes "refines t a L" "t \<le> now" "map_of (app_sessions a) (se_id s) = None" "token \<noteq> []" "token \<notin> dom L" "no_collision token L"
    and s: "se_token_hash s = hash_session_token token" and u: "map_of (app_users a) (se_user_id s) \<noteq> None"
  shows "refines now (a\<lparr>app_sessions := insert_row (se_id s) s (app_sessions a)\<rparr>) (L(token \<mapsto> (se_user_id s, se_expires_at s)))"
proof -
  note L = refinesD [OF refines_later [OF assms(1,2)]]
  have hash: "hash_session_token x \<noteq> hash_session_token token" if "x \<in> dom L" for x
    using assms(5,6) that unfolding no_collision_def by blast
  have old: "se_token_hash r \<noteq> se_token_hash s" if "r \<in> rows (app_sessions a)" for r
    using L(5) [OF that] hash s by (metis domI)
  have rows: "rows (insert_row (se_id s) s (app_sessions a)) = insert s (rows (app_sessions a))" using rows_insert_new [OF assms(3)] .
  have "se_token_hash s \<notin> se_token_hash ` (rows (app_sessions a) - {s})"
  proof (rule notI, erule imageE)
    fix x assume "se_token_hash s = se_token_hash x" "x \<in> rows (app_sessions a) - {s}"
    then show False using old [of x] by simp
  qed
  then have "inj_on se_token_hash (insert s (rows (app_sessions a)))" using L(1) by (simp only: sess_ok_def inj_on_insert simp_thms)
  then have "sess_ok (a\<lparr>app_sessions := insert_row (se_id s) s (app_sessions a)\<rparr>)"
    using L(1) u unfolding sess_ok_def by (simp add: rows table_ok_insert)
  moreover have "inj_on hash_session_token (insert token (dom L))" unfolding inj_on_insert using L(3) hash by (metis DiffD1 imageE)
  moreover have "\<exists>tok. hash_session_token tok = se_token_hash r \<and>
      (L(token \<mapsto> (se_user_id s, se_expires_at s))) tok = Some (se_user_id r, se_expires_at r)" if r: "r = s \<or> r \<in> rows (app_sessions a)" for r
  proof (cases "r = s")
    case False
    then obtain tok where "hash_session_token tok = se_token_hash r" "L tok = Some (se_user_id r, se_expires_at r)" using r L(5) [of r] by auto
    then show ?thesis using assms(5) by (intro exI [of _ tok]) auto
  qed (use s in auto)
  moreover have "\<exists>r. (r = s \<or> r \<in> rows (app_sessions a)) \<and> se_token_hash r = hash_session_token tok"
    if "(L(token \<mapsto> (se_user_id s, se_expires_at s))) tok = Some (uid, e)" "now \<le> e" for tok uid e
  proof (cases "tok = token")
    case True
    then show ?thesis using s by iprover
  next
    case False
    then have "L tok = Some (uid, e)" using that(1) by simp
    from L(6) [OF this that(2)] show ?thesis by iprover
  qed
  moreover have "map_of (app_users a) uid \<noteq> None" if "(L(token \<mapsto> (se_user_id s, se_expires_at s))) tok = Some (uid, e)" for tok uid e
    using that L(4) u by (cases "tok = token") auto
  moreover have "[] \<notin> insert token (dom L)" using L(2) assms(4) by simp
  ultimately show ?thesis unfolding refines_def rows by (simp add: rows del: fun_upd_apply)
qed

lemma refines_logout:
  assumes "refines t a L" "t \<le> now" "\<And>x. L' x = (if map_option fst (L x) = Some (u_id u) then None else L x)"
  shows "refines now (fst (logout u a)) L'"
proof -
  have tab: "table_ok se_id (app_sessions a)" using refinesD(1) [OF assms(1)] by (simp add: sess_ok_def)
  show ?thesis
    unfolding logout_def fst_conv
  proof (rule refines_shrink [OF assms(1) table_ok_delete_where [OF tab] _ _ _ _ assms(2)])
    fix r tok assume "r \<in> rows (app_sessions a)" "L' tok = Some (se_user_id r, se_expires_at r)" "now \<le> se_expires_at r"
    then show "r \<in> rows (fst (delete_where (\<lambda>s. se_user_id s = u_id u) (app_sessions a)))"
      unfolding rows_delete_where by (auto simp: assms(3) split: if_splits)
  qed (auto simp: rows_delete_where assms(3) split: if_splits)
qed

lemma refines_step:
  assumes "refines t a L" "t \<le> now" "admissible req a L"
  shows "refines now (serve C B cfg now req a) (spec B cfg now req (app_users a) L)"
proof (cases req)
  case (Register dr username email password)
  have later: "refines now a L" using refines_later [OF assms(1,2)] .
  have "table_ok u_id (app_users a)" using refinesD(1) [OF later] by (simp add: sess_ok_def)
  then have "refines now (a\<lparr>app_users := insert_row (rd_id dr) u (app_users a)\<rparr>) L" if "u_id u = rd_id dr" for u
    using that by (intro refines_users [OF later] table_ok_insert) (auto simp: insert_row_def)
  then show ?thesis using Register later by (auto simp: register_def Let_def case_prod_beta split: sum.split)
next
  case (Login sid token username password)
  show ?thesis
  proof (cases "find_one (\<lambda>u. u_username u = username) (app_users a)")
    case None
    then show ?thesis using Login refines_later [OF assms(1,2)] by (simp add: login_def)
  next
    case (Some u)
    let ?s = "\<lparr>se_id = sid, se_user_id = u_id u, se_token_hash = hash_session_token token,
      se_expires_at = now + seconds (cfg_session_ttl_hours cfg * 3600), se_created_at = now\<rparr>"
    have "table_ok u_id (app_users a)" using refinesD(1) [OF assms(1)] by (simp add: sess_ok_def)
    then have "map_of (app_users a) (u_id u) = Some u" using find_one_SomeD [OF Some] rows_map_of [of u_id "app_users a" u] by simp
    then have "refines now (a\<lparr>app_sessions := insert_row sid ?s (app_sessions a)\<rparr>)
        (L(token \<mapsto> (u_id u, now + seconds (cfg_session_ttl_hours cfg * 3600))))"
      using refines_login [OF assms(1,2), of ?s token] assms(3) Login by auto
    then show ?thesis using Login Some refines_later [OF assms(1,2)] by (auto simp: login_def Let_def split: sum.split bool.split)
  qed
next
  case (Logout token)
  then have nc: "no_collision token L" using assms(3) by simp
  show ?thesis
  proof (cases "session_owner a now token")
    case None
    then have "snd (get_current_user now token a) = Inl (Http 401)" using auth_result [OF refinesD(1) [OF assms(1)]] by simp
    moreover from this have "spec B cfg now req (app_users a) L = L"
      using Logout refines_answer [OF assms(1,2) nc] by (auto split: option.splits if_splits)
    ultimately show ?thesis
      using Logout refines_auth [OF assms(1,2) nc] by (simp add: with_user_def case_prod_beta)
  next
    case (Some u)
    then have "get_current_user now token a = (a, Inr u)" using auth_result [OF refinesD(1) [OF assms(1)]] by simp
    moreover have "\<exists>e. L token = Some (u_id u, e) \<and> \<not> e < now"
      using Some refines_owner [OF assms(1,2) nc] refinesD(1) [OF assms(1)]
      by (auto simp: sess_ok_def dest: map_of_ident split: option.splits if_splits)
    ultimately show ?thesis using Logout by (auto simp: with_user_def intro!: refines_logout [OF assms(1,2)])
  qed
next
  case (Heartbeat token)
  then have nc: "no_collision token L" using assms(3) by simp
  have tab: "table_ok u_id (app_users a)" using refinesD(1) [OF assms(1)] by (simp add: sess_ok_def)
  have "refines now (fst (heartbeat now u a)) L" for u
    unfolding heartbeat_def fst_conv
  proof (rule refines_users [OF refines_later [OF assms(1,2)]])
    show "table_ok u_id (update_one (u_id u) (\<lambda>u. u\<lparr>u_last_seen_at := now\<rparr>) (app_users a))"
      unfolding update_one_map [OF tab] by (rule table_ok_map [OF tab]) simp
  qed (auto simp: update_one_def split: option.split)
  then show ?thesis
    using Heartbeat auth_cases [of now token a] refines_auth [OF assms(1,2) nc]
    by (auto simp: with_user_def case_prod_beta)
next
  case (Visit token)
  then show ?thesis using refines_auth [OF assms(1,2)] assms(3) by simp
qed

lemma served_refines: "served C B cfg t a L \<Longrightarrow> refines t a L"
  by (induction rule: served.induct) (simp_all add: refines_step, simp add: refines_def sess_ok_def)

section \<open>Properties\<close>

text \<open>C33: Sessions do what they promise. Whatever registrations, logins, logouts, heartbeats and other requests
  came before, a token is accepted exactly while it stands for a login with the right password that
  is at most the configured time ago and whose user has not logged out since, and it is accepted for
  that user; every other token is answered with status 401. The table of sessions, from which ended
  sessions are dropped when they are met, refines the map from tokens to users.\<close>
theorem sessions_refine_tokens:
  assumes "served C B cfg t a L" "t \<le> now" "no_collision token L"
  shows "case L token of
      None \<Rightarrow> snd (get_current_user now token a) = Inl (Http 401)
    | Some (uid, e) \<Rightarrow>
        if e < now then snd (get_current_user now token a) = Inl (Http 401)
        else \<exists>u. get_current_user now token a = (a, Inr u) \<and> u_id u = uid \<and> map_of (app_users a) uid = Some u"
proof -
  have ref: "refines t a L" using served_refines [OF assms(1)] .
  have tab: "table_ok u_id (app_users a)" using refinesD(1) [OF ref] by (simp add: sess_ok_def)
  show ?thesis
  proof (cases "L token")
    case (Some x)
    obtain uid e where x: "x = (uid, e)" by fastforce
    obtain u where "map_of (app_users a) uid = Some u" using refinesD(4) [OF ref, of token uid e] Some x by blast
    then show ?thesis
      using Some x refines_answer [OF ref assms(2,3)] auth_cases [of now token a] map_of_ident [OF tab] by auto
  qed (use refines_answer [OF ref assms(2,3)] in simp)
qed

definition toy_passwords :: password_packages where
  "toy_passwords = \<lparr>bcrypt_hashpw = (\<lambda>p salt. Inr (bytes_hex p)), bcrypt_checkpw = (\<lambda>p h. Inr (h = encode (bytes_hex p))),
     argon2_hash_secret_raw = (\<lambda>p salt t m l n. replicate n 0)\<rparr>"

lemma toy_passwords_laws: "bcrypt_correct toy_passwords" "argon2_length toy_passwords"
  by (simp_all add: toy_passwords_def bcrypt_correct_def argon2_length_def)

lemma toy_hash: "hash_password toy_passwords salt p = Inr (bytes_hex (utf8 p))"
  by (simp add: toy_passwords_def hash_password_def)

definition sample_accounts :: app where
  "sample_accounts = \<lparr>app_users = [], app_sessions = [], app_documents = [], app_shares = [], app_service = sample_service, app_files = Map.empty\<rparr>"

definition sample_register :: account_request where
  "sample_register = Register \<lparr>rd_id = ''1'', rd_peer_id = ''p'', rd_seed = [1], rd_salt = replicate 16 0, rd_nonce = replicate 12 0,
     rd_bcrypt_salt = []\<rparr> ''alice'' ''a@b'' [112, 119]"

definition sample_config :: config where
  "sample_config = \<lparr>cfg_storage_dir = ''data'', cfg_node_id = ''B'', cfg_session_ttl_hours = 24, cfg_max_file_size_mb = 50\<rparr>"

definition sample_logged_in :: app where
  "sample_logged_in = serve toy_crypto toy_passwords sample_config 5 (Login ''s'' ''t'' ''alice'' [112, 119])
     (serve toy_crypto toy_passwords sample_config 1 sample_register sample_accounts)"

theorem sessions_refine_tokens_witness:
  "\<exists>u. get_current_user (5 + seconds 86400) ''t'' sample_logged_in = (sample_logged_in, Inr u) \<and> u_id u = ''1''"
proof -
  let ?a = "serve toy_crypto toy_passwords sample_config 1 sample_register sample_accounts"
  have "served toy_crypto toy_passwords sample_config 0 sample_accounts Map.empty"
    by (rule served_start) (simp_all add: sample_accounts_def)
  then have "served toy_crypto toy_passwords sample_config 1 ?a (spec toy_passwords sample_config 1 sample_register (app_users sample_accounts) Map.empty)"
    by (rule served_request) (simp_all add: sample_register_def sample_accounts_def)
  then have 1: "served toy_crypto toy_passwords sample_config 1 ?a Map.empty" by (simp add: sample_register_def)
  have u: "\<exists>u. find_one (\<lambda>u. u_username u = ''alice'') (app_users ?a) = Some u \<and> u_id u = ''1'' \<and> app_sessions ?a = [] \<and>
      verify_password toy_passwords [112, 119] (u_password_hash u) = Inr True"
    using password_matches [OF toy_passwords_laws(1) toy_hash]
    by (simp add: sample_register_def sample_accounts_def register_def find_one_def generate_keypair_def toy_hash insert_row_def Let_def)
  then have "spec toy_passwords sample_config 5 (Login ''s'' ''t'' ''alice'' [112, 119]) (app_users ?a) Map.empty = [''t'' \<mapsto> (''1'', 5 + seconds 86400)]"
    by (auto simp: sample_config_def)
  with served_request [OF 1, of 5 "Login ''s'' ''t'' ''alice'' [112, 119]"] u
  have s: "served toy_crypto toy_passwords sample_config 5 sample_logged_in [''t'' \<mapsto> (''1'', 5 + seconds 86400)]"
    by (auto simp: sample_logged_in_def no_collision_def)
  show ?thesis using sessions_refine_tokens [OF s, of "5 + seconds 86400" "''t''"] by (auto simp: no_collision_def seconds_def)
qed

end
