(* ===== verification/Chat.thy ===== *)
theory Chat
  imports Accounts
begin

text \<open>
  Messages on documents: \<open>trustdocs/chat.py\<close> and \<open>trustdocs/comments.py\<close>. Each document has a room of
  WebSocket connections; what a member posts is stored and sent to the room. Comments are replies in
  the same table.

  The state extends that of the routes by the table of messages, the rooms (\<open>_rooms\<close>) and, for each
  running handler of a connection, the user and the document it holds in its variables. A broadcast
  is one step; the connections a send fails for are an argument.
\<close>

section \<open>State\<close>

record message_row =
  m_id :: string
  m_document_id :: string
  m_sender_id :: string
  m_body :: ustr
  m_parent_message_id :: "string option"
  m_is_pinned :: bool
  m_created_at :: datetime

record chat = app +
  ch_messages :: "message_row table"
  ch_rooms :: "(string \<times> string list) list"
  ch_handlers :: "(string \<times> (user_row \<times> string)) list"

text \<open>A reply to a message that does not exist violates the table's key and is refused.\<close>

definition insert_message ::
  "datetime \<Rightarrow> string \<Rightarrow> string \<Rightarrow> user_row \<Rightarrow> ustr \<Rightarrow> string option \<Rightarrow> bool \<Rightarrow> chat \<Rightarrow> (chat \<times> message_row) option" where
  "insert_message now mid doc_id user body parent pinned s =
     (let m = \<lparr>m_id = mid, m_document_id = doc_id, m_sender_id = u_id user, m_body = body, m_parent_message_id = parent,
            m_is_pinned = pinned, m_created_at = now\<rparr>
      in if parent \<noteq> None \<and> map_of (ch_messages s) (the parent) = None then None
         else Some (s\<lparr>ch_messages := insert_row mid m (ch_messages s)\<rparr>, m))"

section \<open>Reading messages and comments\<close>

record message_response =
  mr_id :: string
  mr_document_id :: string
  mr_sender_username :: string
  mr_body :: ustr
  mr_created_at :: datetime
  mr_parent_message_id :: "string option"
  mr_is_pinned :: bool

definition message_view :: "chat \<Rightarrow> message_row \<Rightarrow> message_response" where
  "message_view s m =
     \<lparr>mr_id = m_id m, mr_document_id = m_document_id m,
      mr_sender_username = (case find_one (\<lambda>u. u_id u = m_sender_id m) (app_users s) of None \<Rightarrow> ''unknown'' | Some u \<Rightarrow> u_username u),
      mr_body = m_body m, mr_created_at = m_created_at m, mr_parent_message_id = m_parent_message_id m, mr_is_pinned = m_is_pinned m\<rparr>"

definition document_messages :: "string \<Rightarrow> chat \<Rightarrow> message_row list" where
  "document_messages doc_id s = find_many m_created_at (\<lambda>m. m_document_id m = doc_id) (ch_messages s)"

text \<open>The chat refuses deleted documents only; recycled ones stay open.\<close>

definition chat_document :: "string \<Rightarrow> chat \<Rightarrow> document_row option" where
  "chat_document doc_id s =
     (case find_one (\<lambda>d. d_id d = doc_id) (app_documents s) of
        None \<Rightarrow> None
      | Some d \<Rightarrow> if d_status d = ''deleted'' then None else Some d)"

definition get_messages :: "string \<Rightarrow> user_row \<Rightarrow> chat \<Rightarrow> message_response list response" where
  "get_messages doc_id user s =
     (case chat_document doc_id s of
        None \<Rightarrow> Inl (Http 404)
      | Some d \<Rightarrow>
          if \<not> may_access d user s then Inl (Http 404)
          else Inr (map (message_view s) (document_messages doc_id s)))"

definition list_comments :: "string \<Rightarrow> user_row \<Rightarrow> chat \<Rightarrow> message_response list response" where
  "list_comments doc_id user s =
     (case live_document doc_id s of
        None \<Rightarrow> Inl (Http 404)
      | Some d \<Rightarrow>
          if \<not> may_access d user s then Inl (Http 404)
          else Inr (map (message_view s) (filter (\<lambda>m. m_parent_message_id m \<noteq> None) (document_messages doc_id s))))"

definition create_comment ::
  "datetime \<Rightarrow> string \<Rightarrow> string \<Rightarrow> ustr \<Rightarrow> string option \<Rightarrow> user_row \<Rightarrow> chat \<Rightarrow> chat \<times> message_response response" where
  "create_comment now mid doc_id body parent user s =
     (case live_document doc_id s of
        None \<Rightarrow> (s, Inl (Http 404))
      | Some d \<Rightarrow>
          if \<not> may_access d user s then (s, Inl (Http 403))
          else case insert_message now mid doc_id user body parent False s of
                 None \<Rightarrow> (s, Inl (Crash RuntimeError))
               | Some (s, m) \<Rightarrow> (s, Inr ((message_view s m)\<lparr>mr_sender_username := u_username user\<rparr>)))"

section \<open>Rooms\<close>

definition room :: "string \<Rightarrow> chat \<Rightarrow> string list" where
  "room doc_id s = (case map_of (ch_rooms s) doc_id of None \<Rightarrow> [] | Some r \<Rightarrow> r)"

text \<open>The token of the first message; anything but an object with a text fails, and the connection is closed.\<close>

definition init_token :: "json \<Rightarrow> ustr option" where
  "init_token init =
     (case init of
        JObj d \<Rightarrow> (case map_of d ''token'' of None \<Rightarrow> Some [] | Some (JStr t) \<Rightarrow> if scalar_text t then Some t else None | Some _ \<Rightarrow> None)
      | _ \<Rightarrow> None)"

text \<open>Joining: \<open>None\<close> when the connection is closed, else the name sent back.\<close>

definition ws_join :: "string \<Rightarrow> json \<Rightarrow> string \<Rightarrow> chat \<Rightarrow> chat \<times> string option" where
  "ws_join conn init doc_id s =
     (case init_token init of
        None \<Rightarrow> (s, None)
      | Some token \<Rightarrow>
          (case find_one (\<lambda>r. se_token_hash r = sha256 (utf8 token)) (app_sessions s) of
             None \<Rightarrow> (s, None)
           | Some session \<Rightarrow>
               (case find_one (\<lambda>u. u_id u = se_user_id session) (app_users s) of
                  None \<Rightarrow> (s, None)
                | Some user \<Rightarrow>
                    (case chat_document doc_id s of
                       None \<Rightarrow> (s, None)
                     | Some d \<Rightarrow>
                         if \<not> may_access d user s then (s, None)
                         else (s\<lparr>ch_rooms := dict_set doc_id (List.insert conn (room doc_id s)) (ch_rooms s),
                                 ch_handlers := dict_set conn (user, doc_id) (ch_handlers s)\<rparr>, Some (u_username user))))))"

definition ws_leave :: "string \<Rightarrow> chat \<Rightarrow> chat" where
  "ws_leave conn s =
     (case map_of (ch_handlers s) conn of
        None \<Rightarrow> s
      | Some (user, doc_id) \<Rightarrow>
          let s = s\<lparr>ch_handlers := dict_del conn (ch_handlers s)\<rparr>
          in case map_of (ch_rooms s) doc_id of
               None \<Rightarrow> s
             | Some r \<Rightarrow>
                 let r = removeAll conn r
                 in if r = [] then s\<lparr>ch_rooms := dict_del doc_id (ch_rooms s)\<rparr>
                    else s\<lparr>ch_rooms := dict_set doc_id r (ch_rooms s)\<rparr>)"

text \<open>A broadcast carries the stored message under the name of the sender.\<close>

definition ws_post ::
  "datetime \<Rightarrow> string \<Rightarrow> string list \<Rightarrow> string \<Rightarrow> ustr \<Rightarrow> string option \<Rightarrow> bool \<Rightarrow> chat \<Rightarrow> chat \<times> (string \<times> message_response) list" where
  "ws_post now mid dead conn body parent pinned s =
     (case map_of (ch_handlers s) conn of
        None \<Rightarrow> (s, [])
      | Some (user, doc_id) \<Rightarrow>
          if body = [] then (s, [])
          else case insert_message now mid doc_id user body parent pinned s of
                 None \<Rightarrow> (ws_leave conn s, [])
               | Some (s, m) \<Rightarrow>
                   let b = (message_view s m)\<lparr>mr_sender_username := u_username user\<rparr>;
                       clients = room doc_id s;
                       s = (if filter (\<lambda>c. c \<in> set dead) clients = [] then s
                            else s\<lparr>ch_rooms := dict_set doc_id (filter (\<lambda>c. c \<notin> set dead) clients) (ch_rooms s)\<rparr>)
                   in (s, map (\<lambda>c. (c, b)) (filter (\<lambda>c. c \<notin> set dead) clients)))"

section \<open>What happens while a connection is open\<close>

datatype chat_event =
    Join string json string
  | Post datetime string "string list" string ustr "string option" bool
  | Leave string
  | RevokeShare datetime string string user_row
  | RecycleDocument datetime string user_row
  | PurgeDocument datetime string user_row
  | EndSessions user_row
  | Presents datetime string

fun chat_step :: "chat_event \<Rightarrow> chat \<Rightarrow> chat" where
  "chat_step (Join conn init doc_id) s = fst (ws_join conn init doc_id s)"
| "chat_step (Post now mid dead conn body parent pinned) s = fst (ws_post now mid dead conn body parent pinned s)"
| "chat_step (Leave conn) s = ws_leave conn s"
| "chat_step (RevokeShare now doc_id target user) s = fst (revoke_share now doc_id target user s)"
| "chat_step (RecycleDocument now doc_id user) s = fst (delete_document now doc_id user s)"
| "chat_step (PurgeDocument now doc_id user) s = fst (purge_document now doc_id user s)"
| "chat_step (EndSessions user) s = fst (logout user s)"
| "chat_step (Presents now token) s = fst (get_current_user now token s)"

text \<open>The connection neither closes nor crashes, and sending to it does not fail.\<close>

fun stays :: "string \<Rightarrow> chat_event \<Rightarrow> bool" where
  "stays c (Join conn init doc_id) \<longleftrightarrow> conn \<noteq> c"
| "stays c (Post now mid dead conn body parent pinned) \<longleftrightarrow> c \<notin> set dead \<and> (conn = c \<longrightarrow> parent = None)"
| "stays c (Leave conn) \<longleftrightarrow> conn \<noteq> c"
| "stays c _ \<longleftrightarrow> True"

definition joined :: "string \<Rightarrow> user_row \<Rightarrow> string \<Rightarrow> chat \<Rightarrow> bool" where
  "joined c user doc_id s \<longleftrightarrow> c \<in> set (room doc_id s) \<and> map_of (ch_handlers s) c = Some (user, doc_id)"

lemma document_routes_keep_rooms:
  "ch_rooms (fst (revoke_share now doc_id target user s)) = ch_rooms s"
  "ch_handlers (fst (revoke_share now doc_id target user s)) = ch_handlers s"
  "ch_rooms (fst (delete_document now doc_id user s)) = ch_rooms s"
  "ch_handlers (fst (delete_document now doc_id user s)) = ch_handlers s"
  "ch_rooms (fst (purge_document now doc_id user s)) = ch_rooms s"
  "ch_handlers (fst (purge_document now doc_id user s)) = ch_handlers s"
  by (auto simp: revoke_share_def delete_document_def purge_document_def update_shares_def Let_def split: option.split)

lemma session_routes_keep_rooms:
  "ch_rooms (fst (get_current_user now token s)) = ch_rooms s" "ch_handlers (fst (get_current_user now token s)) = ch_handlers s"
  "ch_rooms (fst (logout user s)) = ch_rooms s" "ch_handlers (fst (logout user s)) = ch_handlers s"
  by (auto simp: get_current_user_def logout_def split: option.split)

lemma ws_join_joined:
  "ws_join c init doc_id s = (s', Some name) \<Longrightarrow> \<exists>user. joined c user doc_id s' \<and> u_username user = name"
  by (auto simp: ws_join_def joined_def room_def split: option.splits if_splits)

lemma removeAll_Nil: "removeAll x xs = [] \<longleftrightarrow> set xs \<subseteq> {x}"
  by (induction xs) auto

lemma joined_step:
  assumes "joined c user doc_id s" "stays c e"
  shows "joined c user doc_id (chat_step e s)"
proof (cases e)
  case (Leave conn)
  then show ?thesis using assms by (auto simp: joined_def room_def ws_leave_def Let_def removeAll_Nil split: option.split)
next
  case (Join conn init d)
  then show ?thesis using assms by (auto simp: joined_def room_def ws_join_def split: option.split)
next
  case (Post now mid dead conn body parent pinned)
  then show ?thesis using assms
    by (auto simp: joined_def room_def ws_post_def ws_leave_def removeAll_Nil insert_message_def Let_def split: option.split)
qed (use assms in \<open>auto simp: joined_def room_def document_routes_keep_rooms session_routes_keep_rooms\<close>)

lemma joined_events: "joined c user doc_id s \<Longrightarrow> list_all (stays c) es \<Longrightarrow> joined c user doc_id (fold chat_step es s)"
  by (induction es arbitrary: s) (simp_all add: joined_step)

lemma post_delivers:
  assumes "joined x u doc_id s" "body \<noteq> []"
  shows "\<exists>b. mr_body b = body \<and> mr_sender_username b = u_username u \<and>
    map_of (ch_messages (fst (ws_post now mid dead x body None pinned s))) mid \<noteq> None \<and>
    (\<forall>y v. joined y v doc_id s \<and> y \<notin> set dead \<longrightarrow> (y, b) \<in> set (snd (ws_post now mid dead x body None pinned s)))"
proof -
  let ?b = "\<lparr>mr_id = mid, mr_document_id = doc_id, mr_sender_username = u_username u, mr_body = body, mr_created_at = now,
    mr_parent_message_id = None, mr_is_pinned = pinned\<rparr>"
  have "snd (ws_post now mid dead x body None pinned s) = map (\<lambda>c. (c, ?b)) (filter (\<lambda>c. c \<notin> set dead) (room doc_id s))"
    "map_of (ch_messages (fst (ws_post now mid dead x body None pinned s))) mid \<noteq> None"
    using assms by (auto simp: joined_def ws_post_def insert_message_def insert_row_def room_def message_view_def Let_def)
  then show ?thesis by (intro exI [of _ ?b]) (auto simp: joined_def)
qed

section \<open>Properties\<close>

text \<open>C34: A connection that joined the room of a document stays in it until it closes or sending to it fails,
  whatever else happens: it receives every message posted to the room, and may post, also after
  the share it was let in by was revoked, the document recycled or purged, and the session of the
  user ended. What it posts is stored and sent to every connection of the room under the user's name.\<close>
theorem chat_outlives_access:
  assumes "ws_join c init doc_id s = (s1, Some name)" "list_all (stays c) es" "s2 = fold chat_step es s1" "body \<noteq> []"
  shows "\<exists>user. u_username user = name \<and> joined c user doc_id s2 \<and>
    (\<forall>x u. joined x u doc_id s2 \<longrightarrow>
      (\<exists>b. mr_body b = body \<and> mr_sender_username b = u_username u \<and>
        map_of (ch_messages (fst (ws_post now mid dead x body None pinned s2))) mid \<noteq> None \<and>
        (\<forall>y v. joined y v doc_id s2 \<and> y \<notin> set dead \<longrightarrow> (y, b) \<in> set (snd (ws_post now mid dead x body None pinned s2)))))"
proof -
  obtain user where u: "joined c user doc_id s1" "u_username user = name" using ws_join_joined [OF assms(1)] by blast
  have "joined c user doc_id s2" unfolding assms(3) by (rule joined_events [OF u(1) assms(2)])
  then show ?thesis using u(2) post_delivers [OF _ assms(4)] by blast
qed

definition chat_user :: "string \<Rightarrow> string \<Rightarrow> user_row" where
  "chat_user i name = \<lparr>u_id = i, u_username = name, u_email = name, u_password_hash = [], u_encrypted_signing_key = [],
     u_verify_key_hex = [], u_peer_id = ''peer-'' @ i, u_node_id = ''B'', u_created_at = 0, u_last_seen_at = 0\<rparr>"

text \<open>A document of the first user shared with the second, whose session ended at the epoch.\<close>

definition sample_chat :: chat where
  "sample_chat = \<lparr>app_users = [(''1'', chat_user ''1'' ''alice''), (''2'', chat_user ''2'' ''bob'')],
     app_sessions = [(''s'', \<lparr>se_id = ''s'', se_user_id = ''2'', se_token_hash = sha256 (utf8 [116]), se_expires_at = 0, se_created_at = 0\<rparr>)],
     app_documents = [(''d'', \<lparr>d_id = ''d'', d_owner_id = ''1'', d_filename = ''notes'', d_mime_type = ''text/plain'', d_size_bytes = 2,
       d_storage_path = ''p'', d_storage_node = ''B'', d_content_hash = ''c'', d_coc_node_hash = ''root'',
       d_status = ''active'', d_created_at = 0, d_deleted_at = None, d_recycled_at = None\<rparr>)],
     app_shares = [(''h'', \<lparr>s_id = ''h'', s_document_id = ''d'', s_owner_id = ''1'', s_recipient_id = ''2'', s_child_coc_node_hash = ''n'',
       s_status = ''active'', s_created_at = 0, s_revoked_at = None, s_suspended_at = None\<rparr>)],
     app_service = sample_service, app_files = Map.empty, ch_messages = [], ch_rooms = [], ch_handlers = []\<rparr>"

definition sample_joined :: chat where
  "sample_joined = fst (ws_join ''c'' (JObj [(''token'', JStr [116])]) ''d'' sample_chat)"

definition sample_revoked :: chat where
  "sample_revoked = fold chat_step [RevokeShare 5 ''d'' ''2'' (chat_user ''1'' ''alice''), EndSessions (chat_user ''2'' ''bob'')] sample_joined"

theorem chat_outlives_access_witness:
  "get_messages ''d'' (chat_user ''2'' ''bob'') sample_revoked = Inl (Http 404) \<and>
   (\<exists>b. mr_body b = [104] \<and> mr_sender_username b = ''bob'' \<and>
     (''c'', b) \<in> set (snd (ws_post 9 ''m'' [] ''c'' [104] None False sample_revoked)))"
proof -
  have j: "ws_join ''c'' (JObj [(''token'', JStr [116])]) ''d'' sample_chat = (sample_joined, Some ''bob'')"
    unfolding sample_joined_def
    by (simp add: ws_join_def init_token_def scalar_text_def scalar_def sample_chat_def find_one_def chat_user_def chat_document_def
        may_access_def active_share_def)
  have "list_all (stays ''c'') [RevokeShare 5 ''d'' ''2'' (chat_user ''1'' ''alice''), EndSessions (chat_user ''2'' ''bob'')]" by simp
  moreover have "[104 :: nat] \<noteq> []" by simp
  ultimately obtain user where user: "u_username user = ''bob''" "joined ''c'' user ''d'' sample_revoked" and
    all: "\<forall>x u. joined x u ''d'' sample_revoked \<longrightarrow> (\<exists>b. mr_body b = [104] \<and> mr_sender_username b = u_username u \<and>
      map_of (ch_messages (fst (ws_post 9 ''m'' [] x [104] None False sample_revoked))) ''m'' \<noteq> None \<and>
      (\<forall>y v. joined y v ''d'' sample_revoked \<and> y \<notin> set [] \<longrightarrow> (y, b) \<in> set (snd (ws_post 9 ''m'' [] x [104] None False sample_revoked))))"
    using chat_outlives_access [OF j _ sample_revoked_def] by blast
  have "\<exists>b. mr_body b = [104] \<and> mr_sender_username b = ''bob'' \<and>
      (''c'', b) \<in> set (snd (ws_post 9 ''m'' [] ''c'' [104] None False sample_revoked))"
    using all [rule_format, OF user(2)] user by auto
  moreover have "get_messages ''d'' (chat_user ''2'' ''bob'') sample_revoked = Inl (Http 404)"
    by (simp add: sample_revoked_def sample_joined_def revoke_share_def logout_def ws_join_def init_token_def scalar_text_def scalar_def
        sample_chat_def find_one_def chat_user_def chat_document_def may_access_def active_share_def get_messages_def live_document_def
        update_one_def Let_def)
  ultimately show ?thesis by auto
qed

end
