(* ===== verification/Admin.thy ===== *)
theory Admin
  imports Accounts
begin

text \<open>
  The administration routes (\<open>trustdocs/admin.py\<close>): presence of peers, the custody graph and its paths,
  the check of the audit log and the attribution of leaked text. The feed over WebSockets only
  sends what it is given and is left out. As in \<open>Service\<close>, \<open>None\<close> stands for a query that does not return.
\<close>

definition list_peers :: "datetime \<Rightarrow> 'a app_scheme \<Rightarrow> (string \<times> bool) list" where
  "list_peers now a = map (\<lambda>u. (u_peer_id u, is_online now u)) (find_many u_created_at (\<lambda>_. True) (app_users a))"

definition get_graph :: "datetime \<Rightarrow> 'a app_scheme \<Rightarrow> (shown_node list \<times> edge list) response" where
  "get_graph now a =
     (case tf_get_all_nodes now (app_users a) (app_documents a) (sv_storage (app_service a)) of
        Inl x \<Rightarrow> Inl (Crash x)
      | Inr g \<Rightarrow> Inr g)"

definition get_my_graph :: "(string list \<Rightarrow> string list) \<Rightarrow> datetime \<Rightarrow> user_row \<Rightarrow> 'a app_scheme \<Rightarrow> (shown_node list \<times> edge list) response option" where
  "get_my_graph order now user a =
     map_option (\<lambda>r. case r of Inl x \<Rightarrow> Inl (Crash x) | Inr g \<Rightarrow> Inr g)
       (get_graph_for_peer order now (app_users a) (app_documents a) (u_peer_id user) (sv_storage (app_service a)))"

text \<open>The answer to a path query: not visible is status 404.\<close>

definition path_response :: "(unit + path_result) result \<Rightarrow> path_result response" where
  "path_response r = (case r of Inl x \<Rightarrow> Inl (Crash x) | Inr (Inl _) \<Rightarrow> Inl (Http 404) | Inr (Inr p) \<Rightarrow> Inr p)"

definition get_graph_path ::
  "(string list \<Rightarrow> string list) \<Rightarrow> datetime \<Rightarrow> string \<Rightarrow> string \<Rightarrow> string \<Rightarrow> string \<Rightarrow> string option \<Rightarrow> int \<Rightarrow> int \<Rightarrow> user_row
   \<Rightarrow> 'a app_scheme \<Rightarrow> path_result response option" where
  "get_graph_path order now source target mode scope document_id max_paths max_depth user a =
     (if mode \<notin> {''shortest'', ''all''} then Some (Inl (Http 400))
      else if scope \<notin> {''my'', ''file''} then Some (Inl (Http 400))
      else if scope = ''my'' then
        map_option path_response
          (get_graph_paths_for_peer order now (app_users a) (app_documents a) (sv_storage (app_service a))
             (u_peer_id user) source target mode max_paths max_depth)
      else if or_default document_id [] = [] then Some (Inl (Http 400))
      else case live_document (the document_id) a of
             None \<Rightarrow> Some (Inl (Http 404))
           | Some d \<Rightarrow>
               if \<not> may_access d user a then Some (Inl (Http 403))
               else map_option path_response
                      (get_graph_paths_for_document order now (app_users a) (app_documents a) (sv_storage (app_service a))
                         (d_coc_node_hash d) source target mode max_paths max_depth))"

text \<open>The entries are the lines that are neither blank nor comments.\<close>

definition verify_log :: "'a app_scheme \<Rightarrow> bool \<times> nat" where
  "verify_log a =
     (let l = sv_audit_log (app_service a)
      in (verify_log_integrity l,
          case log_file l of
            None \<Rightarrow> 0
          | Some t \<Rightarrow> length (filter (\<lambda>x. strip x \<noteq> [] \<and> take 1 x \<noteq> ''#'') (readlines t))))"

text \<open>Without candidates every user that a query returns is one.\<close>

definition admin_detect_leak ::
  "(nat \<Rightarrow> bool) \<Rightarrow> ustr \<Rightarrow> string list option \<Rightarrow> 'a app_scheme \<Rightarrow> 'a app_scheme \<times> extraction_result response" where
  "admin_detect_leak alnum content candidates a =
     (let given = (case candidates of None \<Rightarrow> [] | Some c \<Rightarrow> c);
          candidates = (if given = [] then map u_peer_id (find_many u_created_at (\<lambda>_. True) (app_users a)) else given);
          (s, r) = detect_leak alnum content candidates (app_service a)
      in (a\<lparr>app_service := s\<rparr>, case r of Inl x \<Rightarrow> Inl (Crash x) | Inr e \<Rightarrow> Inr e))"

section \<open>Path queries\<close>

lemma find_paths_returns:
  assumes "lists_members order" "mode \<in> {''shortest'', ''all''}"
  shows "\<exists>r. find_paths_in_edges order edges source target mode max_paths max_depth = Some (Inr r)"
proof (cases "source = target")
  case False
  then obtain r where "shortest_path order edges source target (clamp 64 max_depth) = Some r"
    using shortest_path_correct [OF assms(1) False] by blast
  then show ?thesis using assms(2) False by (auto simp: find_paths_in_edges_def Let_def case_prod_beta split: option.split)
qed (use assms(2) in \<open>auto simp: find_paths_in_edges_def Let_def\<close>)

lemma visible_paths_return:
  assumes "lists_members order" "mode \<in> {''shortest'', ''all''}"
  shows "\<exists>r. visible_paths order g source target mode max_paths max_depth = Some (Inr r)"
  using find_paths_returns [OF assms, of "snd g" source target max_paths max_depth] by (auto simp: visible_paths_def Let_def)

lemma trace_returns:
  assumes "lists_members order" "db_ok db"
  shows "\<exists>g. get_trace_for_document order now users documents root_hash db = Some g"
proof (cases "lookup_node db root_hash")
  case (Some root)
  then have "root \<in> ran (lookup_node db)" by (rule ranI)
  from walk_down_root [OF assms(1) hash_lookup_db [OF assms(2)] this] show ?thesis using Some by (auto simp: get_trace_for_document_def)
qed (simp add: get_trace_for_document_def)

text \<open>A path query on a document returns, and paths are shown only to those who may access the document.\<close>

lemma file_scope_answers:
  assumes "lists_members order" "db_ok (sv_storage (app_service a))"
  shows "\<exists>r. get_graph_path order now source target mode ''file'' document_id max_paths max_depth user a = Some r \<and>
    (\<forall>p. r = Inr p \<longrightarrow> (\<exists>d. live_document (the document_id) a = Some d \<and> may_access d user a)) \<and> (\<forall>x. r \<noteq> Inl (Crash x))"
proof (cases "mode \<in> {''shortest'', ''all''}")
  case True
  have paths: "\<exists>g. get_graph_paths_for_document order now (app_users a) (app_documents a) (sv_storage (app_service a)) h source target mode
      max_paths max_depth = Some (Inr g)" for h
    using trace_returns [OF assms, of now "app_users a" "app_documents a" h] visible_paths_return [OF assms(1) True]
    by (auto simp: get_graph_paths_for_document_def)
  show ?thesis
  proof (cases "live_document (the document_id) a")
    case (Some d)
    obtain g where "get_graph_paths_for_document order now (app_users a) (app_documents a) (sv_storage (app_service a)) (d_coc_node_hash d)
        source target mode max_paths max_depth = Some (Inr g)"
      using paths by blast
    then show ?thesis using True Some by (auto simp: get_graph_path_def path_response_def split: sum.split)
  qed (use True in \<open>simp add: get_graph_path_def\<close>)
qed (simp add: get_graph_path_def)

end
