(* ===== verification/Spec2Isabelle.thy ===== *)
theory Spec2Isabelle
  imports Network SecretSharing Timelock Stegano Identity Gossip DocAccess Boardroom Chat Admin
begin

text \<open>
  TrustFlow is a chain-of-custody framework for shared content (\<open>coc_framework\<close>), with a document
  service built on it (\<open>trustdocs\<close>). This development models the program as executable HOL functions
  over explicit state and proves the properties that make its parts correct, or show where they are not.

  \<^bold>\<open>The program.\<close> Content is identified by its SHA-256 hash. Every transfer is a custody node, signed
  by its owner and linked to its parent; peers keep nodes in a storage backend, pass them on, delete
  them on signed tokens and write what happened to a hash-chained audit log. Around this stand secret
  sharing, time locks, watermarks, identities with certificates, and a ZeroMQ network with signed
  envelopes and gossip. The document service stores users, documents and shares in a database, makes
  a custody node for each upload and share, watermarks the copy of each recipient, has a chat for each
  document, and has boardrooms in which a proposal is split among the members and opens when enough
  of them approve. A route finds its user by the token of a session.

  \<^bold>\<open>Conventions.\<close> \<open>Prelude\<close> says how Python's values are represented. The clock and the random
  sources (\<open>uuid4\<close>, \<open>secrets\<close>, \<open>os.urandom\<close>) are arguments. An operation that raises returns \<open>Inl\<close> the
  exception; a handler of the service returns its new state with \<open>Inl\<close> a status or \<open>Inr\<close> the answer.
  A dictionary whose order matters is an association list; the order in which a Python set is walked
  is an argument. The packages \<open>nacl\<close> and \<open>cryptography\<close> are the fields of the record \<open>crypto\<close>; what is
  relied on is named by \<open>sig_correct\<close>, \<open>sig_nonempty\<close> and \<open>aes_correct\<close>, and \<open>toy_crypto\<close> shows that
  these can hold; \<open>bcrypt\<close> and \<open>argon2\<close> are the record \<open>password_packages\<close> in the same way. SHA-256 and HMAC are defined in full; where a property needs that hashes differ, the
  statement names the collision.

  \<^bold>\<open>The theories and the code.\<close>

  \<^item> \<open>Prelude\<close>, \<open>Strings\<close>, \<open>Sha256\<close>, \<open>Datetime\<close>, \<open>Json\<close>, \<open>Wire\<close>, \<open>Files\<close>: the standard library as the code
    uses it (numerals, UTF-8, \<open>hashlib\<close>, \<open>hmac\<close>, ISO timestamps, \<open>json\<close>, \<open>base64\<close>, text files, paths) with
    its round trips and bounds.
  \<^item> \<open>Crypto\<close>, \<open>CocNode\<close>: \<open>core/crypto_core.py\<close> and \<open>core/coc_node.py\<close>. Which fields a signature covers, that
    a new node survives transport and verifies, and that the walk over descendants returns exactly
    when there is no infinite chain of children.
  \<^item> \<open>Storage\<close>: \<open>interfaces/storage_backend.py\<close>. The locale \<open>storage_backend\<close> is the contract: an
    invariant, an abstract map of nodes, contents and tombstones, and a simulation law for each
    operation. It is interpreted for \<open>InMemoryStorage\<close> and for \<open>SQLiteStorage\<close>, which gives that the
    reverse index is exact and that both answer alike after every sequence of operations.
  \<^item> \<open>AuditLog\<close>: \<open>core/audit_log.py\<close>, both logs. Changing a verified log changes its last hash unless
    SHA-256 collides; a file written by the logger verifies and is continued when reopened.
  \<^item> \<open>Deletion\<close>, \<open>Network\<close>: \<open>core/deletion_engine.py\<close>, \<open>core/network_sim.py\<close>, \<open>interfaces/peer_discovery.py\<close>.
    Tokens, receipts, the cache against replays, the tracker; peers, routing, queues. Reachable states
    are an inductive relation over operations and deliveries in any order; over it, storages stay
    well formed and a node disappears only on a token some registered peer signed. That this may be
    any registered peer is proved too.
  \<^item> \<open>Residues\<close>, \<open>Modulus\<close>, \<open>SecretSharing\<close>: \<open>core/secret_sharing.py\<close>. Shares at the threshold
    reconstruct on both paths, one less is consistent with every secret, and an authenticated
    reconstruction returns only content of the shared hash. The modulus is not assumed prime: it has
    no factor below the number of shares the code admits, which is what interpolation needs.
  \<^item> \<open>Timelock\<close>: \<open>core/timelock.py\<close>. The key store refines the life of a lock, whenever the cleanup runs;
    the simulated service agrees with the engine.
  \<^item> \<open>Stegano\<close>: \<open>core/steganography.py\<close>. A watermark is read back whichever fingerprints are applied
    with it; a text marked twice keeps its first reader.
  \<^item> \<open>Identity\<close>: \<open>core/identity.py\<close>. What a certificate's signature covers, when an issued certificate
    verifies, and that a cached verdict is reused for another certificate of the same number.
  \<^item> \<open>Protocol\<close>, \<open>Gossip\<close>: \<open>network/protocol.py\<close>, \<open>network/gossip.py\<close>. Every message class survives its
    bytes; an envelope is accepted exactly in its window and only if signed; gossip has an effect only
    if new, signed and timely, and travels one hop.
  \<^item> \<open>Paths\<close>, \<open>Service\<close>: \<open>trustdocs/trustflow_service.py\<close>, \<open>interfaces/postgres_backend.py\<close>. The
    searches end and return shortest paths, or all simple paths within the bounds; a trace lists the
    custody tree; sharing changes the signed parent.
  \<^item> \<open>Database\<close>, \<open>Documents\<close>, \<open>DocAccess\<close>: \<open>trustdocs/database.py\<close>, \<open>trustdocs/documents/routes.py\<close>.
    The tables and query helpers with their laws, every document route, and runs of requests: who
    downloads was granted access, what a revocation ends and what it misses.
  \<^item> \<open>Boardroom\<close>: \<open>trustdocs/boardroom/routes.py\<close>. Secret sharing, time lock, watermark and database
    composed: a proposal opens exactly when enough members approved.
  \<^item> \<open>Accounts\<close>: \<open>trustdocs/auth\<close>. The locale \<open>authenticator\<close> is what the routes rely on: a token is
    answered for its owner, and dropping an ended session changes no later answer. It is interpreted
    for \<open>get_current_user\<close>; the table of sessions refines a map from tokens to users over every
    sequence of requests.
  \<^item> \<open>Chat\<close>, \<open>Admin\<close>: \<open>trustdocs/chat.py\<close>, \<open>trustdocs/comments.py\<close>, \<open>trustdocs/admin.py\<close>. Rooms of
    connections, messages and comments, with the proof that a room outlives the access it was entered
    by; graph and path queries, the check of the log and the attribution of leaks, with the proof that
    a path query on a document returns and is answered only for those who may access it.

  \<^bold>\<open>Loops and fuel.\<close> Walks that may not end are \<open>partial_function (option)\<close>, so that not returning is
  \<open>None\<close>: \<open>descendants\<close>, the breadth-first search with its walk back, the trace and the climb to a root;
  that they return is proved, for \<open>descendants\<close> exactly on graphs without infinite chains. The JSON parser
  takes fuel, the length of the text, which bounds nesting and members since each step consumes a
  character; the round trips show that it is enough for every printed value. Everything else is total.

  \<^bold>\<open>Not modelled.\<close> The simulation engine and its event handlers, the REST server over it, the peer
  processes and their coordinator call the components above in response to scenario files, HTTP requests,
  sockets and operating-system processes; scenario validation and configuration check the shape of their
  input. The network model leaves out the optional engines a simulated peer may carry, and the chat
  takes a broadcast as one step although other handlers may run between its sends. Opening and
  closing sockets, files and database connections, threads and tasks, creating tables and indices,
  logging to the console, the web pages and the start-up scripts have no state the properties speak of.
\<close>

end
